(* ===== verification/Ddos_Prelude.thy ===== *)
theory Ddos_Prelude
  imports Main "HOL-Library.Word" "HOL-Library.Multiset" "HOL-Library.Monad_Syntax"
    "HOL-Library.Sublist"
begin

text \<open>
  Shared vocabulary of the development: the widths of the C integers, arrays with checked
  access (an access outside an array is the value \<^term>\<open>None\<close>, the model's undefined
  behaviour), and the generic facts on option computations, lists and words that the
  component theories use.

  The collections:
  \<^item> \<open>c_arith\<close>: rewriting of word counters,
  \<^item> \<open>array_simps\<close>: reads and writes of checked arrays,
  \<^item> \<open>run_convs\<close> (a bundle): what the steps of a run were, from its result.
\<close>

section \<open>Machine types\<close>

type_synonym u8 = "8 word"
type_synonym u16 = "16 word"
type_synonym u32 = "32 word"
type_synonym u64 = "64 word"

named_theorems c_arith
named_theorems array_simps

section \<open>Checked arrays\<close>

text \<open>\<open>a[i]\<close> and \<open>a[i] = v\<close> with the bound of the array checked.\<close>

definition arr_get :: "'a list \<Rightarrow> nat \<Rightarrow> 'a option" where
  "arr_get a i = (if i < length a then Some (a ! i) else None)"

definition arr_set :: "'a list \<Rightarrow> nat \<Rightarrow> 'a \<Rightarrow> 'a list option" where
  "arr_set a i v = (if i < length a then Some (a[i := v]) else None)"

text \<open>An array of pointers: an entry that was never written is the null pointer.\<close>

definition ptr_get :: "'a option list \<Rightarrow> nat \<Rightarrow> 'a option" where
  "ptr_get a i = (if i < length a then a ! i else None)"

text \<open>The body of a loop run a given number of times.\<close>

fun repeat_step :: "nat \<Rightarrow> ('s \<Rightarrow> 's option) \<Rightarrow> 's \<Rightarrow> 's option" where
  "repeat_step 0 f s = Some s"
| "repeat_step (Suc n) f s = do { s' \<leftarrow> f s; repeat_step n f s' }"

text \<open>A call that returns, or ends the process with \<^verbatim>\<open>exit\<close>.\<close>

datatype 'a proc_outcome = Return 'a | Exit int

section \<open>Generic lemmas\<close>

lemma arr_get_Some [array_simps]: "i < length a \<Longrightarrow> arr_get a i = Some (a ! i)"
  by (simp add: arr_get_def)

lemma arr_get_None [array_simps]: "length a \<le> i \<Longrightarrow> arr_get a i = None"
  by (simp add: arr_get_def)

lemma arr_get_eq_Some_iff: "arr_get a i = Some v \<longleftrightarrow> i < length a \<and> a ! i = v"
  by (auto simp: arr_get_def)

lemma arr_set_Some [array_simps]: "i < length a \<Longrightarrow> arr_set a i v = Some (a[i := v])"
  by (simp add: arr_set_def)

lemma ptr_get_Some [array_simps]:
  "i < length a \<Longrightarrow> a ! i \<noteq> None \<Longrightarrow> ptr_get a i = Some (the (a ! i))"
  by (auto simp: ptr_get_def)

text \<open>A property kept by the body of a loop that never gets stuck is kept by any number of rounds.\<close>

lemma repeat_step_invariant:
  assumes step: "\<And>s. I s \<Longrightarrow> \<exists>s'. f s = Some s' \<and> I s'"
    and init: "I s"
  shows "\<exists>s'. repeat_step n f s = Some s' \<and> I s'"
  using init
proof (induction n arbitrary: s)
  case 0
  then show ?case by simp
next
  case (Suc n)
  then obtain s' where "f s = Some s'" "I s'" using step by blast
  with Suc.IH [of s'] show ?case by simp
qed

lemma those_map_Some [simp]: "those (map Some xs) = Some xs"
  by (induction xs) simp_all

lemma take_list_update_beyond [simp]: "n \<le> i \<Longrightarrow> take n (xs[i := v]) = take n xs"
  by (simp add: list_eq_iff_nth_eq)

lemma take_Suc_list_update:
  "n < length xs \<Longrightarrow> take (Suc n) (xs[n := v]) = take n xs @ [v]"
  by (simp add: take_Suc_conv_app_nth)

lemma mset_take_drop [simp]: "mset (take k xs) + mset (drop k xs) = mset xs"
  by (metis append_take_drop_id mset_append)

lemma subseq_take [simp, intro]: "subseq (take k xs) xs"
  by (simp add: prefix_imp_subseq take_is_prefix)

lemma length_filter_take: "length (filter P (take b xs)) \<le> b"
  by (metis length_filter_le length_take min.cobounded2 order.trans)

text \<open>Consequences of an existence statement, for facts too large for automatic search.\<close>

lemma ex_conseq: "\<exists>x. P x \<Longrightarrow> (\<And>x. P x \<Longrightarrow> Q x) \<Longrightarrow> \<exists>x. Q x"
  by blast

section \<open>Updates at distinct positions\<close>

lemma fold_update_other:
  "j \<notin> k ` set xs \<Longrightarrow> fold (\<lambda>x a. a[k x := f x (a ! k x)]) xs a ! j = a ! j"
  by (induction xs arbitrary: a) auto

lemma fold_update_length [simp]: "length (fold (\<lambda>x a. a[k x := f x a]) xs a) = length a"
  by (induction xs arbitrary: a) auto

lemma fold_update_at:
  assumes "distinct (map k xs)" "x \<in> set xs" "k x < length a"
  shows "fold (\<lambda>x a. a[k x := f x (a ! k x)]) xs a ! k x = f x (a ! k x)"
  using assms
proof (induction xs arbitrary: a)
  case Nil
  then show ?case by simp
next
  case (Cons y xs)
  show ?case
  proof (cases "x = y")
    case True
    then have "k x \<notin> k ` set xs" using Cons.prems by simp
    then show ?thesis
      using True Cons.prems fold_update_other [of "k x" k xs f "a[k y := f y (a ! k y)]"] by simp
  next
    case False
    then have "x \<in> set xs" "k x \<noteq> k y" using Cons.prems by (auto, metis image_eqI)
    then show ?thesis
      using Cons.IH [of "a[k y := f y (a ! k y)]"] Cons.prems by simp
  qed
qed

section \<open>Reading a run backwards\<close>

lemma sum_case_eq:
  "(case x of Inl a \<Rightarrow> f a | Inr b \<Rightarrow> g b) = y \<longleftrightarrow> (\<exists>a. x = Inl a \<and> f a = y) \<or> (\<exists>b. x = Inr b \<and> g b = y)"
  by (cases x) auto

lemma proc_case_eq:
  "(case x of Return a \<Rightarrow> f a | Exit c \<Rightarrow> g c) = y \<longleftrightarrow>
     (\<exists>a. x = Return a \<and> f a = y) \<or> (\<exists>c. x = Exit c \<and> g c = y)"
  by (cases x) auto

lemma if_eq_conv: "(if b then x else z) = y \<longleftrightarrow> b \<and> x = y \<or> \<not> b \<and> z = y"
  by auto

lemma prod_case_eq: "(case x of (a, b) \<Rightarrow> f a b) = y \<longleftrightarrow> (\<exists>a b. x = (a, b) \<and> f a b = y)"
  by (cases x) auto

lemmas run_convs = bind_eq_Some_conv sum_case_eq proc_case_eq if_eq_conv prod_case_eq

end
