(* ===== verification/Dpdk_Ethdev.thy ===== *)
theory Dpdk_Ethdev
  imports Ddos_Prelude
begin

text \<open>
  The packet side of DPDK, which the program calls and does not define. Packets are message
  buffers of which the program reads the data, its length and the offload flags. The device
  operations are a record of functions over an abstract device state \<open>'nic\<close>; every
  definition that calls them takes the record as an argument. The locale \<open>nic_contract\<close>
  is what the DPDK documentation promises of them: a burst never hands out or takes more
  packets than asked, the packets taken are a prefix of the ones offered, and the packets
  that passed through a port are recorded, in order, in a receive and a transmit history.
\<close>

section \<open>Packets and device operations\<close>

record rte_mbuf =
  mbuf_addr :: nat            \<comment> \<open>the pointer, its identity\<close>
  mtod :: "u8 list"           \<comment> \<open>memory readable from \<open>rte_pktmbuf_mtod\<close>\<close>
  data_len :: u16
  ol_flags :: u64

record 'nic eth_ops =
  rte_eth_tx_burst :: "'nic \<Rightarrow> u8 \<Rightarrow> u8 \<Rightarrow> rte_mbuf list \<Rightarrow> nat \<times> 'nic"
  rte_eth_rx_burst :: "'nic \<Rightarrow> u8 \<Rightarrow> u8 \<Rightarrow> nat \<Rightarrow> rte_mbuf list \<times> 'nic"
  rte_rdtsc :: "'nic \<Rightarrow> u64 \<times> 'nic"
  rte_get_tsc_hz :: u64

text \<open>Bytes of a list of packets, as the 64-bit counters add them up.\<close>

definition pkt_bytes :: "rte_mbuf list \<Rightarrow> u64" where
  "pkt_bytes ms = sum_list (map (\<lambda>m. ucast (data_len m)) ms)"

section \<open>The documented contract\<close>

locale nic_contract =
  fixes ops :: "'nic eth_ops"
    and rx_log :: "'nic \<Rightarrow> rte_mbuf list"
    and tx_log :: "'nic \<Rightarrow> rte_mbuf list"
  assumes tx_bound: "rte_eth_tx_burst ops n p q ms = (k, n') \<Longrightarrow> k \<le> length ms"
    and tx_sent: "rte_eth_tx_burst ops n p q ms = (k, n') \<Longrightarrow> tx_log n' = tx_log n @ take k ms"
    and tx_frame: "rte_eth_tx_burst ops n p q ms = (k, n') \<Longrightarrow> rx_log n' = rx_log n"
    and rx_bound: "rte_eth_rx_burst ops n p q b = (ms, n') \<Longrightarrow> length ms \<le> b"
    and rx_received: "rte_eth_rx_burst ops n p q b = (ms, n') \<Longrightarrow> rx_log n' = rx_log n @ ms"
    and rx_frame: "rte_eth_rx_burst ops n p q b = (ms, n') \<Longrightarrow> tx_log n' = tx_log n"
    and tsc_frame: "rte_rdtsc ops n = (t, n') \<Longrightarrow> rx_log n' = rx_log n \<and> tx_log n' = tx_log n"

text \<open>A device that delivers only packets that satisfy \<open>P\<close>.\<close>

definition delivers :: "(rte_mbuf \<Rightarrow> bool) \<Rightarrow> 'nic eth_ops \<Rightarrow> bool" where
  "delivers P ops \<longleftrightarrow> (\<forall>n p q b. list_all P (fst (rte_eth_rx_burst ops n p q b)))"

lemma delivers_burst: "delivers P ops \<Longrightarrow> rte_eth_rx_burst ops n p q b = (ms, n') \<Longrightarrow> list_all P ms"
  unfolding delivers_def by (metis fst_conv)

lemma delivers_all: "delivers (\<lambda>_. True) ops"
  by (simp add: delivers_def list_all_iff)

section \<open>A scripted device\<close>

text \<open>
  A device that delivers the bursts of a script, takes the number of packets the script says
  and counts time stamps: the instance on which concrete runs are evaluated.
\<close>

record script_nic =
  rx_script :: "rte_mbuf list list"
  tx_script :: "nat list"
  clock :: u64
  received :: "rte_mbuf list"
  sent :: "rte_mbuf list"

definition script_tx :: "script_nic \<Rightarrow> u8 \<Rightarrow> u8 \<Rightarrow> rte_mbuf list \<Rightarrow> nat \<times> script_nic" where
  "script_tx n p q ms =
     (case tx_script n of
        [] \<Rightarrow> (length ms, n\<lparr>sent := sent n @ ms\<rparr>)
      | k # ks \<Rightarrow> (min k (length ms), n\<lparr>tx_script := ks, sent := sent n @ take (min k (length ms)) ms\<rparr>))"

definition script_rx :: "script_nic \<Rightarrow> u8 \<Rightarrow> u8 \<Rightarrow> nat \<Rightarrow> rte_mbuf list \<times> script_nic" where
  "script_rx n p q b =
     (case rx_script n of
        [] \<Rightarrow> ([], n)
      | ms # mss \<Rightarrow>
          (take b ms, n\<lparr>rx_script := mss, received := received n @ take b ms\<rparr>))"

definition script_tsc :: "script_nic \<Rightarrow> u64 \<times> script_nic" where
  "script_tsc n = (clock n, n\<lparr>clock := clock n + 1000000\<rparr>)"

definition script_ops :: "script_nic eth_ops" where
  "script_ops = \<lparr>rte_eth_tx_burst = script_tx, rte_eth_rx_burst = script_rx,
                 rte_rdtsc = script_tsc, rte_get_tsc_hz = 2000000000\<rparr>"

lemmas script_defs = script_ops_def script_tx_def script_rx_def script_tsc_def

interpretation script: nic_contract script_ops received sent
  by unfold_locales (auto simp: script_defs split: list.splits)

section \<open>Facts on byte counts\<close>

lemma pkt_bytes_Nil [simp]: "pkt_bytes [] = 0"
  by (simp add: pkt_bytes_def)

lemma pkt_bytes_Cons [simp]: "pkt_bytes (m # ms) = ucast (data_len m) + pkt_bytes ms"
  by (simp add: pkt_bytes_def)

lemma pkt_bytes_append [simp]: "pkt_bytes (xs @ ys) = pkt_bytes xs + pkt_bytes ys"
  by (induction xs) (simp_all add: add.assoc)

lemma pkt_bytes_split [simp]: "pkt_bytes (take k xs) + pkt_bytes (drop k xs) = pkt_bytes xs"
  by (metis append_take_drop_id pkt_bytes_append)

end
