(* ===== verification/Bridge_State.thy ===== *)
theory Bridge_State
  imports Dpdk_Ethdev
begin

text \<open>
  The data a slave process works on: the per-configuration statistics (\<^verbatim>\<open>include/main.h\<close>),
  the transmit table and the slave configuration (\<^verbatim>\<open>include/bridge.h\<close>), and the state of a
  forwarding loop. A filter engine is a function of its private state, the readable packet
  memory and the packet length; \<^term>\<open>None\<close> is undefined behaviour (a read outside the
  memory, a division by zero, a signed overflow).
\<close>

definition MAX_PKT_BURST :: nat where
  "MAX_PKT_BURST = 64"

definition BURST_TX_DRAIN_US :: u64 where
  "BURST_TX_DRAIN_US = 100"

record bridge_port_statistics =
  tx :: u64
  rx :: u64
  filtered :: u64
  dropped :: u64
  rx_b :: u64
  filtered_b :: u64
  dropped_b :: u64
  pid :: int

record mbuf_table =
  tbl_length :: nat
  mbufs :: "rte_mbuf option list"

record slave_conf_s =
  conf_id :: u8
  port_rx :: u8
  port_tx :: u8
  queue_rx :: u8
  queue_tx :: u8
  mbuf_tx :: mbuf_table

type_synonym 'e engine = "'e \<Rightarrow> u8 list \<Rightarrow> u32 \<Rightarrow> (int \<times> 'e) option"

text \<open>
  The state of a forwarding loop: the static variables of the file, the shared statistics
  array, the device, the private state of the engine and the buffers given back to their
  pool with \<^verbatim>\<open>rte_pktmbuf_free\<close>, in the order of the calls.
\<close>

record ('nic, 'e) bridge_state =
  slave_conf :: slave_conf_s
  main_enabled_port_mask :: u32
  port_nb :: u8
  my_core_id :: nat
  port_statistics :: "bridge_port_statistics list"
  nic :: 'nic
  eng :: 'e
  freed :: "rte_mbuf list"

text \<open>\<open>port_statistics[slave_conf.conf_id]\<close>: reading it and updating it.\<close>

definition my_stats :: "('nic, 'e) bridge_state \<Rightarrow> bridge_port_statistics" where
  "my_stats s = port_statistics s ! unat (conf_id (slave_conf s))"

definition stat_upd ::
  "(bridge_port_statistics \<Rightarrow> bridge_port_statistics) \<Rightarrow>
   ('nic, 'e) bridge_state \<Rightarrow> ('nic, 'e) bridge_state option" where
  "stat_upd f s = do {
     st \<leftarrow> arr_get (port_statistics s) (unat (conf_id (slave_conf s)));
     a \<leftarrow> arr_set (port_statistics s) (unat (conf_id (slave_conf s))) (f st);
     Some (s\<lparr>port_statistics := a\<rparr>)
   }"

definition set_tx_length ::
  "nat \<Rightarrow> ('nic, 'e) bridge_state \<Rightarrow> ('nic, 'e) bridge_state" where
  "set_tx_length n s =
     s\<lparr>slave_conf := (slave_conf s)\<lparr>mbuf_tx := (mbuf_tx (slave_conf s))\<lparr>tbl_length := n\<rparr>\<rparr>\<rparr>"

definition rte_pktmbuf_free ::
  "rte_mbuf \<Rightarrow> ('nic, 'e) bridge_state \<Rightarrow> ('nic, 'e) bridge_state" where
  "rte_pktmbuf_free m s = s\<lparr>freed := freed s @ [m]\<rparr>"

text \<open>The packets waiting in the transmit table.\<close>

definition pending :: "('nic, 'e) bridge_state \<Rightarrow> rte_mbuf list" where
  "pending s = map the (take (tbl_length (mbuf_tx (slave_conf s))) (mbufs (mbuf_tx (slave_conf s))))"

text \<open>
  Well-formed loop state: the transmit table has its declared size and is never full between
  two packets, its first entries are not null, and the statistics array has an entry for the
  configuration of the slave.
\<close>

definition bridge_wf :: "('nic, 'e) bridge_state \<Rightarrow> bool" where
  "bridge_wf s \<longleftrightarrow>
     length (mbufs (mbuf_tx (slave_conf s))) = MAX_PKT_BURST \<and>
     tbl_length (mbuf_tx (slave_conf s)) < MAX_PKT_BURST \<and>
     None \<notin> set (take (tbl_length (mbuf_tx (slave_conf s))) (mbufs (mbuf_tx (slave_conf s)))) \<and>
     unat (conf_id (slave_conf s)) < length (port_statistics s)"

text \<open>The slave's own statistics entry exists, and the state with that entry replaced.\<close>

definition stats_ok :: "('nic, 'e) bridge_state \<Rightarrow> bool" where
  "stats_ok s \<longleftrightarrow> unat (conf_id (slave_conf s)) < length (port_statistics s)"

definition put_stats ::
  "bridge_port_statistics \<Rightarrow> ('nic, 'e) bridge_state \<Rightarrow> ('nic, 'e) bridge_state" where
  "put_stats st s =
     s\<lparr>port_statistics := (port_statistics s)[unat (conf_id (slave_conf s)) := st]\<rparr>"

text \<open>The configuration of the slave, the transmit table apart.\<close>

definition same_conf :: "slave_conf_s \<Rightarrow> slave_conf_s \<Rightarrow> bool" where
  "same_conf c c' \<longleftrightarrow> conf_id c' = conf_id c \<and> port_rx c' = port_rx c \<and> port_tx c' = port_tx c \<and>
     queue_rx c' = queue_rx c \<and> queue_tx c' = queue_tx c"

section \<open>Facts\<close>

lemma same_conf_refl [simp]: "same_conf c c" "same_conf c (c\<lparr>mbuf_tx := t\<rparr>)"
  by (simp_all add: same_conf_def)

lemma same_conf_trans [trans]: "same_conf a b \<Longrightarrow> same_conf b c \<Longrightarrow> same_conf a c"
  by (simp add: same_conf_def)

lemma same_conf_id: "same_conf a b \<Longrightarrow> conf_id b = conf_id a"
  by (simp add: same_conf_def)

lemma stat_upd_Some [simp]: "stats_ok s \<Longrightarrow> stat_upd f s = Some (put_stats (f (my_stats s)) s)"
  by (simp add: stat_upd_def my_stats_def put_stats_def stats_ok_def array_simps)

lemma stat_upd_None: "\<not> stats_ok s \<Longrightarrow> stat_upd f s = None"
  by (simp add: stat_upd_def arr_get_def stats_ok_def)

lemma my_stats_put_stats [simp]: "stats_ok s \<Longrightarrow> my_stats (put_stats st s) = st"
  by (simp add: my_stats_def put_stats_def stats_ok_def)

lemma put_stats_put_stats [simp]: "put_stats st (put_stats st' s) = put_stats st s"
  by (simp add: put_stats_def)

lemma put_stats_my_stats [simp]: "put_stats (my_stats s) s = s"
  by (simp add: my_stats_def put_stats_def)

lemma put_stats_sel [simp]:
  "slave_conf (put_stats st s) = slave_conf s" "nic (put_stats st s) = nic s"
  "eng (put_stats st s) = eng s" "freed (put_stats st s) = freed s"
  "pending (put_stats st s) = pending s" "stats_ok (put_stats st s) = stats_ok s"
  "bridge_wf (put_stats st s) = bridge_wf s"
  "length (port_statistics (put_stats st s)) = length (port_statistics s)"
  by (simp_all add: put_stats_def pending_def stats_ok_def bridge_wf_def)

lemma put_stats_other [simp]:
  "i \<noteq> unat (conf_id (slave_conf s)) \<Longrightarrow>
     port_statistics (put_stats st s) ! i = port_statistics s ! i"
  by (simp add: put_stats_def)

lemma put_stats_nic [simp]: "(put_stats st s)\<lparr>nic := x\<rparr> = put_stats st (s\<lparr>nic := x\<rparr>)"
  by (simp add: put_stats_def)

lemma put_stats_freed [simp]: "(put_stats st s)\<lparr>freed := x\<rparr> = put_stats st (s\<lparr>freed := x\<rparr>)"
  by (simp add: put_stats_def)

lemma put_stats_eng [simp]: "(put_stats st s)\<lparr>eng := x\<rparr> = put_stats st (s\<lparr>eng := x\<rparr>)"
  by (simp add: put_stats_def)

lemma my_stats_upd [simp]:
  "my_stats (s\<lparr>nic := x\<rparr>) = my_stats s" "my_stats (s\<lparr>eng := y\<rparr>) = my_stats s"
  "my_stats (s\<lparr>freed := z\<rparr>) = my_stats s"
  by (simp_all add: my_stats_def)

lemma stats_ok_upd [simp]:
  "stats_ok (s\<lparr>nic := x\<rparr>) = stats_ok s" "stats_ok (s\<lparr>eng := y\<rparr>) = stats_ok s"
  "stats_ok (s\<lparr>freed := z\<rparr>) = stats_ok s"
  by (simp_all add: stats_ok_def)

lemma pending_upd [simp]:
  "pending (s\<lparr>nic := x\<rparr>) = pending s" "pending (s\<lparr>eng := y\<rparr>) = pending s"
  "pending (s\<lparr>freed := z\<rparr>) = pending s"
  by (simp_all add: pending_def)

lemma bridge_wf_upd [simp]:
  "bridge_wf (s\<lparr>nic := x\<rparr>) = bridge_wf s" "bridge_wf (s\<lparr>eng := y\<rparr>) = bridge_wf s"
  "bridge_wf (s\<lparr>freed := z\<rparr>) = bridge_wf s"
  by (simp_all add: bridge_wf_def)

lemma bridge_wf_stats_ok [simp]: "bridge_wf s \<Longrightarrow> stats_ok s"
  by (simp add: bridge_wf_def stats_ok_def)

lemma set_tx_length_sel [simp]:
  "nic (set_tx_length n s) = nic s" "eng (set_tx_length n s) = eng s"
  "freed (set_tx_length n s) = freed s" "my_stats (set_tx_length n s) = my_stats s"
  "port_statistics (set_tx_length n s) = port_statistics s"
  "stats_ok (set_tx_length n s) = stats_ok s"
  "slave_conf (set_tx_length n s) =
     (slave_conf s)\<lparr>mbuf_tx := (mbuf_tx (slave_conf s))\<lparr>tbl_length := n\<rparr>\<rparr>"
  by (simp_all add: set_tx_length_def my_stats_def stats_ok_def)

lemma pending_set_tx_length_0 [simp]: "pending (set_tx_length 0 s) = []"
  by (simp add: pending_def)

lemma map_Some_the: "None \<notin> set xs \<Longrightarrow> map Some (map the xs) = xs"
  by (induction xs) auto

lemma those_map_the: "None \<notin> set xs \<Longrightarrow> those xs = Some (map the xs)"
  by (metis map_Some_the those_map_Some)

end
