(* ===== verification/System_State.thy ===== *)
theory System_State
  imports Bridge_State
begin

text \<open>
  The global variables of the master and of the slaves (\<^verbatim>\<open>include/main.h\<close> and the static
  variables of \<^verbatim>\<open>src/flib.c\<close>), and the services of DPDK and of the operating system that
  work on them. The arrays of the program have the length \<^verbatim>\<open>RTE_MAX_LCORE\<close>, a constant of
  the DPDK configuration. \<open>lcore_resource\<close>, \<open>proc_config\<close> and \<open>main_information\<close> are ordinary
  global variables: a forked slave works on a copy of them. \<open>port_statistics\<close>, \<open>mapping_id\<close>,
  \<open>lcore_cfg\<close>, \<open>core_cfg\<close>, the message buffers and the rings are shared by all processes.
\<close>

section \<open>Constants\<close>

definition IPC_NB_MSGBUF :: nat where "IPC_NB_MSGBUF = 64"
definition IPC_MSG_SIZE :: nat where "IPC_MSG_SIZE = 128"
definition SLAVE_RING_MAX_NAME_LEN :: nat where "SLAVE_RING_MAX_NAME_LEN = 32"
definition RING_MASTER_NAME :: string where "RING_MASTER_NAME = ''bridge_m2s_''"
definition RING_SLAVE_NAME :: string where "RING_SLAVE_NAME = ''bridge_s2m_''"
definition SLAVE_RECREATE_FLAG :: int where "SLAVE_RECREATE_FLAG = 1"
definition SLAVE_DONT_RECREATE_FLAG :: int where "SLAVE_DONT_RECREATE_FLAG = 2"
definition INVALID_MAPPING_ID :: nat where "INVALID_MAPPING_ID = 2 ^ 32 - 1"
definition ENOENT :: int where "ENOENT = 2"
definition EFAULT :: int where "EFAULT = 14"

section \<open>Data\<close>

datatype bridge_cmd = START | STOP | PING | PROC | CFG

record bridge_msg_s =
  cmd :: bridge_cmd
  msg :: string

type_synonym ring_ptr = nat
type_synonym msg_ptr = nat

record lcore_resource_s =
  lr_enabled :: int
  lr_flags :: int
  lr_config_id :: nat
  lr_lcore_id :: nat
  lr_pair_id :: nat
  lr_ring_name :: "string list"
  lr_ring :: "ring_ptr option list"

record proc_config_s =
  pc_enabled :: int
  pc_used :: int
  pc_port_rx :: u8
  pc_port_tx :: u8
  pc_queue_rx :: u8
  pc_queue_tx :: u8
  pc_engine :: string
  pc_args :: string
  pc_lcore_id :: u16

record main_information_s =
  mi_port_nb :: u8
  mi_port_nb_enabled :: u8
  mi_port_mask :: u32
  float_proc :: int
  proc_config_nb :: int
  proc_config_used_nb :: int
  config_file_name :: string
  mi_fdir :: int
  fdir_file_name :: string
  main_id :: nat

datatype fn_ptr = fn_bridge_launch_one_lcore | fn_slave_exit_cb

record lcore_stat =
  ls_pid :: int
  ls_f :: "fn_ptr option"
  ls_arg :: nat
  ls_cb_fn :: "fn_ptr option"

record 'd sys =
  lcore_resource :: "lcore_resource_s list"
  proc_config :: "proc_config_s list"
  main_information :: main_information_s
  sys_statistics :: "bridge_port_statistics list"
  mapping_id :: "nat list"
  lcore_cfg :: "nat list"
  core_cfg :: "lcore_stat list"
  msg_mem :: "msg_ptr \<Rightarrow> bridge_msg_s"
  dpdk :: 'd

text \<open>
  The view of a process: its own copies of the private variables, the shared memory as another
  process left it.
\<close>

definition switch_process :: "'d sys \<Rightarrow> 'd sys \<Rightarrow> 'd sys" where
  "switch_process own other =
     other\<lparr>lcore_resource := lcore_resource own, proc_config := proc_config own,
           main_information := main_information own\<rparr>"

section \<open>Services\<close>

text \<open>The configuration of the environment abstraction layer.\<close>

record eal =
  RTE_MAX_LCORE :: nat
  rte_lcore_is_enabled :: "nat \<Rightarrow> bool"
  rte_get_master_lcore :: nat

text \<open>
  Pools, rings, locks and launching, as functions of the abstract state \<open>'d\<close>; a get or dequeue
  yields the pointer on success.
\<close>

record 'd dpdk_ops =
  rte_mempool_get :: "'d \<Rightarrow> msg_ptr option \<times> 'd"
  rte_mempool_put :: "'d \<Rightarrow> msg_ptr \<Rightarrow> 'd"
  rte_ring_enqueue :: "'d \<Rightarrow> ring_ptr \<Rightarrow> msg_ptr \<Rightarrow> int \<times> 'd"
  rte_ring_dequeue :: "'d \<Rightarrow> ring_ptr \<Rightarrow> msg_ptr option \<times> 'd"
  rte_ring_lookup :: "'d \<Rightarrow> string \<Rightarrow> ring_ptr option"
  rte_ring_create :: "'d \<Rightarrow> string \<Rightarrow> nat \<Rightarrow> ring_ptr option \<times> 'd"
  rte_eal_wait_lcore :: "'d \<Rightarrow> nat \<Rightarrow> 'd"
  rte_eal_remote_launch :: "'d \<Rightarrow> nat \<Rightarrow> int \<times> 'd"
  rte_eal_mp_remote_launch :: "'d \<Rightarrow> int \<times> 'd"

text \<open>Writing one entry of the resource table.\<close>

definition set_lcore_res :: "nat \<Rightarrow> lcore_resource_s \<Rightarrow> 'd sys \<Rightarrow> 'd sys option" where
  "set_lcore_res i r s = do {
     a \<leftarrow> arr_set (lcore_resource s) i r;
     Some (s\<lparr>lcore_resource := a\<rparr>)
   }"

text \<open>
  A well-formed state: every table that is indexed by a core number has \<^verbatim>\<open>RTE_MAX_LCORE\<close>
  entries, and every resource has its two ring names and two ring pointers.
\<close>

definition sys_wf :: "eal \<Rightarrow> 'd sys \<Rightarrow> bool" where
  "sys_wf e s \<longleftrightarrow>
     length (lcore_resource s) = RTE_MAX_LCORE e \<and> length (proc_config s) = RTE_MAX_LCORE e \<and>
     length (mapping_id s) = RTE_MAX_LCORE e \<and> length (lcore_cfg s) = RTE_MAX_LCORE e \<and>
     length (core_cfg s) = RTE_MAX_LCORE e \<and>
     (\<forall>r\<in>set (lcore_resource s). length (lr_ring r) = 2 \<and> length (lr_ring_name r) = 2)"

lemma sys_wf_dpdk [simp]: "sys_wf e (s\<lparr>dpdk := d\<rparr>) = sys_wf e s"
  and sys_wf_msg_mem [simp]: "sys_wf e (s\<lparr>msg_mem := m\<rparr>) = sys_wf e s"
  by (simp_all add: sys_wf_def)

lemma sys_wf_ring:
  assumes "sys_wf e s" "i < RTE_MAX_LCORE e"
  shows "length (lr_ring (lcore_resource s ! i)) = 2"
  using assms by (simp add: sys_wf_def)

end
