(* ===== verification/C_Library.thy ===== *)
theory C_Library
  imports Ddos_Prelude "HOL-Library.Signed_Division"
begin

text \<open>
  The functions of the C standard library that the program calls on strings, on the strings
  up to their terminating null character: white space, \<^verbatim>\<open>strtol\<close>/\<^verbatim>\<open>strtoul\<close>
  with their end pointer and their saturation, \<^verbatim>\<open>atoi\<close>, and the decimal conversion of
  \<^verbatim>\<open>printf\<close>. The main fact is the round trip of a number through its decimal text.
\<close>

section \<open>Definitions\<close>

definition INT_MAX :: int where "INT_MAX = 2 ^ 31 - 1"
definition LONG_MAX :: int where "LONG_MAX = 2 ^ 63 - 1"
definition LONG_MIN :: int where "LONG_MIN = - (2 ^ 63)"
definition ULONG_MAX :: int where "ULONG_MAX = 2 ^ 64 - 1"

text \<open>Conversion of a wider integer to \<^verbatim>\<open>int\<close>.\<close>

definition to_int :: "int \<Rightarrow> int" where
  "to_int v = signed_take_bit 31 v"

definition isspace :: "char \<Rightarrow> bool" where
  "isspace c = (let n = of_char c :: nat in n = 32 \<or> (9 \<le> n \<and> n \<le> 13))"

text \<open>The value of a digit in a base up to 16.\<close>

definition digit_val :: "nat \<Rightarrow> char \<Rightarrow> nat option" where
  "digit_val base c =
     (let n = of_char c;
          v = (if 48 \<le> n \<and> n \<le> 57 then Some (n - 48)
               else if 97 \<le> n \<and> n \<le> 102 then Some (n - 87)
               else if 65 \<le> n \<and> n \<le> 70 then Some (n - 55)
               else None)
      in case v of None \<Rightarrow> None | Some d \<Rightarrow> if d < base then Some d else None)"

fun scan_digits :: "nat \<Rightarrow> nat \<Rightarrow> string \<Rightarrow> nat \<times> string" where
  "scan_digits base acc [] = (acc, [])"
| "scan_digits base acc (c # cs) =
     (case digit_val base c of
        None \<Rightarrow> (acc, c # cs)
      | Some d \<Rightarrow> scan_digits base (acc * base + d) cs)"

definition scan_sign :: "string \<Rightarrow> bool \<times> string" where
  "scan_sign s = (case s of
       c # cs \<Rightarrow> if c = CHR ''-'' then (True, cs) else if c = CHR ''+'' then (False, cs) else (False, s)
     | [] \<Rightarrow> (False, s))"

text \<open>In base 16 a prefix \<open>0x\<close> is skipped when a hexadecimal digit follows it.\<close>

definition skip_0x :: "nat \<Rightarrow> string \<Rightarrow> string" where
  "skip_0x base s = (case s of
       z # x # d # cs \<Rightarrow>
         if base = 16 \<and> z = CHR ''0'' \<and> (x = CHR ''x'' \<or> x = CHR ''X'') \<and> digit_val 16 d \<noteq> None
         then d # cs else s
     | _ \<Rightarrow> s)"

text \<open>The signed value and the unread rest; with no digit the rest is the whole string.\<close>

definition scan_number :: "nat \<Rightarrow> string \<Rightarrow> int \<times> string" where
  "scan_number base s =
     (let (neg, t) = scan_sign (dropWhile isspace s);
          u = skip_0x base t;
          (v, rest) = scan_digits base 0 u
      in if rest = u then (0, s) else (if neg then - int v else int v, rest))"

definition strtol :: "nat \<Rightarrow> string \<Rightarrow> int \<times> string" where
  "strtol base s =
     (let (v, rest) = scan_number base s in (max LONG_MIN (min LONG_MAX v), rest))"

text \<open>A negative input is negated as an unsigned number, unless it is out of range.\<close>

definition strtoul :: "nat \<Rightarrow> string \<Rightarrow> int \<times> string" where
  "strtoul base s =
     (let (v, rest) = scan_number base s
      in (if \<bar>v\<bar> > ULONG_MAX then ULONG_MAX else v mod 2 ^ 64, rest))"

definition atoi :: "string \<Rightarrow> int" where
  "atoi s = to_int (fst (strtol 10 s))"

definition digit_char :: "nat \<Rightarrow> char" where
  "digit_char d = char_of (48 + d)"

fun show_nat :: "nat \<Rightarrow> string" where
  "show_nat n = (if n < 10 then [digit_char n] else show_nat (n div 10) @ [digit_char (n mod 10)])"

declare show_nat.simps [simp del]

text \<open>\<open>snprintf(buf, size, "%d", n)\<close> for a number that is not negative: the text stored.\<close>

definition snprintf_d :: "nat \<Rightarrow> nat \<Rightarrow> string" where
  "snprintf_d bound n = take (bound - 1) (show_nat n)"

text \<open>
  Reading from an open file, whose unread part is a string. \<open>fgets(buf, size, fp)\<close> stops after
  a newline or \<open>size - 1\<close> characters and gives null at the end of the file; \<open>fgetc\<close> stored
  in a \<^verbatim>\<open>char\<close> turns the end of the file into the character 255.
\<close>

fun read_line :: "nat \<Rightarrow> string \<Rightarrow> string \<times> string" where
  "read_line 0 s = ([], s)"
| "read_line (Suc n) [] = ([], [])"
| "read_line (Suc n) (c # s) =
     (if c = CHR 0x0A then ([c], s) else let (l, r) = read_line n s in (c # l, r))"

definition fgets :: "nat \<Rightarrow> string \<Rightarrow> (string \<times> string) option" where
  "fgets bound s = (let (l, r) = read_line (bound - 1) s in if l = [] then None else Some (l, r))"

text \<open>
  \<open>getline\<close>: the line with its newline, or nothing at the end of the file. The GNU library
  allocates 120 bytes at first and at least doubles the buffer when a line with its terminating
  null character does not fit.
\<close>

definition getline :: "string \<Rightarrow> (string \<times> string) option" where
  "getline s = (case read_line (length s) s of (l, r) \<Rightarrow> if l = [] then None else Some (l, r))"

definition getline_alloc :: "nat \<Rightarrow> nat \<Rightarrow> nat" where
  "getline_alloc n needed =
     (let n = (if n = 0 then 120 else n) in if needed \<le> n then n else max needed (2 * n))"

definition fgetc_char :: "string \<Rightarrow> char \<times> string" where
  "fgetc_char s = (case s of [] \<Rightarrow> (CHR 0xFF, []) | c # r \<Rightarrow> (c, r))"

text \<open>The part of a buffer that a string function sees.\<close>

definition c_str :: "string \<Rightarrow> string" where
  "c_str s = takeWhile (\<lambda>c. c \<noteq> CHR 0x00) s"

text \<open>\<open>sscanf(s, "%d", &v)\<close>: the result and the number stored, if one was.\<close>

definition sscanf_d :: "string \<Rightarrow> int \<times> int option" where
  "sscanf_d s =
     (if dropWhile isspace s = [] then (- 1, None)
      else if snd (scan_number 10 s) = s then (0, None)
      else (1, Some (to_int (fst (strtol 10 s)))))"

text \<open>\<open>sscanf(s, "%lu", &v)\<close>\<close>

definition sscanf_lu :: "string \<Rightarrow> int \<times> u64 option" where
  "sscanf_lu s =
     (if dropWhile isspace s = [] then (- 1, None)
      else if snd (scan_number 10 s) = s then (0, None)
      else (1, Some (of_int (fst (strtoul 10 s)))))"

section \<open>Facts\<close>

lemma to_int_small [simp]: "0 \<le> v \<Longrightarrow> v \<le> INT_MAX \<Longrightarrow> to_int v = v"
  by (simp add: to_int_def INT_MAX_def signed_take_bit_int_eq_self)

lemma digit_val_digit_char [simp]: "d < 10 \<Longrightarrow> digit_val 10 (digit_char d) = Some d"
  by (simp add: digit_val_def digit_char_def)

lemma not_isspace_digit_char [simp]: "d < 10 \<Longrightarrow> \<not> isspace (digit_char d)"
  by (simp add: isspace_def digit_char_def)

lemma of_char_digit_char [simp]: "d < 10 \<Longrightarrow> of_char (digit_char d) = 48 + d"
  by (simp add: digit_char_def)

lemma digit_char_not_sign [simp]:
  assumes "d < 10"
  shows "digit_char d \<noteq> CHR ''-''" "digit_char d \<noteq> CHR ''+''"
proof -
  have "of_char (digit_char d) \<noteq> (of_char CHR ''-'' :: nat)"
    "of_char (digit_char d) \<noteq> (of_char CHR ''+'' :: nat)"
    using assms by simp_all
  then show "digit_char d \<noteq> CHR ''-''" "digit_char d \<noteq> CHR ''+''" by metis+
qed

lemma show_nat_nonempty [simp]: "show_nat n \<noteq> []"
  by (subst show_nat.simps) simp

lemma hd_show_nat: "\<exists>d < 10. hd (show_nat n) = digit_char d"
proof (induction n rule: show_nat.induct)
  case (1 n)
  show ?case
  proof (cases "n < 10")
    case True
    then show ?thesis by (subst show_nat.simps) auto
  next
    case False
    with "1.IH" show ?thesis by (subst show_nat.simps) simp
  qed
qed

lemma digits_show_nat: "c \<in> set (show_nat n) \<Longrightarrow> digit_val 10 c \<noteq> None"
proof (induction n rule: show_nat.induct)
  case (1 n)
  then show ?case
    by (cases "n < 10") (auto simp: show_nat.simps [of n])
qed

lemma scan_digits_append:
  "\<forall>c\<in>set xs. digit_val base c \<noteq> None \<Longrightarrow>
     scan_digits base acc (xs @ ys) = scan_digits base (fst (scan_digits base acc xs)) ys"
  by (induction xs arbitrary: acc) (auto split: option.splits)

lemma scan_digits_value:
  "scan_digits 10 acc (show_nat n) = (acc * 10 ^ length (show_nat n) + n, [])"
proof (induction n arbitrary: acc rule: show_nat.induct)
  case (1 n)
  show ?case
  proof (cases "n < 10")
    case True
    then show ?thesis by (simp add: show_nat.simps [of n])
  next
    case False
    then have "show_nat n = show_nat (n div 10) @ [digit_char (n mod 10)]"
      by (simp add: show_nat.simps [of n])
    with "1.IH" [OF False] show ?thesis
      by (simp add: scan_digits_append digits_show_nat algebra_simps)
  qed
qed

lemma scan_digits_show_nat:
  assumes "rest = [] \<or> digit_val 10 (hd rest) = None"
  shows "scan_digits 10 0 (show_nat n @ rest) = (n, rest)"
proof -
  have "scan_digits 10 a rest = (a, rest)" for a
    using assms by (cases rest) auto
  then show ?thesis
    by (simp add: scan_digits_append digits_show_nat scan_digits_value)
qed

text \<open>\<^verbatim>\<open>atoi\<close> reads back the decimal text of a number.\<close>

lemma atoi_show_nat:
  assumes "int n \<le> INT_MAX" "rest = [] \<or> digit_val 10 (hd rest) = None"
  shows "atoi (show_nat n @ rest) = int n"
proof -
  obtain d cs where d: "d < 10" and sh: "show_nat n = digit_char d # cs"
    using hd_show_nat [of n] by (metis list.collapse show_nat_nonempty)
  have drop: "dropWhile isspace (show_nat n @ rest) = show_nat n @ rest"
    using d by (simp add: sh)
  have sign: "scan_sign (show_nat n @ rest) = (False, show_nat n @ rest)"
    using d by (simp add: sh scan_sign_def)
  have skip: "skip_0x 10 u = u" for u
    by (simp add: skip_0x_def split: list.splits)
  have "scan_number 10 (show_nat n @ rest) = (int n, rest)"
    using scan_digits_show_nat [OF assms(2), of n]
    by (simp add: scan_number_def drop sign skip)
  then show ?thesis
    using assms(1) by (simp add: atoi_def strtol_def LONG_MAX_def LONG_MIN_def INT_MAX_def min_def max_def)
qed

lemma length_show_nat: "n < 10 ^ k \<Longrightarrow> 0 < k \<Longrightarrow> length (show_nat n) \<le> k"
proof (induction k arbitrary: n)
  case 0
  then show ?case by simp
next
  case (Suc k)
  show ?case
  proof (cases "n < 10")
    case True
    then show ?thesis by (simp add: show_nat.simps [of n])
  next
    case False
    then have "0 < k" using Suc.prems(1) by (cases k) auto
    moreover have "n div 10 < 10 ^ k" using Suc.prems(1) by (simp add: less_mult_imp_div_less)
    ultimately show ?thesis using Suc.IH [of "n div 10"] False by (simp add: show_nat.simps [of n])
  qed
qed

text \<open>A number of at most nine digits survives \<^verbatim>\<open>snprintf\<close> into ten bytes and \<^verbatim>\<open>atoi\<close>.\<close>

lemma atoi_snprintf_d:
  assumes "n < 10 ^ 9"
  shows "atoi (snprintf_d 10 n) = int n"
proof -
  have "length (show_nat n) \<le> 9" using assms by (intro length_show_nat) simp_all
  then have "snprintf_d 10 n = show_nat n" by (simp add: snprintf_d_def)
  moreover have "int n \<le> INT_MAX" using assms by (simp add: INT_MAX_def)
  ultimately show ?thesis using atoi_show_nat [of n "[]"] by simp
qed

lemma read_line_eq:
  assumes "CHR 0x0A \<notin> set l" "length l < n"
  shows "read_line n (l @ CHR 0x0A # r) = (l @ [CHR 0x0A], r)"
  using assms
proof (induction l arbitrary: n)
  case Nil
  then show ?case by (cases n) auto
next
  case (Cons c l)
  then show ?case by (cases n) auto
qed

lemma newline_no_digit [simp]: "digit_val 10 (CHR 0x0A) = None"
  by (simp add: digit_val_def)

lemma newline_notin_show_nat [simp]: "CHR 0x0A \<notin> set (show_nat n)"
  using digits_show_nat [of "CHR 0x0A" n] by auto

lemma null_notin_show_nat [simp]: "CHR 0x00 \<notin> set (show_nat n)"
  using digits_show_nat [of "CHR 0x00" n] by (auto simp: digit_val_def)

lemma scan_number_show_nat:
  assumes "rest = [] \<or> digit_val 10 (hd rest) = None"
  shows "scan_number 10 (show_nat n @ rest) = (int n, rest)"
proof -
  obtain d cs where d: "d < 10" and sh: "show_nat n = digit_char d # cs"
    using hd_show_nat [of n] by (metis show_nat_nonempty list.collapse)
  have "dropWhile isspace (show_nat n @ rest) = show_nat n @ rest"
    using d sh by simp
  moreover have "scan_sign (show_nat n @ rest) = (False, show_nat n @ rest)"
    using d sh by (simp add: scan_sign_def)
  moreover have "skip_0x 10 (show_nat n @ rest) = show_nat n @ rest"
    by (simp add: skip_0x_def split: list.splits)
  moreover have "rest \<noteq> show_nat n @ rest" by simp
  ultimately show ?thesis
    using scan_digits_show_nat [OF assms] by (simp add: scan_number_def)
qed

text \<open>A line with a decimal number is read back by \<open>fgets\<close> and \<open>sscanf\<close>.\<close>

lemma read_line_rest: "read_line n s = (l, r) \<Longrightarrow> l @ r = s"
  by (induction n s arbitrary: l r rule: read_line.induct) (auto split: if_splits prod.splits)

lemma getline_shorter: "getline s = Some (l, r) \<Longrightarrow> length r < length s"
  using read_line_rest [of "length s" s l r] by (auto simp: getline_def split: prod.splits if_splits)

lemma getline_line:
  assumes "CHR 0x0A \<notin> set l"
  shows "getline (l @ CHR 0x0A # r) = Some (l @ [CHR 0x0A], r)"
  using read_line_eq [of l "length (l @ CHR 0x0A # r)" r] assms by (simp add: getline_def)

lemma getline_empty [simp]: "getline [] = None"
  by (simp add: getline_def)

lemma c_str_show_nat_line: "c_str (show_nat n @ [CHR 0x0A]) = show_nat n @ [CHR 0x0A]"
  unfolding c_str_def by (rule takeWhile_eq_all_conv [THEN iffD2]) (auto dest: null_notin_show_nat [THEN notE])

lemma sscanf_show_nat_line:
  assumes "int n \<le> INT_MAX"
  shows "sscanf_d (c_str (show_nat n @ [CHR 0x0A])) = (1, Some (int n))"
proof -
  obtain d cs where d: "d < 10" and sh: "show_nat n = digit_char d # cs"
    using hd_show_nat [of n] by (metis show_nat_nonempty list.collapse)
  have c: "c_str (show_nat n @ [CHR 0x0A]) = show_nat n @ [CHR 0x0A]"
    by (rule c_str_show_nat_line)
  have sn: "scan_number 10 (show_nat n @ [CHR 0x0A]) = (int n, [CHR 0x0A])"
    by (rule scan_number_show_nat) simp
  have "dropWhile isspace (show_nat n @ [CHR 0x0A]) \<noteq> []" using d sh by simp
  moreover have "[CHR 0x0A] \<noteq> show_nat n @ [CHR 0x0A]" by simp
  moreover have "LONG_MIN \<le> int n" "int n \<le> LONG_MAX"
    using assms by (simp_all add: LONG_MIN_def LONG_MAX_def INT_MAX_def)
  ultimately show ?thesis
    using sn assms unfolding c by (simp add: sscanf_d_def strtol_def)
qed

lemma sscanf_lu_show_nat_line:
  assumes "n < 2 ^ 64"
  shows "sscanf_lu (c_str (show_nat n @ [CHR 0x0A])) = (1, Some (of_nat n))"
proof -
  obtain d cs where d: "d < 10" and sh: "show_nat n = digit_char d # cs"
    using hd_show_nat [of n] by (metis show_nat_nonempty list.collapse)
  have c: "c_str (show_nat n @ [CHR 0x0A]) = show_nat n @ [CHR 0x0A]"
    by (rule c_str_show_nat_line)
  have sn: "scan_number 10 (show_nat n @ [CHR 0x0A]) = (int n, [CHR 0x0A])"
    by (rule scan_number_show_nat) simp
  have "dropWhile isspace (show_nat n @ [CHR 0x0A]) \<noteq> []" using d sh by simp
  moreover have "[CHR 0x0A] \<noteq> show_nat n @ [CHR 0x0A]" by simp
  moreover have "\<not> int n > ULONG_MAX" "int n mod 2 ^ 64 = int n"
    using assms by (simp_all add: ULONG_MAX_def)
  ultimately show ?thesis
    using sn unfolding c by (simp add: sscanf_lu_def strtoul_def)
qed

lemma fgets_show_nat_line:
  assumes "n < 10 ^ 9" "11 \<le> bound"
  shows "fgets bound (show_nat n @ CHR 0x0A # r) = Some (show_nat n @ [CHR 0x0A], r)"
proof -
  have "length (show_nat n) \<le> 9" using assms(1) by (intro length_show_nat) simp_all
  then show ?thesis
    using read_line_eq [of "show_nat n" "bound - 1" r] assms(2) by (simp add: fgets_def)
qed

end
