(* ===== verification/Parser.thy ===== *)
theory Parser
  imports System_State C_Library
begin

text \<open>
  The command line and the configuration file of the processes (\<^verbatim>\<open>src/parser.c\<close>). The results
  of the calls of \<open>getopt_long\<close> are an argument: the option, the index of a long option and the
  option's argument. The main fact is the round trip of a configuration file.
\<close>

unbundle bit_operations_syntax

section \<open>State\<close>

record port_queue_conf_s =
  queue_rx_nb :: u16
  queue_tx_nb :: u16
  default_txq_flags :: u32

text \<open>The variables of the master beside those it shares with the slaves.\<close>

record 'd master =
  common :: "'d sys"
  port_queue_conf :: "port_queue_conf_s list"
  timer_file :: string
  timer_period :: int
  timer_stats :: int

definition MAX_FILE_NAME :: nat where "MAX_FILE_NAME = 128"
definition CONFIG_MAX_ENGINE_LEN :: nat where "CONFIG_MAX_ENGINE_LEN = 64"
definition ARGS_LEN :: nat where "ARGS_LEN = 128"
definition TIMER_MILLISECOND :: int where "TIMER_MILLISECOND = 2660046"
definition MAX_TIMER_PERIOD :: int where "MAX_TIMER_PERIOD = 86400"

section \<open>The configuration file\<close>

text \<open>\<open>%d\<close> and \<open>%s\<close> of \<open>sscanf\<close>: the value and the unread rest.\<close>

definition scan_d :: "string \<Rightarrow> (int \<times> string) option" where
  "scan_d s = (case scan_number 10 s of (v, rest) \<Rightarrow>
     if rest = s then None else Some (to_int (max LONG_MIN (min LONG_MAX v)), rest))"

definition scan_s :: "string \<Rightarrow> (string \<times> string) option" where
  "scan_s s = (let t = dropWhile isspace s
     in if t = [] then None
        else Some (takeWhile (\<lambda>c. \<not> isspace c) t, dropWhile (\<lambda>c. \<not> isspace c) t))"

record config_line =
  cl_config_id :: int
  cl_pRx :: u32
  cl_pTx :: u32
  cl_qRx :: u32
  cl_qTx :: u32
  cl_engine :: string
  cl_args :: string

text \<open>The call of \<open>sscanf\<close>; \<^term>\<open>None\<close> stands for fewer than six conversions.\<close>

definition sscanf_config :: "string \<Rightarrow> config_line option" where
  "sscanf_config line = do {
     (config_id, s) \<leftarrow> scan_d line;
     (pRx, s) \<leftarrow> scan_d s;
     (pTx, s) \<leftarrow> scan_d s;
     (qRx, s) \<leftarrow> scan_d s;
     (qTx, s) \<leftarrow> scan_d s;
     (engine, s) \<leftarrow> scan_s s;
     Some \<lparr>cl_config_id = config_id, cl_pRx = of_int pRx, cl_pTx = of_int pTx, cl_qRx = of_int qRx,
       cl_qTx = of_int qTx, cl_engine = engine,
       cl_args = (case scan_s s of None \<Rightarrow> [] | Some (args, _) \<Rightarrow> args)\<rparr>
   }"

text \<open>\<open>1 << n\<close> on a 32-bit \<^verbatim>\<open>int\<close>, undefined when the result is not representable.\<close>

definition shift1 :: "u32 \<Rightarrow> u32 option" where
  "shift1 n = (if unat n < 31 then Some (push_bit (unat n) 1) else None)"

definition zero_config :: proc_config_s where
  "zero_config = \<lparr>pc_enabled = 0, pc_used = 0, pc_port_rx = 0, pc_port_tx = 0, pc_queue_rx = 0,
     pc_queue_tx = 0, pc_engine = [], pc_args = [], pc_lcore_id = 0\<rparr>"

text \<open>An entry of \<open>proc_config\<close> is set; \<open>Inl\<close> is the error return.\<close>

definition set_config :: "config_line \<Rightarrow> 'd master \<Rightarrow> (int + 'd master) option" where
  "set_config c m = do {
     (if cl_config_id c < 0 then None else Some ());
     let i = nat (cl_config_id c);
     proc_config_t \<leftarrow> arr_get (proc_config (common m)) i;
     if pc_enabled proc_config_t = 0 then do {
       let proc_config_t = proc_config_t\<lparr>pc_enabled := 1, pc_port_tx := ucast (cl_pTx c),
         pc_port_rx := ucast (cl_pRx c), pc_queue_tx := ucast (cl_qTx c), pc_queue_rx := ucast (cl_qRx c),
         pc_engine := cl_engine c, pc_args := cl_args c\<rparr>;
       let m = m\<lparr>common := (common m)\<lparr>proc_config := (proc_config (common m))[i := proc_config_t]\<rparr>\<rparr>;
       port_qconf \<leftarrow> arr_get (port_queue_conf m) (unat (cl_pTx c));
       let m = m\<lparr>port_queue_conf := (port_queue_conf m)[unat (cl_pTx c) :=
         port_qconf\<lparr>queue_tx_nb := queue_tx_nb port_qconf + 1\<rparr>]\<rparr>;
       port_qconf \<leftarrow> arr_get (port_queue_conf m) (unat (cl_pRx c));
       Some (Inr (m\<lparr>port_queue_conf := (port_queue_conf m)[unat (cl_pRx c) :=
         port_qconf\<lparr>queue_rx_nb := queue_rx_nb port_qconf + 1\<rparr>]\<rparr>))
     }
     else Some (Inl (- 1))
   }"

text \<open>
  One line: the error return, or the state and whether a configuration was counted. A word too
  long for the buffers of \<open>sscanf\<close> is undefined behaviour.
\<close>

definition parse_line :: "nat \<Rightarrow> string \<Rightarrow> 'd master \<Rightarrow> (int + (bool \<times> 'd master)) option" where
  "parse_line len line m =
     (if len > IPC_MSG_SIZE - 1 then Some (Inl (- 1))
      else case sscanf_config (c_str line) of
        None \<Rightarrow> Some (Inl (- 1))
      | Some c \<Rightarrow>
          if length (cl_engine c) \<ge> CONFIG_MAX_ENGINE_LEN \<or> length (cl_args c) \<ge> ARGS_LEN then None
          else do {
            bRx \<leftarrow> shift1 (cl_pRx c);
            bTx \<leftarrow> shift1 (cl_pTx c);
            let mask = mi_port_mask (main_information (common m));
            if mask AND bRx = 0 \<or> mask AND bTx = 0 then Some (Inr (False, m))
            else do {
              r \<leftarrow> set_config c m;
              case r of Inl e \<Rightarrow> Some (Inl e) | Inr m \<Rightarrow> Some (Inr (True, m))
            }
          })"

function parse_lines :: "nat \<Rightarrow> string \<Rightarrow> int \<Rightarrow> 'd master \<Rightarrow> (int \<times> 'd master) option" where
  "parse_lines len fp nb m =
     (case getline fp of
        None \<Rightarrow> Some (0, m\<lparr>common := (common m)\<lparr>main_information :=
          (main_information (common m))\<lparr>proc_config_nb := nb\<rparr>\<rparr>\<rparr>)
      | Some (line, fp) \<Rightarrow>
          let len = getline_alloc len (length line + 1)
          in do {
            r \<leftarrow> parse_line len line m;
            case r of
              Inl e \<Rightarrow> Some (e, m)
            | Inr (counted, m) \<Rightarrow> parse_lines len fp (if counted then nb + 1 else nb) m
          })"
  by pat_completeness auto
termination
  by (relation "measure (\<lambda>(len, fp, nb, m). length fp)") (auto dest!: getline_shorter)

function skip_lines :: "int \<Rightarrow> nat \<Rightarrow> string \<Rightarrow> (nat \<times> string) option" where
  "skip_lines lines_nb len fp =
     (if lines_nb = 0 then Some (len, fp)
      else case getline fp of
        None \<Rightarrow> None
      | Some (line, fp) \<Rightarrow> skip_lines (lines_nb - 1) (getline_alloc len (length line + 1)) fp)"
  by pat_completeness auto
termination
  by (relation "measure (\<lambda>(n, len, fp). length fp)") (auto dest!: getline_shorter)

declare parse_lines.simps [simp del] skip_lines.simps [simp del]

text \<open>A first line that is no number leaves \<open>lines_nb\<close> uninitialised.\<close>

definition parse_configfile ::
  "(string \<Rightarrow> string option) \<Rightarrow> string \<Rightarrow> 'd master \<Rightarrow> (int \<times> 'd master) option" where
  "parse_configfile fopen file_path m =
     (let m = m\<lparr>common := (common m)\<lparr>proc_config :=
        replicate (length (proc_config (common m))) zero_config\<rparr>\<rparr>
      in case fopen file_path of
        None \<Rightarrow> Some (- 1, m)
      | Some fp \<Rightarrow>
     (case fgets 29 fp of
        None \<Rightarrow> Some (- 1, m)
      | Some (buff, _) \<Rightarrow>
     (case sscanf_d (c_str buff) of (n, lines_nb) \<Rightarrow>
        if n = - 1 then Some (- 1, m)
        else do {
          lines_nb \<leftarrow> lines_nb;
          if lines_nb > 200 then Some (- 1, m)
          else case skip_lines lines_nb 0 fp of
            None \<Rightarrow> Some (- 1, m)
          | Some (len, fp) \<Rightarrow> parse_lines len fp 0 m
        })))"

section \<open>The command line\<close>

definition parse_portmask :: "string \<Rightarrow> int" where
  "parse_portmask portmask =
     (let (pm, end) = strtoul 16 portmask
      in if portmask = [] \<or> end \<noteq> [] then - 1
         else if pm = 0 then - 1
         else to_int pm)"

definition parse_timer_period :: "string \<Rightarrow> int" where
  "parse_timer_period q_arg =
     (let (v, end) = strtol 10 q_arg; n = to_int v
      in if q_arg = [] \<or> end \<noteq> [] then - 1
         else if n \<ge> MAX_TIMER_PERIOD then - 1
         else n)"

text \<open>Assignment of an unsigned 64-bit product to an \<^verbatim>\<open>int64_t\<close>.\<close>

definition to_int64 :: "int \<Rightarrow> int" where
  "to_int64 v = signed_take_bit 63 v"

definition PARAM_CONF_MASTER :: nat where "PARAM_CONF_MASTER = 0"
definition PARAM_CONF_FDIR :: nat where "PARAM_CONF_FDIR = 1"
definition PARAM_HELP :: nat where "PARAM_HELP = 2"
definition PARAM_STATS_FILE :: nat where "PARAM_STATS_FILE = 3"
definition PARAM_STATS_TIMER :: nat where "PARAM_STATS_TIMER = 4"

text \<open>A result of \<open>getopt_long\<close>; long options by their index in \<open>options_long\<close>.\<close>

datatype option_result = Opt_p string | Opt_T string | Opt_long nat string | Opt_unknown

definition set_main :: "(main_information_s \<Rightarrow> main_information_s) \<Rightarrow> 'd master \<Rightarrow> 'd master" where
  "set_main f m = m\<lparr>common := (common m)\<lparr>main_information := f (main_information (common m))\<rparr>\<rparr>"

definition INT_ok :: "int \<Rightarrow> unit option" where
  "INT_ok v = (if - INT_MAX - 1 \<le> v \<and> v \<le> INT_MAX then Some () else None)"

text \<open>One option: the end of the process or an error return, or the next state.\<close>

definition parse_option ::
  "(string \<Rightarrow> string option) \<Rightarrow> option_result \<Rightarrow> 'd master \<Rightarrow> (int proc_outcome option \<times> 'd master) option" where
  "parse_option fopen opt m = (case opt of
       Opt_p optarg \<Rightarrow>
         let m = set_main (\<lambda>i. i\<lparr>mi_port_mask := of_int (parse_portmask optarg)\<rparr>) m
         in if mi_port_mask (main_information (common m)) = 0 then Some (Some (Return (- 1)), m)
            else Some (None, m)
     | Opt_T optarg \<Rightarrow> do {
         INT_ok (parse_timer_period optarg * 1000);
         let m = m\<lparr>timer_period := to_int64 (parse_timer_period optarg * 1000 * TIMER_MILLISECOND)\<rparr>;
         if timer_period m < 0 then Some (Some (Return (- 1)), m) else Some (None, m)
       }
     | Opt_long i optarg \<Rightarrow>
         if i = PARAM_CONF_MASTER then do {
           let m = set_main (\<lambda>i. i\<lparr>config_file_name := take MAX_FILE_NAME optarg\<rparr>) m;
           (_, m) \<leftarrow> parse_configfile fopen optarg m;
           Some (None, m)
         }
         else if i = PARAM_CONF_FDIR then
           Some (None, set_main (\<lambda>i. i\<lparr>fdir_file_name := take MAX_FILE_NAME optarg, mi_fdir := 1\<rparr>) m)
         else if i = PARAM_HELP then Some (Some (Exit 0), m)
         else if i = PARAM_STATS_FILE then Some (None, m\<lparr>timer_file := take MAX_FILE_NAME optarg\<rparr>)
         else if i = PARAM_STATS_TIMER then
           let m = m\<lparr>timer_stats := to_int64 (parse_timer_period optarg * TIMER_MILLISECOND)\<rparr>
           in if timer_stats m < 0 then Some (Some (Return (- 1)), m) else Some (None, m)
         else Some (None, m)
     | Opt_unknown \<Rightarrow> Some (Some (Return (- 1)), m))"

fun parse_args ::
  "(string \<Rightarrow> string option) \<Rightarrow> option_result list \<Rightarrow> int \<Rightarrow> 'd master \<Rightarrow> (int proc_outcome \<times> 'd master) option" where
  "parse_args fopen [] optind m = Some (Return (optind - 1), m)"
| "parse_args fopen (opt # opts) optind m = do {
     (r, m) \<leftarrow> parse_option fopen opt m;
     case r of
       Some r \<Rightarrow> Some (r, m)
     | None \<Rightarrow> parse_args fopen opts optind m
   }"

section \<open>The text of a configuration\<close>

abbreviation tab :: char where "tab \<equiv> CHR 0x09"
abbreviation newline :: char where "newline \<equiv> CHR 0x0A"

definition show_config :: "config_line \<Rightarrow> string" where
  "show_config c = show_nat (nat (cl_config_id c)) @ tab # show_nat (unat (cl_pRx c)) @
     tab # show_nat (unat (cl_pTx c)) @ tab # show_nat (unat (cl_qRx c)) @
     tab # show_nat (unat (cl_qTx c)) @ tab # cl_engine c @ tab # cl_args c"

definition word_ok :: "string \<Rightarrow> bool" where
  "word_ok w \<longleftrightarrow> (\<forall>c\<in>set w. \<not> isspace c \<and> c \<noteq> CHR 0x00)"

text \<open>Lines that the parser can read: they fit its buffers.\<close>

definition config_ok :: "config_line \<Rightarrow> bool" where
  "config_ok c \<longleftrightarrow> 0 \<le> cl_config_id c \<and> cl_config_id c \<le> INT_MAX \<and>
     unat (cl_pRx c) < 31 \<and> unat (cl_pTx c) < 31 \<and>
     int (unat (cl_qRx c)) \<le> INT_MAX \<and> int (unat (cl_qTx c)) \<le> INT_MAX \<and>
     word_ok (cl_engine c) \<and> word_ok (cl_args c) \<and> cl_engine c \<noteq> [] \<and>
     length (cl_engine c) < CONFIG_MAX_ENGINE_LEN \<and> length (show_config c) < 119"

definition config_entry :: "config_line \<Rightarrow> proc_config_s" where
  "config_entry c = zero_config\<lparr>pc_enabled := 1, pc_port_tx := ucast (cl_pTx c),
     pc_port_rx := ucast (cl_pRx c), pc_queue_tx := ucast (cl_qTx c), pc_queue_rx := ucast (cl_qRx c),
     pc_engine := cl_engine c, pc_args := cl_args c\<rparr>"

definition count_config :: "config_line \<Rightarrow> port_queue_conf_s list \<Rightarrow> port_queue_conf_s list" where
  "count_config c a =
     (let a = a[unat (cl_pTx c) := (a ! unat (cl_pTx c))\<lparr>queue_tx_nb := queue_tx_nb (a ! unat (cl_pTx c)) + 1\<rparr>]
      in a[unat (cl_pRx c) := (a ! unat (cl_pRx c))\<lparr>queue_rx_nb := queue_rx_nb (a ! unat (cl_pRx c)) + 1\<rparr>])"

section \<open>Facts\<close>

lemma scan_number_space:
  assumes "isspace b" "rest = [] \<or> digit_val 10 (hd rest) = None"
  shows "scan_number 10 (b # show_nat n @ rest) = (int n, rest)"
  using scan_number_show_nat [OF assms(2), of n] assms(1)
  by (auto simp: scan_number_def Let_def split: prod.splits if_splits)

lemma scan_d_show_nat:
  assumes "int n \<le> INT_MAX" "rest = [] \<or> digit_val 10 (hd rest) = None"
  shows "scan_d (show_nat n @ rest) = Some (int n, rest)"
    and "isspace b \<Longrightarrow> scan_d (b # show_nat n @ rest) = Some (int n, rest)"
proof -
  have "rest \<noteq> show_nat n @ rest" by simp
  moreover have "rest \<noteq> b # show_nat n @ rest" by (metis append_Cons append_self_conv2 list.distinct(1))
  moreover have "max LONG_MIN (min LONG_MAX (int n)) = int n"
    using assms(1) by (simp add: LONG_MIN_def LONG_MAX_def INT_MAX_def)
  ultimately show "scan_d (show_nat n @ rest) = Some (int n, rest)"
    "isspace b \<Longrightarrow> scan_d (b # show_nat n @ rest) = Some (int n, rest)"
    using scan_number_show_nat [OF assms(2), of n] scan_number_space [OF _ assms(2), of b n] assms(1)
    by (simp_all add: scan_d_def)
qed

lemma isspace_blank [simp]: "isspace tab" "isspace newline"
  by (simp_all add: isspace_def)

lemma tab_no_digit [simp]: "digit_val 10 tab = None"
  by (simp add: digit_val_def)

lemma scan_s_word:
  assumes "word_ok w" "w \<noteq> []" "isspace b" "isspace d"
  shows "scan_s (b # w @ d # rest) = Some (w, d # rest)"
proof -
  obtain x xs where w: "w = x # xs" "\<not> isspace x" using assms(1,2) by (cases w) (auto simp: word_ok_def)
  have "dropWhile isspace (b # w @ d # rest) = w @ d # rest" using w assms(3) by simp
  moreover have "takeWhile (\<lambda>c. \<not> isspace c) (w @ d # rest) = w"
    "dropWhile (\<lambda>c. \<not> isspace c) (w @ d # rest) = d # rest"
    using assms(1,4) by (simp_all add: word_ok_def takeWhile_append2 dropWhile_append2)
  ultimately show ?thesis using assms(2) by (simp add: scan_s_def)
qed

lemma scan_s_blank: "isspace b \<Longrightarrow> isspace d \<Longrightarrow> scan_s [b, d] = None"
  by (simp add: scan_s_def)

lemma sscanf_show_config:
  assumes "config_ok c"
  shows "sscanf_config (show_config c @ [newline]) = Some c"
proof -
  have n: "int (nat (cl_config_id c)) \<le> INT_MAX" "int (unat (cl_pRx c)) \<le> INT_MAX"
    "int (unat (cl_pTx c)) \<le> INT_MAX" "int (unat (cl_qRx c)) \<le> INT_MAX" "int (unat (cl_qTx c)) \<le> INT_MAX"
  proof -
    have small: "int k \<le> INT_MAX" if "k < 31" for k using that by (simp add: INT_MAX_def)
    show "int (nat (cl_config_id c)) \<le> INT_MAX" using assms unfolding config_ok_def by linarith
    show "int (unat (cl_pRx c)) \<le> INT_MAX" "int (unat (cl_pTx c)) \<le> INT_MAX"
      "int (unat (cl_qRx c)) \<le> INT_MAX" "int (unat (cl_qTx c)) \<le> INT_MAX"
      using assms small unfolding config_ok_def by blast+
  qed
  have e: "scan_s (tab # cl_engine c @ tab # cl_args c @ [newline]) = Some (cl_engine c, tab # cl_args c @ [newline])"
    using assms by (intro scan_s_word) (simp_all add: config_ok_def)
  have a: "(case scan_s (tab # cl_args c @ [newline]) of None \<Rightarrow> [] | Some (args, _) \<Rightarrow> args) = cl_args c"
  proof (cases "cl_args c = []")
    case True
    then show ?thesis by (simp add: scan_s_blank)
  next
    case False
    then show ?thesis using scan_s_word [of "cl_args c" tab newline "[]"] assms by (simp add: config_ok_def)
  qed
  have "0 \<le> cl_config_id c" using assms by (simp add: config_ok_def)
  then show ?thesis
    using n by (simp add: sscanf_config_def show_config_def scan_d_show_nat e a)
qed

lemma word_ok_chars: "word_ok w \<Longrightarrow> newline \<notin> set w" "word_ok w \<Longrightarrow> CHR 0x00 \<notin> set w"
  using isspace_blank(2) unfolding word_ok_def by blast+

lemma show_config_chars:
  assumes "config_ok c"
  shows "newline \<notin> set (show_config c)" "CHR 0x00 \<notin> set (show_config c)"
proof -
  have "word_ok (cl_engine c)" "word_ok (cl_args c)" using assms by (simp_all add: config_ok_def)
  then show "newline \<notin> set (show_config c)" "CHR 0x00 \<notin> set (show_config c)"
    by (simp_all add: show_config_def word_ok_chars)
qed

lemma c_str_show_config: "config_ok c \<Longrightarrow> c_str (show_config c @ [newline]) = show_config c @ [newline]"
  unfolding c_str_def by (rule takeWhile_eq_all_conv [THEN iffD2]) (auto dest: show_config_chars(2))

text \<open>A configuration that the state can take.\<close>

definition config_fits :: "'d master \<Rightarrow> config_line \<Rightarrow> bool" where
  "config_fits m c \<longleftrightarrow> nat (cl_config_id c) < length (proc_config (common m)) \<and>
     unat (cl_pRx c) < length (port_queue_conf m) \<and> unat (cl_pTx c) < length (port_queue_conf m) \<and>
     bit (mi_port_mask (main_information (common m))) (unat (cl_pRx c)) \<and>
     bit (mi_port_mask (main_information (common m))) (unat (cl_pTx c))"

definition add_config :: "config_line \<Rightarrow> 'd master \<Rightarrow> 'd master" where
  "add_config c m = m\<lparr>common := (common m)\<lparr>proc_config :=
       (proc_config (common m))[nat (cl_config_id c) := config_entry c]\<rparr>,
     port_queue_conf := count_config c (port_queue_conf m)\<rparr>"

lemma add_config_sel [simp]:
  "proc_config (common (add_config c m)) = (proc_config (common m))[nat (cl_config_id c) := config_entry c]"
  "port_queue_conf (add_config c m) = count_config c (port_queue_conf m)"
  "main_information (common (add_config c m)) = main_information (common m)"
  by (simp_all add: add_config_def)

lemma length_count_config [simp]: "length (count_config c a) = length a"
  by (simp add: count_config_def Let_def)

lemma config_fits_add [simp]: "config_fits (add_config c m) d = config_fits m d"
  by (simp add: config_fits_def)

lemma and_exp_nonzero: "bit w n \<Longrightarrow> (w :: u32) AND 2 ^ n \<noteq> 0"
proof
  assume "bit w n" "w AND 2 ^ n = 0"
  then have "n < 32" by (auto dest: bit_imp_le_length)
  then have "bit (w AND 2 ^ n) n" using \<open>bit w n\<close> by (simp add: bit_simps)
  then show False using \<open>w AND 2 ^ n = 0\<close> by simp
qed

lemma set_config_ok:
  assumes "config_ok c" "config_fits m c" "proc_config (common m) ! nat (cl_config_id c) = zero_config"
  shows "set_config c m = Some (Inr (add_config c m))"
  using assms
  by (simp add: set_config_def config_ok_def config_fits_def arr_get_def add_config_def config_entry_def
      count_config_def zero_config_def Let_def)

lemma parse_line_ok:
  assumes "len \<le> 120" "config_ok c" "config_fits m c"
    "proc_config (common m) ! nat (cl_config_id c) = zero_config"
  shows "parse_line len (show_config c @ [newline]) m = Some (Inr (True, add_config c m))"
proof -
  have "length (cl_args c) < ARGS_LEN" "length (cl_engine c) < CONFIG_MAX_ENGINE_LEN"
    using assms(2) by (simp_all add: config_ok_def show_config_def ARGS_LEN_def)
  moreover have "shift1 (cl_pRx c) = Some (push_bit (unat (cl_pRx c)) 1)"
    "shift1 (cl_pTx c) = Some (push_bit (unat (cl_pTx c)) 1)"
    using assms(2) by (simp_all add: shift1_def config_ok_def)
  moreover have "mi_port_mask (main_information (common m)) AND push_bit (unat (cl_pRx c)) 1 \<noteq> 0"
    "mi_port_mask (main_information (common m)) AND push_bit (unat (cl_pTx c)) 1 \<noteq> 0"
    using assms(2,3) by (simp_all add: and_exp_nonzero config_ok_def config_fits_def)
  ultimately show ?thesis
    using assms(1) sscanf_show_config [OF assms(2)] set_config_ok [OF assms(2-4)]
    by (simp add: parse_line_def IPC_MSG_SIZE_def c_str_show_config [OF assms(2)])
qed

definition config_file :: "config_line list \<Rightarrow> string" where
  "config_file cs = concat (map (\<lambda>c. show_config c @ [newline]) cs)"

lemma config_file_Cons [simp]: "config_file (c # cs) = show_config c @ newline # config_file cs"
  by (simp add: config_file_def)

lemma parse_lines_configs:
  assumes "len = 0 \<or> len = 120" "\<forall>c\<in>set cs. config_ok c \<and> config_fits m c"
    "distinct (map cl_config_id cs)"
    "\<forall>c\<in>set cs. proc_config (common m) ! nat (cl_config_id c) = zero_config"
  shows "parse_lines len (config_file cs) nb m =
    Some (0, set_main (\<lambda>i. i\<lparr>proc_config_nb := nb + int (length cs)\<rparr>) (fold add_config cs m))"
  using assms
proof (induction cs arbitrary: len nb m)
  case Nil
  then show ?case by (simp add: parse_lines.simps config_file_def set_main_def)
next
  case (Cons c cs)
  have c: "config_ok c" "config_fits m c" "proc_config (common m) ! nat (cl_config_id c) = zero_config"
    using Cons.prems by simp_all
  have get: "getline (config_file (c # cs)) = Some (show_config c @ [newline], config_file cs)"
    using getline_line [OF show_config_chars(1) [OF c(1)]] by simp
  have "length (show_config c) < 119" using c(1) by (simp add: config_ok_def)
  then have al: "getline_alloc len (length (show_config c @ [newline]) + 1) = 120"
    using Cons.prems(1) by (auto simp: getline_alloc_def)
  have "nat (cl_config_id d) \<noteq> nat (cl_config_id c)" if "d \<in> set cs" for d
  proof -
    have "cl_config_id d \<noteq> cl_config_id c" using Cons.prems(3) that by (auto simp: rev_image_eqI)
    moreover have "0 \<le> cl_config_id d" "0 \<le> cl_config_id c"
      using Cons.prems(2) that by (auto simp: config_ok_def)
    ultimately show ?thesis by simp
  qed
  then have "parse_lines 120 (config_file cs) (nb + 1) (add_config c m) =
    Some (0, set_main (\<lambda>i. i\<lparr>proc_config_nb := nb + 1 + int (length cs)\<rparr>) (fold add_config cs (add_config c m)))"
    using Cons.prems by (intro Cons.IH) (simp_all, metis nth_list_update_neq)
  then show ?case
    using parse_line_ok [of 120, OF _ c] get al
    by (subst parse_lines.simps) (simp add: Let_def algebra_simps)
qed

text \<open>What a list of configurations leaves in the tables.\<close>

lemma fold_add_config_frame [simp]:
  "main_information (common (fold add_config cs m)) = main_information (common m)"
  "length (proc_config (common (fold add_config cs m))) = length (proc_config (common m))"
  "length (port_queue_conf (fold add_config cs m)) = length (port_queue_conf m)"
  by (induction cs arbitrary: m) simp_all

lemma fold_add_config_other:
  "\<forall>c\<in>set cs. nat (cl_config_id c) \<noteq> i \<Longrightarrow>
     proc_config (common (fold add_config cs m)) ! i = proc_config (common m) ! i"
  by (induction cs arbitrary: m) simp_all

lemma fold_add_config_entry:
  assumes "\<forall>c\<in>set cs. config_ok c \<and> config_fits m c" "distinct (map cl_config_id cs)" "c \<in> set cs"
  shows "proc_config (common (fold add_config cs m)) ! nat (cl_config_id c) = config_entry c"
  using assms
proof (induction cs arbitrary: m)
  case Nil
  then show ?case by simp
next
  case (Cons d cs)
  show ?case
  proof (cases "c \<in> set cs")
    case True
    then show ?thesis using Cons by simp
  next
    case False
    then have "c = d" using Cons.prems(3) by simp
    have "nat (cl_config_id e) \<noteq> nat (cl_config_id c)" if "e \<in> set cs" for e
    proof -
      have "cl_config_id e \<noteq> cl_config_id c"
        using Cons.prems(2) that \<open>c = d\<close> by (auto simp: rev_image_eqI)
      moreover have "0 \<le> cl_config_id e" "0 \<le> cl_config_id c"
        using Cons.prems(1,3) that by (auto simp: config_ok_def)
      ultimately show ?thesis by simp
    qed
    then have "proc_config (common (fold add_config cs (add_config c m))) ! nat (cl_config_id c) =
        proc_config (common (add_config c m)) ! nat (cl_config_id c)"
      by (intro fold_add_config_other) blast
    then show ?thesis using Cons.prems(1) \<open>c = d\<close> by (simp add: config_fits_def)
  qed
qed

lemma count_config_nth:
  assumes "unat (cl_pRx c) < length a" "unat (cl_pTx c) < length a" "p < length a"
  shows "queue_rx_nb (count_config c a ! p) = queue_rx_nb (a ! p) + (if unat (cl_pRx c) = p then 1 else 0)"
    "queue_tx_nb (count_config c a ! p) = queue_tx_nb (a ! p) + (if unat (cl_pTx c) = p then 1 else 0)"
  using assms by (auto simp: count_config_def Let_def nth_list_update)

lemma fold_add_config_queues:
  assumes "\<forall>c\<in>set cs. config_fits m c" "p < length (port_queue_conf m)"
  shows "queue_rx_nb (port_queue_conf (fold add_config cs m) ! p) =
      queue_rx_nb (port_queue_conf m ! p) + of_nat (length (filter (\<lambda>c. unat (cl_pRx c) = p) cs)) \<and>
    queue_tx_nb (port_queue_conf (fold add_config cs m) ! p) =
      queue_tx_nb (port_queue_conf m ! p) + of_nat (length (filter (\<lambda>c. unat (cl_pTx c) = p) cs))"
  using assms
proof (induction cs arbitrary: m)
  case Nil
  then show ?case by simp
next
  case (Cons c cs)
  have fits: "\<forall>d\<in>set cs. config_fits (add_config c m) d" "p < length (port_queue_conf (add_config c m))"
    using Cons.prems by simp_all
  have c: "unat (cl_pRx c) < length (port_queue_conf m)" "unat (cl_pTx c) < length (port_queue_conf m)"
    using Cons.prems(1) by (simp_all add: config_fits_def)
  show ?case using Cons.IH [OF fits] count_config_nth [OF c Cons.prems(2)] by simp
qed

text \<open>The head of a file: lines that are skipped, the first of which starts with their number.\<close>

definition head_lines :: "string list \<Rightarrow> string" where
  "head_lines hs = concat (map (\<lambda>l. l @ [newline]) hs)"

definition head_ok :: "string list \<Rightarrow> bool" where
  "head_ok hs \<longleftrightarrow> (\<exists>t. hd hs = show_nat (length hs) @ t \<and> (t = [] \<or> digit_val 10 (hd t) = None)) \<and>
     hs \<noteq> [] \<and> length hs \<le> 200 \<and> (\<forall>l\<in>set hs. newline \<notin> set l \<and> CHR 0x00 \<notin> set l \<and> length l < 119)"

lemma skip_head:
  assumes "\<forall>l\<in>set hs. newline \<notin> set l \<and> length l < 119" "len = 0 \<or> len = 120"
  shows "\<exists>len'. (len' = 0 \<or> len' = 120) \<and>
    skip_lines (int (length hs)) len (head_lines hs @ rest) = Some (len', rest)"
  using assms
proof (induction hs arbitrary: len)
  case Nil
  then show ?case by (simp add: skip_lines.simps head_lines_def)
next
  case (Cons l hs)
  have "getline (head_lines (l # hs) @ rest) = Some (l @ [newline], head_lines hs @ rest)"
    using getline_line [of l "head_lines hs @ rest"] Cons.prems(1) by (simp add: head_lines_def)
  moreover have "getline_alloc len (length (l @ [newline]) + 1) = 120"
    using Cons.prems by (auto simp: getline_alloc_def)
  ultimately show ?case
    using Cons.IH [of 120] Cons.prems(1) by (subst skip_lines.simps) simp
qed

lemma read_line_prefix: "\<exists>k. fst (read_line n (l @ newline # r)) = take k (l @ [newline]) \<and> min n (Suc (length l)) \<le> k"
  if "newline \<notin> set l"
  using that
proof (induction l arbitrary: n)
  case Nil
  then show ?case by (cases n) (auto intro: exI [of _ 0] exI [of _ "Suc 0"])
next
  case (Cons c l)
  show ?case
  proof (cases n)
    case 0
    then show ?thesis by (auto intro: exI [of _ 0])
  next
    case (Suc k)
    obtain j where "fst (read_line k (l @ newline # r)) = take j (l @ [newline])" "min k (Suc (length l)) \<le> j"
      using Cons by auto
    then have "fst (read_line n ((c # l) @ newline # r)) = take (Suc j) ((c # l) @ [newline])"
      "min n (Suc (length (c # l))) \<le> Suc j"
      using Suc Cons.prems by (auto split: prod.splits)
    then show ?thesis by blast
  qed
qed

text \<open>The number at the start of the file, read through the buffer of 29 characters.\<close>

lemma head_number:
  assumes "head_ok hs"
  shows "\<exists>buff r. fgets 29 (head_lines hs @ rest) = Some (buff, r) \<and>
    sscanf_d (c_str buff) = (1, Some (int (length hs)))"
proof -
  obtain t where t: "hd hs = show_nat (length hs) @ t" "t = [] \<or> digit_val 10 (hd t) = None"
    using assms unfolding head_ok_def by blast
  have hs: "hs \<noteq> []" "length hs \<le> 200" using assms by (simp_all add: head_ok_def)
  then have "hd hs \<in> set hs" by simp
  then have nl: "newline \<notin> set (hd hs)" "CHR 0x00 \<notin> set (hd hs)"
    using assms unfolding head_ok_def by blast+
  have whole: "head_lines hs @ rest = hd hs @ newline # (head_lines (tl hs) @ rest)"
    using hs(1) by (cases hs) (simp_all add: head_lines_def)
  obtain k where k: "fst (read_line 28 (head_lines hs @ rest)) = take k (hd hs @ [newline])"
    "min 28 (Suc (length (hd hs))) \<le> k"
    using read_line_prefix [OF nl(1)] unfolding whole by blast
  have len: "length (show_nat (length hs)) \<le> 3" using hs(2) by (intro length_show_nat) simp_all
  obtain u where u: "take k (hd hs @ [newline]) = show_nat (length hs) @ u" "u \<noteq> []" "digit_val 10 (hd u) = None"
  proof
    let ?u = "take (k - length (show_nat (length hs))) (t @ [newline])"
    have le: "length (show_nat (length hs)) < k" using k(2) len t(1) by (simp add: min_def split: if_splits)
    show "take k (hd hs @ [newline]) = show_nat (length hs) @ ?u" using le t(1) by simp
    show "?u \<noteq> []" using le by simp
    show "digit_val 10 (hd ?u) = None" using le t(2) by (cases t) (simp_all add: take_Cons')
  qed
  have nz: "CHR 0x00 \<notin> set (show_nat (length hs) @ u)"
    using nl(2) in_set_takeD [of "CHR 0x00" k "hd hs @ [newline]"] by (auto simp flip: u(1))
  then have c: "c_str (show_nat (length hs) @ u) = show_nat (length hs) @ u"
    unfolding c_str_def by (intro takeWhile_eq_all_conv [THEN iffD2]) auto
  obtain d cs where d: "d < 10" "show_nat (length hs) = digit_char d # cs"
    using hd_show_nat [of "length hs"] by (metis show_nat_nonempty list.collapse)
  have "scan_number 10 (show_nat (length hs) @ u) = (int (length hs), u)"
    using u(3) by (intro scan_number_show_nat) simp
  then have "sscanf_d (c_str (show_nat (length hs) @ u)) = (1, Some (int (length hs)))"
    using hs(2) d unfolding c
    by (simp add: sscanf_d_def strtol_def LONG_MIN_def LONG_MAX_def INT_MAX_def)
  moreover have "fgets 29 (head_lines hs @ rest) =
      Some (show_nat (length hs) @ u, snd (read_line 28 (head_lines hs @ rest)))"
    using k(1) u(1) by (cases "read_line 28 (head_lines hs @ rest)") (auto simp: fgets_def)
  ultimately show ?thesis by blast
qed

section \<open>Properties\<close>

text \<open>
  C36: A configuration file is read back. A file of skipped lines, the first of which starts with
  their number, and of configurations with different numbers whose ports are enabled and which
  fit the tables and the buffers, is accepted; afterwards every configuration is in the table at
  its number, all other entries are empty, the queues of every port are the number of
  configurations that use it, and the number of configurations is recorded.
\<close>

theorem parse_configfile_round_trip:
  assumes "fopen path = Some (head_lines hs @ config_file cs)" "head_ok hs"
    "\<forall>c\<in>set cs. config_ok c \<and> config_fits m c" "distinct (map cl_config_id cs)"
  shows "\<exists>m'. parse_configfile fopen path m = Some (0, m') \<and>
    proc_config_nb (main_information (common m')) = int (length cs) \<and>
    (\<forall>c\<in>set cs. proc_config (common m') ! nat (cl_config_id c) = config_entry c) \<and>
    (\<forall>i<length (proc_config (common m)). (\<forall>c\<in>set cs. nat (cl_config_id c) \<noteq> i) \<longrightarrow>
      proc_config (common m') ! i = zero_config) \<and>
    (\<forall>p<length (port_queue_conf m).
      queue_rx_nb (port_queue_conf m' ! p) =
        queue_rx_nb (port_queue_conf m ! p) + of_nat (length (filter (\<lambda>c. unat (cl_pRx c) = p) cs)) \<and>
      queue_tx_nb (port_queue_conf m' ! p) =
        queue_tx_nb (port_queue_conf m ! p) + of_nat (length (filter (\<lambda>c. unat (cl_pTx c) = p) cs)))"
proof -
  let ?m = "m\<lparr>common := (common m)\<lparr>proc_config := replicate (length (proc_config (common m))) zero_config\<rparr>\<rparr>"
  obtain buff r where h: "fgets 29 (head_lines hs @ config_file cs) = Some (buff, r)"
    "sscanf_d (c_str buff) = (1, Some (int (length hs)))"
    using head_number [OF assms(2)] by blast
  obtain len where len: "len = 0 \<or> len = 120"
    "skip_lines (int (length hs)) 0 (head_lines hs @ config_file cs) = Some (len, config_file cs)"
    using skip_head [of hs 0] assms(2) by (auto simp: head_ok_def)
  have fits: "\<forall>c\<in>set cs. config_ok c \<and> config_fits ?m c" using assms(3) by (simp add: config_fits_def)
  moreover have "\<forall>c\<in>set cs. proc_config (common ?m) ! nat (cl_config_id c) = zero_config"
    using assms(3) by (simp add: config_fits_def)
  ultimately have lines: "parse_lines len (config_file cs) 0 ?m =
      Some (0, set_main (\<lambda>i. i\<lparr>proc_config_nb := 0 + int (length cs)\<rparr>) (fold add_config cs ?m))"
    using len(1) assms(4) by (intro parse_lines_configs)
  have "parse_configfile fopen path m =
      Some (0, set_main (\<lambda>i. i\<lparr>proc_config_nb := 0 + int (length cs)\<rparr>) (fold add_config cs ?m))"
    using assms(1,2) h len(2) lines by (simp add: parse_configfile_def Let_def head_ok_def)
  moreover have "\<forall>c\<in>set cs. proc_config (common (fold add_config cs ?m)) ! nat (cl_config_id c) = config_entry c"
    using fold_add_config_entry [OF fits assms(4)] by blast
  moreover have "proc_config (common (fold add_config cs ?m)) ! i = zero_config"
    if "i < length (proc_config (common m))" "\<forall>c\<in>set cs. nat (cl_config_id c) \<noteq> i" for i
    using fold_add_config_other [OF that(2), of ?m] that(1) by simp
  moreover have "\<forall>c\<in>set cs. config_fits ?m c" using fits by blast
  note fold_add_config_queues [OF this]
  ultimately show ?thesis by (simp add: set_main_def)
qed

definition demo_master :: "unit master" where
  "demo_master = \<lparr>common = \<lparr>lcore_resource = [], proc_config = replicate 4 zero_config,
       main_information = \<lparr>mi_port_nb = 2, mi_port_nb_enabled = 2, mi_port_mask = 3, float_proc = 1,
         proc_config_nb = 0, proc_config_used_nb = 0, config_file_name = [], mi_fdir = 0, fdir_file_name = [],
         main_id = 0\<rparr>,
       sys_statistics = [], mapping_id = [], lcore_cfg = [], core_cfg = [],
       msg_mem = (\<lambda>_. \<lparr>cmd = START, msg = []\<rparr>), dpdk = ()\<rparr>,
     port_queue_conf = replicate 2 \<lparr>queue_rx_nb = 0, queue_tx_nb = 0, default_txq_flags = 0\<rparr>, timer_file = [],
     timer_period = 0, timer_stats = 0\<rparr>"

definition demo_config :: config_line where
  "demo_config = \<lparr>cl_config_id = 2, cl_pRx = 0, cl_pTx = 1, cl_qRx = 0, cl_qTx = 0,
     cl_engine = ''BPF'', cl_args = ''x''\<rparr>"

lemma show_nat_small: "n < 10 \<Longrightarrow> show_nat n = [digit_char n]"
  by (simp add: show_nat.simps)

theorem parse_configfile_round_trip_witness:
  "\<exists>m'. parse_configfile (\<lambda>_. Some (head_lines [show_nat 2, ''proc''] @ config_file [demo_config])) ''f''
       demo_master = Some (0, m') \<and>
     proc_config (common m') ! 2 = config_entry demo_config"
proof -
  have "head_ok [show_nat 2, ''proc'']"
  proof -
    have "length (show_nat 2) < 119" by (simp add: show_nat_small)
    then show ?thesis by (auto simp: head_ok_def numeral_2_eq_2)
  qed
  moreover have "config_ok demo_config"
    by (simp add: config_ok_def demo_config_def INT_MAX_def word_ok_def isspace_def CONFIG_MAX_ENGINE_LEN_def
        show_config_def show_nat_small)
  moreover have "config_fits demo_master demo_config"
    by (simp add: config_fits_def demo_master_def demo_config_def bit_1_iff)
  ultimately show ?thesis
    using parse_configfile_round_trip [where fopen = "\<lambda>_. Some (head_lines [show_nat 2, ''proc''] @ config_file [demo_config])"
        and path = "''f''" and hs = "[show_nat 2, ''proc'']" and cs = "[demo_config]" and m = demo_master]
    by (auto simp: demo_config_def)
qed

text \<open>
  C37: An invalid port mask is not rejected. When the argument of \<^verbatim>\<open>-p\<close> is no hexadecimal number,
  or is zero, the parser of the mask reports an error that its caller takes for a mask: the
  program goes on with all 32 ports enabled. The argument is rejected only for a number whose
  low 32 bits are zero.
\<close>

theorem invalid_portmask_enables_all:
  assumes "optarg = [] \<or> snd (strtoul 16 optarg) \<noteq> [] \<or> fst (strtoul 16 optarg) = 0"
  shows "\<exists>m'. parse_option fopen (Opt_p optarg) m = Some (None, m') \<and>
    mi_port_mask (main_information (common m')) = 0xFFFFFFFF"
proof -
  have "parse_portmask optarg = - 1"
    using assms by (auto simp: parse_portmask_def split: prod.splits)
  then show ?thesis by (simp add: parse_option_def set_main_def)
qed

theorem invalid_portmask_enables_all_witness:
  "\<exists>m'. parse_option (\<lambda>_. None) (Opt_p ''zz'') demo_master = Some (None, m') \<and>
     mi_port_mask (main_information (common m')) = 0xFFFFFFFF"
  by (rule invalid_portmask_enables_all)
    (simp add: strtoul_def scan_number_def isspace_def scan_sign_def skip_0x_def digit_val_def)

end
