(* ===== verification/Port_Setup.thy ===== *)
theory Port_Setup
  imports Parser
begin

text \<open>
  Preparing the Ethernet ports in the master (\<^verbatim>\<open>src/main.c\<close>): configuring and starting one port
  (\<open>port_init\<close>) and waiting for the links (\<open>check_all_ports_link_status\<close>). The driver is an
  argument: \<open>res\<close> is the value each driver call returns, and the calls made are recorded in order;
  the links of the ports are a function of the round in which they are read.
\<close>

section \<open>Initialising a port\<close>

definition RX_RING_SIZE :: nat where "RX_RING_SIZE = 512"
definition TX_RING_SIZE :: nat where "TX_RING_SIZE = 512"

text \<open>The configuration every port starts with: jumbo frames, and the perfect filters of the flow director.\<close>

datatype fdir_mode = RTE_FDIR_MODE_NONE | RTE_FDIR_MODE_SIGNATURE | RTE_FDIR_MODE_PERFECT
datatype fdir_pballoc = RTE_FDIR_PBALLOC_64K | RTE_FDIR_PBALLOC_128K | RTE_FDIR_PBALLOC_256K
datatype fdir_status = RTE_FDIR_NO_REPORT_STATUS | RTE_FDIR_REPORT_STATUS | RTE_FDIR_REPORT_STATUS_ALWAYS
datatype tx_mq_mode = ETH_MQ_TX_NONE | ETH_MQ_TX_DCB | ETH_MQ_TX_VMDQ_DCB | ETH_MQ_TX_VMDQ_ONLY

record rxmode_s =
  max_rx_pkt_len :: u32
  split_hdr_size :: u16
  header_split :: bool
  hw_ip_checksum :: bool
  hw_vlan_filter :: bool
  hw_vlan_strip :: bool
  jumbo_frame :: bool

record fdir_masks_s =
  vlan_tci_mask :: u16
  mask4_src_ip :: u32
  mask4_dst_ip :: u32
  mask6_src_ip :: "u32 list"
  mask6_dst_ip :: "u32 list"
  src_port_mask :: u16
  dst_port_mask :: u16

record fdir_conf_s =
  fc_mode :: fdir_mode
  fc_pballoc :: fdir_pballoc
  fc_status :: fdir_status
  fc_drop_queue :: u8
  fc_mask :: fdir_masks_s

record rte_eth_conf =
  rxmode :: rxmode_s
  mq_mode :: tx_mq_mode
  rss_key :: "u8 list option"
  rss_hf :: u64
  fdir_conf :: fdir_conf_s

definition port_conf_default :: rte_eth_conf where
  "port_conf_default =
     \<lparr>rxmode = \<lparr>max_rx_pkt_len = 9000, split_hdr_size = 0, header_split = False, hw_ip_checksum = False,
        hw_vlan_filter = False, hw_vlan_strip = False, jumbo_frame = True\<rparr>,
      mq_mode = ETH_MQ_TX_NONE, rss_key = None, rss_hf = 0,
      fdir_conf = \<lparr>fc_mode = RTE_FDIR_MODE_PERFECT, fc_pballoc = RTE_FDIR_PBALLOC_64K,
        fc_status = RTE_FDIR_NO_REPORT_STATUS, fc_drop_queue = 127,
        fc_mask = \<lparr>vlan_tci_mask = 0, mask4_src_ip = 1, mask4_dst_ip = 0, mask6_src_ip = replicate 4 0,
          mask6_dst_ip = replicate 4 0, src_port_mask = 0, dst_port_mask = 0\<rparr>\<rparr>\<rparr>"

text \<open>The calls, with the arguments that the program chooses.\<close>

datatype port_call =
    Configure u8 u16 u16 rte_eth_conf
  | Rx_setup u8 nat nat
  | Tx_setup u8 nat nat u32
  | Fdir_init u8
  | Dev_start u8
  | Promiscuous u8

text \<open>
  The two loops over the queues: the queues are set up in order and the first negative result ends
  the loop. The result is the error, if there was one, and the calls made.
\<close>

fun setup_queues :: "(port_call \<Rightarrow> int) \<Rightarrow> (nat \<Rightarrow> port_call) \<Rightarrow> nat list \<Rightarrow> int option \<times> port_call list" where
  "setup_queues res call [] = (None, [])"
| "setup_queues res call (q # qs) =
     (if res (call q) < 0 then (Some (res (call q)), [call q])
      else case setup_queues res call qs of (r, log) \<Rightarrow> (r, call q # log))"

definition port_init ::
  "(port_call \<Rightarrow> int) \<Rightarrow> nat \<Rightarrow> int \<Rightarrow> port_queue_conf_s list \<Rightarrow> u8 \<Rightarrow>
   (int proc_outcome \<times> port_call list) option" where
  "port_init res rte_eth_dev_count fdir qconf port_id =
     (if unat port_id \<ge> rte_eth_dev_count then Some (Return (- 1), [])
      else do {
        port_qconf \<leftarrow> arr_get qconf (unat port_id);
        let rx_rings = queue_rx_nb port_qconf;
        let tx_rings = queue_tx_nb port_qconf;
        let c = Configure port_id rx_rings tx_rings port_conf_default;
        if res c \<noteq> 0 then Some (Return (res c), [c])
        else case setup_queues res (\<lambda>q. Rx_setup port_id q RX_RING_SIZE) [0..<unat rx_rings] of
          (Some v, l1) \<Rightarrow> Some (Return v, c # l1)
        | (None, l1) \<Rightarrow>
            (case setup_queues res (\<lambda>q. Tx_setup port_id q TX_RING_SIZE (default_txq_flags port_qconf)) [0..<unat tx_rings] of
               (Some v, l2) \<Rightarrow> Some (Return v, c # l1 @ l2)
             | (None, l2) \<Rightarrow>
                 (let f = (if fdir = 1 then [Fdir_init port_id] else [])
                  in if fdir = 1 \<and> res (Fdir_init port_id) \<noteq> 0 then Some (Exit 1, c # l1 @ l2 @ f)
                     else if res (Dev_start port_id) < 0
                     then Some (Return (res (Dev_start port_id)), c # l1 @ l2 @ f @ [Dev_start port_id])
                     else Some (Return 0, c # l1 @ l2 @ f @ [Dev_start port_id, Promiscuous port_id])))
      })"

section \<open>Waiting for the links\<close>

definition MAX_CHECK_TIME :: nat where "MAX_CHECK_TIME = 90"

text \<open>\<open>1 << portid\<close> in the tests of the port mask.\<close>

definition port_enabled :: "u32 \<Rightarrow> nat \<Rightarrow> bool option" where
  "port_enabled port_mask portid = map_option (\<lambda>b. port_mask AND b \<noteq> 0) (shift1 (of_nat portid))"

text \<open>
  One pass over the ports. Without the print flag it stops at the first enabled port that is down;
  with it, it reports every enabled port.
\<close>

fun check_ports :: "(nat \<Rightarrow> bool) \<Rightarrow> u32 \<Rightarrow> bool \<Rightarrow> nat list \<Rightarrow> (bool \<times> (nat \<times> bool) list) option" where
  "check_ports link port_mask print_flag [] = Some (True, [])"
| "check_ports link port_mask print_flag (portid # ps) = do {
     en \<leftarrow> port_enabled port_mask portid;
     if \<not> en then check_ports link port_mask print_flag ps
     else if print_flag then do {
       (up, out) \<leftarrow> check_ports link port_mask print_flag ps;
       Some (up, (portid, link portid) # out)
     }
     else if \<not> link portid then Some (False, [])
     else check_ports link port_mask print_flag ps
   }"

text \<open>
  The rounds from \<open>cnt\<close> on: the number of the round that ended the loop, the number of delays of
  100 ms and the report printed.
\<close>

function check_rounds ::
  "(nat \<Rightarrow> nat \<Rightarrow> bool) \<Rightarrow> nat list \<Rightarrow> u32 \<Rightarrow> nat \<Rightarrow> bool \<Rightarrow> nat \<Rightarrow> (nat \<times> nat \<times> (nat \<times> bool) list) option" where
  "check_rounds link ports port_mask cnt print_flag delays =
     (if cnt > MAX_CHECK_TIME then Some (cnt, delays, [])
      else do {
        (all_ports_up, out) \<leftarrow> check_ports (link cnt) port_mask print_flag ports;
        if print_flag then Some (cnt, delays, out)
        else check_rounds link ports port_mask (cnt + 1)
          (all_ports_up \<or> cnt = MAX_CHECK_TIME - 1)
          (if all_ports_up then delays else delays + 1)
      })"
  by pat_completeness auto
termination
  by (relation "measure (\<lambda>(link, ports, port_mask, cnt, print_flag, delays). Suc MAX_CHECK_TIME - cnt)") auto

declare check_rounds.simps [simp del]

definition check_all_ports_link_status ::
  "(nat \<Rightarrow> nat \<Rightarrow> bool) \<Rightarrow> u8 \<Rightarrow> u32 \<Rightarrow> (nat \<times> nat \<times> (nat \<times> bool) list) option" where
  "check_all_ports_link_status link port_num port_mask =
     check_rounds link [0..<unat port_num] port_mask 0 False 0"

section \<open>The calls of a port initialisation\<close>

text \<open>The calls in the order the driver needs them, and those that report an error.\<close>

definition port_plan :: "int \<Rightarrow> port_queue_conf_s \<Rightarrow> u8 \<Rightarrow> port_call list" where
  "port_plan fdir c p =
     Configure p (queue_rx_nb c) (queue_tx_nb c) port_conf_default #
     map (\<lambda>q. Rx_setup p q RX_RING_SIZE) [0..<unat (queue_rx_nb c)] @
     map (\<lambda>q. Tx_setup p q TX_RING_SIZE (default_txq_flags c)) [0..<unat (queue_tx_nb c)] @ (if fdir = 1 then [Fdir_init p] else []) @
     [Dev_start p, Promiscuous p]"

fun call_fails :: "(port_call \<Rightarrow> int) \<Rightarrow> port_call \<Rightarrow> bool" where
  "call_fails res (Configure p a b c) \<longleftrightarrow> res (Configure p a b c) \<noteq> 0"
| "call_fails res (Fdir_init p) \<longleftrightarrow> res (Fdir_init p) \<noteq> 0"
| "call_fails res (Promiscuous p) \<longleftrightarrow> False"
| "call_fails res c \<longleftrightarrow> res c < 0"

fun failure :: "(port_call \<Rightarrow> int) \<Rightarrow> port_call \<Rightarrow> int proc_outcome" where
  "failure res (Fdir_init p) = Exit 1"
| "failure res c = Return (res c)"

text \<open>The abstract run of a plan: stop after the first call that fails.\<close>

fun run_plan :: "(port_call \<Rightarrow> int) \<Rightarrow> port_call list \<Rightarrow> int proc_outcome \<times> port_call list" where
  "run_plan res [] = (Return 0, [])"
| "run_plan res (c # cs) =
     (if call_fails res c then (failure res c, [c])
      else case run_plan res cs of (r, log) \<Rightarrow> (r, c # log))"

lemma run_plan_setup:
  assumes "\<And>q. call_fails res (call q) = (res (call q) < 0)" "\<And>q. failure res (call q) = Return (res (call q))"
  shows "run_plan res (map call qs @ cs) =
    (case setup_queues res call qs of
       (Some v, log) \<Rightarrow> (Return v, log)
     | (None, log) \<Rightarrow> (case run_plan res cs of (r, log') \<Rightarrow> (r, log @ log')))"
  by (induction qs) (auto simp: assms split: prod.splits option.splits)

lemma port_init_run:
  assumes "unat p < n" "unat p < length qconf"
  shows "port_init res n fdir qconf p = Some (run_plan res (port_plan fdir (qconf ! unat p) p))"
  using assms
  by (auto simp: port_init_def port_plan_def run_plan_setup arr_get_def Let_def split: prod.splits option.splits)

lemma run_plan_prefix:
  "run_plan res cs = (r, log) \<Longrightarrow>
     (r = Return 0 \<and> log = cs \<and> (\<forall>c\<in>set cs. \<not> call_fails res c)) \<or>
     (\<exists>c rest. cs = log @ rest \<and> log \<noteq> [] \<and> last log = c \<and> call_fails res c \<and> r = failure res c \<and>
        r \<noteq> Return 0 \<and> (\<forall>d\<in>set (butlast log). \<not> call_fails res d))"
proof (induction cs arbitrary: r log)
  case Nil
  then show ?case by simp
next
  case (Cons c cs)
  show ?case
  proof (cases "call_fails res c")
    case True
    then have "failure res c \<noteq> Return 0" by (cases c) auto
    then show ?thesis using True Cons.prems by (intro disjI2) auto
  next
    case False
    obtain r' log' where run: "run_plan res cs = (r', log')" by fastforce
    then have "r = r'" "log = c # log'" using Cons.prems False by simp_all
    then show ?thesis using Cons.IH [OF run] False by auto
  qed
qed

section \<open>The rounds of the link check\<close>

definition enabled_ports :: "u8 \<Rightarrow> u32 \<Rightarrow> nat list" where
  "enabled_ports port_num port_mask = filter (bit port_mask) [0..<unat port_num]"

lemma port_enabled_eq: "portid < 31 \<Longrightarrow> port_enabled port_mask portid = Some (bit port_mask portid)"
  using and_exp_eq_0_iff_not_bit [of port_mask portid]
  by (simp add: port_enabled_def shift1_def unsigned_of_nat take_bit_nat_eq_self push_bit_eq_mult)

lemma check_ports_print:
  "\<forall>p\<in>set ps. p < 31 \<Longrightarrow>
     check_ports link port_mask True ps = Some (True, map (\<lambda>p. (p, link p)) (filter (bit port_mask) ps))"
  by (induction ps) (auto simp: port_enabled_eq)

lemma check_ports_test:
  "\<forall>p\<in>set ps. p < 31 \<Longrightarrow>
     check_ports link port_mask False ps = Some (\<forall>p\<in>set (filter (bit port_mask) ps). link p, [])"
  by (induction ps) (auto simp: port_enabled_eq)

lemma check_rounds_end:
  assumes "\<forall>p\<in>set ps. p < 31" "n \<le> MAX_CHECK_TIME"
  shows "check_rounds link ps m n True k = Some (n, k, map (\<lambda>p. (p, link n p)) (filter (bit m) ps))"
  using assms by (simp add: check_rounds.simps check_ports_print)

lemma check_rounds_spec:
  assumes ps: "\<forall>p\<in>set ps. p < 31" and "n \<le> c" "c \<le> MAX_CHECK_TIME" "n < MAX_CHECK_TIME"
    "\<forall>d. n \<le> d \<and> d < c \<longrightarrow> \<not> (\<forall>p\<in>set (filter (bit m) ps). link d p)"
    "c < MAX_CHECK_TIME \<longrightarrow> (\<forall>p\<in>set (filter (bit m) ps). link c p)"
  shows "check_rounds link ps m n False k =
    (let l = min (c + 1) MAX_CHECK_TIME
     in Some (l, k + (c - n), map (\<lambda>p. (p, link l p)) (filter (bit m) ps)))"
  using assms(2-)
proof (induction "c - n" arbitrary: n k)
  case 0
  then have "n = c" "c < MAX_CHECK_TIME" by simp_all
  then have "check_rounds link ps m n False k = check_rounds link ps m (c + 1) True k"
    using 0 by (simp add: check_rounds.simps [of link ps m c False] check_ports_test ps)
  then show ?case using \<open>n = c\<close> \<open>c < _\<close> check_rounds_end [OF ps, of "c + 1" link m k] by simp
next
  case (Suc x)
  then have "\<not> (\<forall>p\<in>set (filter (bit m) ps). link n p)" by simp
  then have "check_ports (link n) m False ps = Some (False, [])"
    using check_ports_test [OF ps, of "link n" m] by (simp only: simp_thms)
  then have step: "check_rounds link ps m n False k =
      check_rounds link ps m (n + 1) (n = MAX_CHECK_TIME - 1) (k + 1)"
    using Suc.prems(3)
    by (simp add: check_rounds.simps [of link ps m n False])
  show ?case
  proof (cases "n = MAX_CHECK_TIME - 1")
    case True
    then have "c = MAX_CHECK_TIME" "c - n = 1" using Suc.hyps(2) Suc.prems(2,3) by auto
    then show ?thesis
      using step True Suc.prems(3) check_rounds_end [OF ps, of MAX_CHECK_TIME link m "k + 1"] by simp
  next
    case False
    then have "check_rounds link ps m (n + 1) False (k + 1) =
        (let l = min (c + 1) MAX_CHECK_TIME
         in Some (l, k + 1 + (c - (n + 1)), map (\<lambda>p. (p, link l p)) (filter (bit m) ps)))"
      using Suc.hyps(2) Suc.prems by (intro Suc.hyps(1)) auto
    then show ?thesis using step False Suc.hyps(2) by (simp add: Let_def)
  qed
qed

section \<open>Properties\<close>

text \<open>
  C39: Waiting for the links ends: the loop looks at the links in at most 91 rounds and waits at
  most 90 times 100 ms. It goes on exactly until the first of the first 90 rounds in which every
  enabled port is up, and the round after that reports, in the order of the ports, the link of
  every enabled port and of no other. (The mask test is defined in C for the ports up to 30.)
\<close>

theorem link_check_bounded:
  assumes "unat port_num \<le> 31"
  shows "\<exists>c\<le>MAX_CHECK_TIME. \<exists>l\<le>MAX_CHECK_TIME.
    check_all_ports_link_status link port_num port_mask =
      Some (l, c, map (\<lambda>p. (p, link l p)) (enabled_ports port_num port_mask)) \<and>
    l = min (c + 1) MAX_CHECK_TIME \<and>
    (\<forall>d<c. \<exists>p\<in>set (enabled_ports port_num port_mask). \<not> link d p) \<and>
    (c < MAX_CHECK_TIME \<longrightarrow> (\<forall>p\<in>set (enabled_ports port_num port_mask). link c p))"
proof -
  let ?up = "\<lambda>d. d = MAX_CHECK_TIME \<or> (\<forall>p\<in>set (enabled_ports port_num port_mask). link d p)"
  define c where "c = (LEAST d. ?up d)"
  have up: "?up c" unfolding c_def by (rule LeastI [of ?up MAX_CHECK_TIME]) simp
  have le: "c \<le> MAX_CHECK_TIME" unfolding c_def by (rule Least_le) simp
  have least: "\<not> ?up d" if "d < c" for d using not_less_Least [of d ?up] that unfolding c_def by simp
  have "check_rounds link [0..<unat port_num] port_mask 0 False 0 =
      (let l = min (c + 1) MAX_CHECK_TIME
       in Some (l, 0 + (c - 0), map (\<lambda>p. (p, link l p)) (filter (bit port_mask) [0..<unat port_num])))"
    using assms le up least unfolding enabled_ports_def
    by (intro check_rounds_spec) (auto simp: MAX_CHECK_TIME_def)
  then show ?thesis
    using le up least
    by (intro exI [of _ c] conjI exI [of _ "min (c + 1) MAX_CHECK_TIME"])
      (auto simp: check_all_ports_link_status_def enabled_ports_def Let_def)
qed

theorem link_check_bounded_witness:
  "\<exists>c\<le>90. \<exists>l\<le>90. check_all_ports_link_status (\<lambda>r p. p < r) 2 3 = Some (l, c, [(0, 0 < l), (1, 1 < l)])"
proof -
  have "enabled_ports 2 3 = [0, 1]"
    by (simp add: enabled_ports_def upt_rec)
  then show ?thesis
    using link_check_bounded [of 2 "\<lambda>r p. p < r" 3] by (auto simp: MAX_CHECK_TIME_def)
qed

text \<open>
  C38: A port is started only when it is ready. \<open>port_init\<close> calls the driver in the order
  configuration, every receive queue, every transmit queue, flow director if it is used, start,
  promiscuous mode. It returns 0 exactly when it has made all of these calls and none failed.
  Otherwise it stops right after the first call that fails and returns that call's error, or ends
  the process when the flow director cannot be set up.
\<close>

theorem port_init_in_order:
  assumes "unat p < n" "unat p < length qconf"
  shows "\<exists>r log. port_init res n fdir qconf p = Some (r, log) \<and>
    (r = Return 0 \<and> log = port_plan fdir (qconf ! unat p) p \<and> (\<forall>c\<in>set log. \<not> call_fails res c) \<or>
     r \<noteq> Return 0 \<and> log \<noteq> [] \<and> (\<exists>rest. port_plan fdir (qconf ! unat p) p = log @ rest) \<and>
       call_fails res (last log) \<and> r = failure res (last log) \<and>
       (\<forall>c\<in>set (butlast log). \<not> call_fails res c))"
proof -
  obtain r log where run: "run_plan res (port_plan fdir (qconf ! unat p) p) = (r, log)" by fastforce
  then show ?thesis
    using port_init_run [OF assms, of res fdir] run_plan_prefix [OF run] by auto
qed

theorem port_init_in_order_witness:
  "\<exists>r log. port_init (\<lambda>c. if c = Dev_start 1 then - 5 else 0) 2 0
     (replicate 2 \<lparr>queue_rx_nb = 1, queue_tx_nb = 1, default_txq_flags = 0\<rparr>) 1 = Some (r, log) \<and> r \<noteq> Return 0 \<and>
     Promiscuous 1 \<notin> set log"
proof -
  let ?res = "\<lambda>c. if c = Dev_start 1 then - 5 else 0 :: int"
  let ?q = "replicate 2 \<lparr>queue_rx_nb = 1, queue_tx_nb = 1, default_txq_flags = 0\<rparr>"
  have plan: "port_plan 0 (?q ! unat (1 :: u8)) 1 =
      [Configure 1 1 1 port_conf_default, Rx_setup 1 0 RX_RING_SIZE, Tx_setup 1 0 TX_RING_SIZE 0, Dev_start 1, Promiscuous 1]"
    by (simp add: port_plan_def)
  obtain r log where run: "port_init ?res 2 0 ?q 1 = Some (r, log)"
    "r = Return 0 \<and> log = port_plan 0 (?q ! unat (1 :: u8)) 1 \<and> (\<forall>c\<in>set log. \<not> call_fails ?res c) \<or>
     r \<noteq> Return 0 \<and> log \<noteq> [] \<and> (\<exists>rest. port_plan 0 (?q ! unat (1 :: u8)) 1 = log @ rest) \<and>
       call_fails ?res (last log) \<and> r = failure ?res (last log) \<and>
       (\<forall>c\<in>set (butlast log). \<not> call_fails ?res c)"
    using port_init_in_order [of 1 2 ?q ?res 0] by auto
  show ?thesis
    using run unfolding plan by (auto simp: append_eq_Cons_conv Cons_eq_append_conv)
qed

end
