(* ===== verification/Master_Stats.thy ===== *)
theory Master_Stats
  imports Port_Setup
begin

text \<open>
  The statistics the master prints and logs (\<^verbatim>\<open>print_stats\<close>, \<^verbatim>\<open>print_port_stats\<close> and
  \<^verbatim>\<open>write_stats\<close> of \<^verbatim>\<open>src/main.c\<close>). All counters are 64-bit numbers that wrap around. What is printed is a list of
  figures; what is logged is the text of the file.
\<close>

section \<open>Printed statistics\<close>

record figures =
  f_tx :: u64
  f_tx_b :: u64
  f_rx :: u64
  f_rx_b :: u64
  f_filtered :: u64
  f_filtered_b :: u64
  f_dropped :: u64
  f_dropped_b :: u64

definition Mbytes :: u64 where "Mbytes = 8 * 1024 * 1024"

definition row_of :: "bridge_port_statistics \<Rightarrow> figures" where
  "row_of st =
     \<lparr>f_tx = tx st, f_tx_b = (rx_b st - filtered_b st - dropped_b st) div Mbytes,
      f_rx = rx st, f_rx_b = rx_b st div Mbytes, f_filtered = filtered st,
      f_filtered_b = filtered_b st div Mbytes, f_dropped = dropped st, f_dropped_b = dropped_b st div Mbytes\<rparr>"

definition zero_figures :: figures where
  "zero_figures = \<lparr>f_tx = 0, f_tx_b = 0, f_rx = 0, f_rx_b = 0, f_filtered = 0, f_filtered_b = 0,
     f_dropped = 0, f_dropped_b = 0\<rparr>"

definition add_totals :: "bridge_port_statistics \<Rightarrow> figures \<Rightarrow> figures" where
  "add_totals st t =
     (let t = t\<lparr>f_dropped := f_dropped t + dropped st, f_tx := f_tx t + tx st, f_rx := f_rx t + rx st,
                f_filtered := f_filtered t + filtered st, f_dropped_b := f_dropped_b t + dropped_b st,
                f_rx_b := f_rx_b t + rx_b st, f_filtered_b := f_filtered_b t + filtered_b st\<rparr>
      in t\<lparr>f_tx_b := f_rx_b t - f_filtered_b t - f_dropped_b t\<rparr>)"

fun print_rows ::
  "bridge_port_statistics list \<Rightarrow> nat list \<Rightarrow> figures \<Rightarrow> ((int \<times> nat \<times> figures) list \<times> figures) option" where
  "print_rows stats [] totals = Some ([], totals)"
| "print_rows stats (conf # confs) totals = do {
     st \<leftarrow> arr_get stats conf;
     (rows, totals) \<leftarrow> print_rows stats confs (add_totals st totals);
     Some ((pid st, conf, row_of st) # rows, totals)
   }"

definition in_mbytes :: "figures \<Rightarrow> figures" where
  "in_mbytes t = t\<lparr>f_tx_b := f_tx_b t div Mbytes, f_rx_b := f_rx_b t div Mbytes,
     f_filtered_b := f_filtered_b t div Mbytes, f_dropped_b := f_dropped_b t div Mbytes\<rparr>"

text \<open>The rows of the configurations and the aggregate.\<close>

definition print_stats :: "'d sys \<Rightarrow> ((int \<times> nat \<times> figures) list \<times> figures) option" where
  "print_stats s = do {
     (rows, totals) \<leftarrow>
       print_rows (sys_statistics s) [0..<nat (proc_config_nb (main_information s))] zero_figures;
     Some (rows, in_mbytes totals)
   }"

section \<open>Printed counters of the devices\<close>

record rte_eth_stats =
  ipackets :: u64
  imissed :: u64
  ibytes :: u64
  opackets :: u64
  oerrors :: u64
  obytes :: u64
  ibadcrc :: u64
  ibadlen :: u64
  ierrors :: u64
  rx_nombuf :: u64
  fdirmatch :: u64
  fdirmiss :: u64

text \<open>
  The array on the stack is uninitialised (\<^term>\<open>None\<close>); the driver fills the entries of the enabled
  ports, unless it does not know the port. The result of its call is not looked at.
\<close>

fun get_port_stats ::
  "(nat \<Rightarrow> rte_eth_stats option) \<Rightarrow> u32 \<Rightarrow> nat list \<Rightarrow> rte_eth_stats option list \<Rightarrow> rte_eth_stats option list option" where
  "get_port_stats rte_eth_stats_get port_mask [] stats = Some stats"
| "get_port_stats rte_eth_stats_get port_mask (port_id # ps) stats = do {
     en \<leftarrow> port_enabled port_mask port_id;
     if \<not> en then get_port_stats rte_eth_stats_get port_mask ps stats
     else do {
       old \<leftarrow> arr_get stats port_id;
       stats \<leftarrow> arr_set stats port_id (case rte_eth_stats_get port_id of Some st \<Rightarrow> Some st | None \<Rightarrow> old);
       get_port_stats rte_eth_stats_get port_mask ps stats
     }
   }"

text \<open>One of the three tables: a row for every enabled port. Printing an uninitialised entry is undefined.\<close>

fun port_rows ::
  "(rte_eth_stats \<Rightarrow> u64 list) \<Rightarrow> u32 \<Rightarrow> nat list \<Rightarrow> rte_eth_stats option list \<Rightarrow> (nat \<times> u64 list) list option" where
  "port_rows cols port_mask [] stats = Some []"
| "port_rows cols port_mask (port_id # ps) stats = do {
     en \<leftarrow> port_enabled port_mask port_id;
     if \<not> en then port_rows cols port_mask ps stats
     else do {
       entry \<leftarrow> arr_get stats port_id;
       st \<leftarrow> entry;
       rows \<leftarrow> port_rows cols port_mask ps stats;
       Some ((port_id, cols st) # rows)
     }
   }"

definition packet_cols :: "rte_eth_stats \<Rightarrow> u64 list" where
  "packet_cols st = [ipackets st, imissed st, ibytes st, opackets st, oerrors st, obytes st]"

definition error_cols :: "rte_eth_stats \<Rightarrow> u64 list" where
  "error_cols st = [ibadcrc st, ibadlen st, ierrors st, rx_nombuf st]"

definition fdir_cols :: "rte_eth_stats \<Rightarrow> u64 list" where
  "fdir_cols st = [fdirmatch st, fdirmiss st]"

definition print_port_stats ::
  "(nat \<Rightarrow> rte_eth_stats option) \<Rightarrow> 'd sys \<Rightarrow> (nat \<times> u64 list) list list option" where
  "print_port_stats rte_eth_stats_get s = do {
     let port_nb = unat (mi_port_nb (main_information s));
     let port_mask = mi_port_mask (main_information s);
     stats \<leftarrow> get_port_stats rte_eth_stats_get port_mask [0..<port_nb] (replicate port_nb None);
     packets \<leftarrow> port_rows packet_cols port_mask [0..<port_nb] stats;
     errors \<leftarrow> port_rows error_cols port_mask [0..<port_nb] stats;
     matches \<leftarrow> port_rows fdir_cols port_mask [0..<port_nb] stats;
     Some [packets, errors, matches]
   }"

section \<open>Logged statistics\<close>

definition BUFSIZE :: nat where "BUFSIZE = 512"

definition show_int :: "int \<Rightarrow> string" where
  "show_int v = (if v < 0 then CHR ''-'' # show_nat (nat (- v)) else show_nat (nat v))"

definition show_lu :: "u64 \<Rightarrow> string" where
  "show_lu w = show_nat (unat w)"

text \<open>The text that \<open>snprintf\<close> makes of one configuration, however long.\<close>

definition csv_line :: "u64 \<Rightarrow> nat \<Rightarrow> string \<Rightarrow> bridge_port_statistics \<Rightarrow> string" where
  "csv_line cumulative_tsc conf engine st =
     show_lu cumulative_tsc @ '', '' @ ''app'' @ '', '' @ show_int (pid st) @ '', '' @ show_nat conf @ '', '' @
     engine @ '', '' @ show_lu (tx st) @ '', '' @ show_lu (rx st) @ '', '' @ show_lu (filtered st) @ '', '' @
     show_lu (dropped st) @ [newline]"

text \<open>A zeroed buffer after \<open>snprintf\<close> has stored a text in it: at most all but the last byte.\<close>

definition snprintf_buffer :: "nat \<Rightarrow> string \<Rightarrow> string" where
  "snprintf_buffer bufsize l =
     take (bufsize - 1) l @ replicate (bufsize - min (bufsize - 1) (length l)) (CHR 0x00)"

text \<open>
  The environment of a call: whether the buffer can be allocated, and how many of the bytes given to
  \<open>fwrite\<close> reach the file.
\<close>

record stats_io =
  zmalloc_ok :: bool
  fwrite_count :: "string \<Rightarrow> nat"

fun write_rows ::
  "stats_io \<Rightarrow> u64 \<Rightarrow> 'd sys \<Rightarrow> nat list \<Rightarrow> string \<Rightarrow> (unit proc_outcome \<times> string) option" where
  "write_rows io cumulative_tsc s [] fp = Some (Return (), fp)"
| "write_rows io cumulative_tsc s (conf # confs) fp = do {
     st \<leftarrow> arr_get (sys_statistics s) conf;
     cfg \<leftarrow> arr_get (proc_config s) conf;
     let line = csv_line cumulative_tsc conf (pc_engine cfg) st;
     let retval = length line;
     if retval > BUFSIZE then Some (Exit 1, fp)
     else do {
       let out = take retval (snprintf_buffer BUFSIZE line);
       let n = fwrite_count io out;
       if n \<noteq> retval then Some (Exit 1, fp @ take n out)
       else write_rows io cumulative_tsc s confs (fp @ out)
     }
   }"

definition write_stats ::
  "stats_io \<Rightarrow> u64 \<Rightarrow> 'd sys \<Rightarrow> string \<Rightarrow> (unit proc_outcome \<times> string) option" where
  "write_stats io cumulative_tsc s fp =
     (if \<not> zmalloc_ok io then Some (Exit 1, fp)
      else write_rows io cumulative_tsc s [0..<nat (proc_config_nb (main_information s))] fp)"

section \<open>The tables of the devices\<close>

lemma get_port_stats_spec:
  assumes "\<forall>p\<in>set ps. p < 31 \<and> p < length stats"
  shows "\<exists>stats'. get_port_stats get m ps stats = Some stats' \<and> length stats' = length stats \<and>
    (\<forall>p\<in>set ps. bit m p \<longrightarrow> get p \<noteq> None \<longrightarrow> stats' ! p = get p) \<and>
    (\<forall>p. p \<notin> set ps \<longrightarrow> stats' ! p = stats ! p) \<and> (\<forall>p<length stats. stats ! p = get p \<longrightarrow> stats' ! p = get p)"
  using assms
proof (induction ps arbitrary: stats)
  case Nil
  then show ?case by simp
next
  case (Cons q ps)
  show ?case
  proof (cases "bit m q")
    case False
    then show ?thesis using Cons.IH [of stats] Cons.prems by (auto simp: port_enabled_eq)
  next
    case True
    let ?st = "stats[q := (case get q of Some st \<Rightarrow> Some st | None \<Rightarrow> stats ! q)]"
    from Cons.IH [of ?st] Cons.prems obtain st' where st': "get_port_stats get m ps ?st = Some st'"
      "length st' = length stats" "\<forall>p\<in>set ps. bit m p \<longrightarrow> get p \<noteq> None \<longrightarrow> st' ! p = get p"
      "\<forall>p. p \<notin> set ps \<longrightarrow> st' ! p = ?st ! p" "\<forall>p<length stats. ?st ! p = get p \<longrightarrow> st' ! p = get p" by auto
    have "get_port_stats get m (q # ps) stats = Some st'"
      using st'(1) True Cons.prems by (simp add: port_enabled_eq arr_get_def arr_set_def)
    moreover have "?st ! q = get q" if "get q \<noteq> None \<or> stats ! q = get q"
      using that Cons.prems by (auto split: option.splits)
    moreover have "?st ! p = stats ! p" if "p \<noteq> q" for p using that by simp
    ultimately show ?thesis
      using st'(2-5) Cons.prems
      by (intro exI [of _ st'] conjI ballI allI impI) (simp, blast, force, force, metis)
  qed
qed

lemma port_rows_spec:
  "\<forall>p\<in>set ps. p < 31 \<and> p < length stats \<and> (bit m p \<longrightarrow> stats ! p = Some (f p)) \<Longrightarrow>
     port_rows cols m ps stats = Some (map (\<lambda>p. (p, cols (f p))) (filter (bit m) ps))"
  by (induction ps) (auto simp: port_enabled_eq arr_get_def)

lemma print_port_stats_eq:
  assumes "unat (mi_port_nb (main_information s)) \<le> 31"
    "\<forall>p\<in>set (enabled_ports (mi_port_nb (main_information s)) (mi_port_mask (main_information s))). get p = Some (f p)"
  shows "print_port_stats get s = Some (map (\<lambda>cols. map (\<lambda>p. (p, cols (f p)))
      (enabled_ports (mi_port_nb (main_information s)) (mi_port_mask (main_information s))))
    [packet_cols, error_cols, fdir_cols])"
proof -
  let ?n = "unat (mi_port_nb (main_information s))" and ?m = "mi_port_mask (main_information s)"
  have "\<forall>p\<in>set [0..<?n]. p < 31 \<and> p < length (replicate ?n None)" using assms(1) by auto
  from get_port_stats_spec [OF this, of get ?m] obtain st where
    st: "get_port_stats get ?m [0..<?n] (replicate ?n None) = Some st" "length st = ?n"
    "\<forall>p\<in>set [0..<?n]. bit ?m p \<longrightarrow> get p \<noteq> None \<longrightarrow> st ! p = get p" by auto
  have "\<forall>p\<in>set [0..<?n]. p < 31 \<and> p < length st \<and> (bit ?m p \<longrightarrow> st ! p = Some (f p))"
    using st(2,3) assms by (auto simp: enabled_ports_def)
  from port_rows_spec [OF this] show ?thesis
    using st(1) by (simp add: print_port_stats_def Let_def enabled_ports_def)
qed

section \<open>Sums\<close>

definition stat_sum :: "(bridge_port_statistics \<Rightarrow> u64) \<Rightarrow> bridge_port_statistics list \<Rightarrow> u64" where
  "stat_sum f sts = sum_list (map f sts)"

lemma stat_sum_simps [simp]: "stat_sum f [] = 0" "stat_sum f (x # xs) = f x + stat_sum f xs"
  by (simp_all add: stat_sum_def)

lemma print_rows_eq:
  assumes "\<forall>c\<in>set confs. c < length stats"
  shows "print_rows stats confs t =
    Some (map (\<lambda>c. (pid (stats ! c), c, row_of (stats ! c))) confs,
          fold (\<lambda>c. add_totals (stats ! c)) confs t)"
  using assms by (induction confs arbitrary: t) (auto simp: arr_get_def)

lemma add_totals_fold:
  assumes "f_tx_b t = f_rx_b t - f_filtered_b t - f_dropped_b t"
  shows "fold add_totals sts t =
    t\<lparr>f_tx := f_tx t + stat_sum tx sts, f_rx := f_rx t + stat_sum rx sts,
      f_filtered := f_filtered t + stat_sum filtered sts, f_dropped := f_dropped t + stat_sum dropped sts,
      f_rx_b := f_rx_b t + stat_sum rx_b sts, f_filtered_b := f_filtered_b t + stat_sum filtered_b sts,
      f_dropped_b := f_dropped_b t + stat_sum dropped_b sts,
      f_tx_b := f_tx_b t + (stat_sum rx_b sts - stat_sum filtered_b sts - stat_sum dropped_b sts)\<rparr>"
  using assms
proof (induction sts arbitrary: t)
  case Nil
  then show ?case by simp
next
  case (Cons st sts)
  have "f_tx_b (add_totals st t) =
      f_rx_b (add_totals st t) - f_filtered_b (add_totals st t) - f_dropped_b (add_totals st t)"
    by (simp add: add_totals_def Let_def)
  from Cons.IH [OF this] Cons.prems show ?case
    by (cases t) (simp add: add_totals_def Let_def algebra_simps)
qed

section \<open>The length of a line\<close>

lemma length_show_lu: "length (show_lu w) \<le> 20"
proof -
  have "unat w < 2 ^ 64" using unsigned_less [of w] by simp
  also have "(2 :: nat) ^ 64 \<le> 10 ^ 20" by simp
  finally show ?thesis unfolding show_lu_def by (rule length_show_nat) simp
qed

lemma length_show_int:
  assumes "- (2 ^ 31) \<le> v" "v < 2 ^ 31"
  shows "length (show_int v) \<le> 11"
proof -
  have "length (show_nat n) \<le> 10" if "n \<le> 2 ^ 31" for n
    by (rule length_show_nat) (use that in \<open>simp_all add: le_less_trans\<close>)
  moreover have "nat (- v) \<le> 2 ^ 31" "nat v \<le> 2 ^ 31" using assms by simp_all
  ultimately have "length (show_nat (nat (- v))) \<le> 10" "length (show_nat (nat v)) \<le> 10" by blast+
  then show ?thesis by (simp add: show_int_def)
qed

lemma csv_line_fits:
  assumes "length engine < CONFIG_MAX_ENGINE_LEN" "conf < 2 ^ 32" "- (2 ^ 31) \<le> pid st" "pid st < 2 ^ 31"
  shows "length (csv_line t conf engine st) < BUFSIZE"
proof -
  have "length (show_nat conf) \<le> 10"
    by (rule length_show_nat) (use assms(2) in \<open>simp_all add: less_le_trans\<close>)
  moreover note length_show_int [OF assms(3,4)] length_show_lu [of t] length_show_lu [of "tx st"]
    length_show_lu [of "rx st"] length_show_lu [of "filtered st"] length_show_lu [of "dropped st"]
  ultimately show ?thesis
    using assms(1) by (simp add: csv_line_def BUFSIZE_def CONFIG_MAX_ENGINE_LEN_def)
qed

lemma snprintf_buffer_take:
  "length l < n \<Longrightarrow> take (length l) (snprintf_buffer n l) = l"
  by (simp add: snprintf_buffer_def)

text \<open>What \<open>write_stats\<close> needs of a configuration: entries in both tables, of the sizes C gives them.\<close>

definition row_ok :: "'d sys \<Rightarrow> nat \<Rightarrow> bool" where
  "row_ok s c \<longleftrightarrow> c < length (sys_statistics s) \<and> c < length (proc_config s) \<and> c < 2 ^ 32 \<and>
     length (pc_engine (proc_config s ! c)) < CONFIG_MAX_ENGINE_LEN \<and>
     - (2 ^ 31) \<le> pid (sys_statistics s ! c) \<and> pid (sys_statistics s ! c) < 2 ^ 31"

definition row_text :: "u64 \<Rightarrow> 'd sys \<Rightarrow> nat \<Rightarrow> string" where
  "row_text t s c = csv_line t c (pc_engine (proc_config s ! c)) (sys_statistics s ! c)"

lemma write_rows_step:
  assumes "row_ok s c"
  shows "write_rows io t s (c # cs) fp =
    (if fwrite_count io (row_text t s c) = length (row_text t s c)
     then write_rows io t s cs (fp @ row_text t s c)
     else Some (Exit 1, fp @ take (fwrite_count io (row_text t s c)) (row_text t s c)))"
proof -
  have "length (row_text t s c) < BUFSIZE"
    using assms unfolding row_text_def row_ok_def by (intro csv_line_fits) simp_all
  then show ?thesis
    using assms by (simp add: arr_get_def row_ok_def row_text_def Let_def snprintf_buffer_take)
qed

lemma write_rows_complete:
  assumes "\<forall>c\<in>set cs. row_ok s c" "\<forall>l. fwrite_count io l = length l"
  shows "write_rows io t s cs fp = Some (Return (), fp @ concat (map (row_text t s) cs))"
  using assms
proof (induction cs arbitrary: fp)
  case Nil
  then show ?case by simp
next
  case (Cons c cs)
  then show ?case using write_rows_step [of s c io t cs fp] by simp
qed

section \<open>Properties\<close>

definition demo_stats :: "unit sys" where
  "demo_stats = (common demo_master)
     \<lparr>sys_statistics := [\<lparr>tx = 1, rx = 3, filtered = 1, dropped = 1, rx_b = 300, filtered_b = 100,
        dropped_b = 100, pid = 42\<rparr>],
      main_information := (main_information (common demo_master))\<lparr>proc_config_nb := 1\<rparr>\<rparr>"



text \<open>
  The printed statistics are consistent: there is one row for every configuration, in order,
  with its counters, and the aggregate is the sum over all configurations, for the bytes sent as for
  the others, modulo \<open>2 ^ 64\<close> before the division to the printed unit.
\<close>

lemma print_stats_totals:
  assumes "length (sys_statistics s) = nat (proc_config_nb (main_information s))"
  shows "print_stats s = Some
    (map (\<lambda>c. (pid (sys_statistics s ! c), c, row_of (sys_statistics s ! c)))
       [0..<nat (proc_config_nb (main_information s))],
     in_mbytes \<lparr>f_tx = stat_sum tx (sys_statistics s),
       f_tx_b = stat_sum (\<lambda>st. rx_b st - filtered_b st - dropped_b st) (sys_statistics s),
       f_rx = stat_sum rx (sys_statistics s), f_rx_b = stat_sum rx_b (sys_statistics s),
       f_filtered = stat_sum filtered (sys_statistics s), f_filtered_b = stat_sum filtered_b (sys_statistics s),
       f_dropped = stat_sum dropped (sys_statistics s), f_dropped_b = stat_sum dropped_b (sys_statistics s)\<rparr>)"
proof -
  let ?n = "nat (proc_config_nb (main_information s))"
  let ?t = "fold (\<lambda>c. add_totals (sys_statistics s ! c)) [0..<?n] zero_figures"
  have "map ((!) (sys_statistics s)) [0..<?n] = sys_statistics s"
    using assms by (simp add: map_nth flip: assms)
  then have t: "?t = fold add_totals (sys_statistics s) zero_figures"
    by (metis (no_types, lifting) fold_map comp_def fold_cong)
  have "stat_sum (\<lambda>st. rx_b st - filtered_b st - dropped_b st) sts =
      stat_sum rx_b sts - stat_sum filtered_b sts - stat_sum dropped_b sts" for sts
    by (induction sts) (simp_all add: algebra_simps)
  then show ?thesis
    using assms print_rows_eq [of "[0..<?n]" "sys_statistics s" zero_figures] t
    by (simp add: print_stats_def add_totals_fold zero_figures_def)
qed

end
