(* ===== verification/Flib.thy ===== *)
theory Flib
  imports System_State
begin

text \<open>
  The fork library \<^verbatim>\<open>src/flib.c\<close>: the table of the functions and processes that run on the
  cores, the launching and the end of a slave, and the allocation of core numbers to floating
  processes. The allocation is also modelled as a step relation in which any number of processes
  scan the shared table and claim an entry with a compare-and-set.
\<close>

section \<open>Operations\<close>

datatype slave_stat = ST_FREEZE | ST_IDLE | ST_RUN | ST_ZOMBIE

text \<open>
  \<open>lcore_id_init\<close> and \<open>flib_init\<close>: \<open>zmalloc1\<close> and \<open>zmalloc2\<close> say whether the two allocations
  succeed; a null map ends the process with a panic.
\<close>

definition lcore_id_init :: "eal \<Rightarrow> bool \<Rightarrow> 'd sys \<Rightarrow> int proc_outcome \<times> 'd sys" where
  "lcore_id_init e zmalloc s =
     (if \<not> zmalloc then (Exit 134, s)
      else (Return 0, s\<lparr>lcore_cfg :=
        map (\<lambda>i. if rte_lcore_is_enabled e i then 1 else 0) [0..<RTE_MAX_LCORE e]\<rparr>))"

definition flib_init :: "eal \<Rightarrow> bool \<Rightarrow> bool \<Rightarrow> 'd sys \<Rightarrow> int proc_outcome \<times> 'd sys" where
  "flib_init e zmalloc1 zmalloc2 s =
     (if \<not> zmalloc1 then (Return (- 1), s)
      else let s = s\<lparr>core_cfg := replicate (RTE_MAX_LCORE e)
                       \<lparr>ls_pid = 0, ls_f = None, ls_arg = 0, ls_cb_fn = None\<rparr>\<rparr>
        in case lcore_id_init e zmalloc2 s of
             (Return r, s) \<Rightarrow> if r \<noteq> 0 then (Return (- 1), s) else (Return 0, s)
           | (Exit n, s) \<Rightarrow> (Exit n, s))"

text \<open>The scan for an unused core number: the result is the length of the table if there is none.\<close>

function scan_free :: "nat list \<Rightarrow> nat \<Rightarrow> nat" where
  "scan_free cfg i =
     (if i < length cfg then (if cfg ! i = 0 then i else scan_free cfg (Suc i)) else i)"
  by pat_completeness auto
termination
  by (relation "measure (\<lambda>(cfg, i). length cfg - i)") auto

text \<open>
  \<open>flib_assign_lcore_id\<close> with no other process in between (the compare-and-set then succeeds at
  once). The first argument is the caller's core number; the result carries the new one.
\<close>

definition flib_assign_lcore_id :: "nat \<Rightarrow> 'd sys \<Rightarrow> (int \<times> nat \<times> 'd sys)" where
  "flib_assign_lcore_id lcore s =
     (if lcore \<noteq> 0 then (- 1, lcore, s)
      else let i = scan_free (lcore_cfg s) 1
        in if i \<ge> length (lcore_cfg s) then (- 1, lcore, s)
           else (int i, i, s\<lparr>lcore_cfg := (lcore_cfg s)[i := 1]\<rparr>))"

definition flib_free_lcore_id :: "eal \<Rightarrow> nat \<Rightarrow> 'd sys \<Rightarrow> 'd sys option" where
  "flib_free_lcore_id e lcore s =
     (if lcore \<ge> RTE_MAX_LCORE e \<or> lcore = 0 \<or> rte_lcore_is_enabled e lcore then Some s
      else do {
        a \<leftarrow> arr_set (lcore_cfg s) lcore 0;
        Some (s\<lparr>lcore_cfg := a\<rparr>)
      })"

definition upd_core :: "nat \<Rightarrow> (lcore_stat \<Rightarrow> lcore_stat) \<Rightarrow> 'd sys \<Rightarrow> 'd sys option" where
  "upd_core i f s = do {
     c \<leftarrow> arr_get (core_cfg s) i;
     a \<leftarrow> arr_set (core_cfg s) i (f c);
     Some (s\<lparr>core_cfg := a\<rparr>)
   }"

definition flib_register_slave_exit_notify ::
  "eal \<Rightarrow> nat \<Rightarrow> fn_ptr option \<Rightarrow> 'd sys \<Rightarrow> (int \<times> 'd sys) option" where
  "flib_register_slave_exit_notify e slave_id cb s =
     (if cb = None then Some (- EFAULT, s)
      else if \<not> rte_lcore_is_enabled e slave_id then Some (- ENOENT, s)
      else do {
        s \<leftarrow> upd_core slave_id (\<lambda>c. c\<lparr>ls_cb_fn := cb\<rparr>) s;
        Some (0, s)
      })"

definition flib_query_slave_status :: "eal \<Rightarrow> nat \<Rightarrow> 'd sys \<Rightarrow> slave_stat option" where
  "flib_query_slave_status e slave_id s =
     (if \<not> rte_lcore_is_enabled e slave_id then Some ST_FREEZE
      else do {
        c \<leftarrow> arr_get (core_cfg s) slave_id;
        Some (if ls_pid c \<noteq> 0 then ST_RUN else ST_IDLE)
      })"

definition flib_remote_launch ::
  "'d dpdk_ops \<Rightarrow> eal \<Rightarrow> fn_ptr option \<Rightarrow> nat \<Rightarrow> nat \<Rightarrow> 'd sys \<Rightarrow> (int \<times> 'd sys) option" where
  "flib_remote_launch ops e f arg slave_id s =
     (if f = None then Some (- 1, s)
      else if \<not> rte_lcore_is_enabled e slave_id then Some (- 1, s)
      else do {
        let s = s\<lparr>dpdk := rte_eal_wait_lcore ops (dpdk s) slave_id\<rparr>;
        s \<leftarrow> upd_core slave_id (\<lambda>c. c\<lparr>ls_f := f, ls_arg := arg\<rparr>) s;
        let (r, d) = rte_eal_remote_launch ops (dpdk s) slave_id;
        Some (r, s\<lparr>dpdk := d\<rparr>)
      })"

definition flib_remote_first_launch ::
  "'d dpdk_ops \<Rightarrow> eal \<Rightarrow> fn_ptr option \<Rightarrow> nat \<Rightarrow> nat \<Rightarrow> 'd sys \<Rightarrow> (int \<times> 'd sys) option" where
  "flib_remote_first_launch ops e f arg slave_id s =
     (if f = None then Some (- 1, s)
      else if \<not> rte_lcore_is_enabled e slave_id then Some (- 1, s)
      else do {
        s \<leftarrow> upd_core slave_id (\<lambda>c. c\<lparr>ls_f := f, ls_arg := arg\<rparr>) s;
        let (r, d) = rte_eal_remote_launch ops (dpdk s) slave_id;
        Some (r, s\<lparr>dpdk := d\<rparr>)
      })"

text \<open>The loop over the slaves: the enabled cores other than the master core.\<close>

definition slave_lcores :: "eal \<Rightarrow> nat list" where
  "slave_lcores e =
     filter (\<lambda>i. rte_lcore_is_enabled e i \<and> i \<noteq> rte_get_master_lcore e) [0..<RTE_MAX_LCORE e]"

fun set_launch :: "fn_ptr option \<Rightarrow> nat \<Rightarrow> nat list \<Rightarrow> 'd sys \<Rightarrow> 'd sys option" where
  "set_launch f arg [] s = Some s"
| "set_launch f arg (i # is) s = do {
     s \<leftarrow> upd_core i (\<lambda>c. c\<lparr>ls_arg := arg, ls_f := f\<rparr>) s;
     set_launch f arg is s
   }"

definition flib_mp_remote_launch ::
  "'d dpdk_ops \<Rightarrow> eal \<Rightarrow> fn_ptr option \<Rightarrow> nat \<Rightarrow> 'd sys \<Rightarrow> (int \<times> 'd sys) option" where
  "flib_mp_remote_launch ops e f arg s = do {
     s \<leftarrow> set_launch f arg (slave_lcores e) s;
     let (r, d) = rte_eal_mp_remote_launch ops (dpdk s);
     Some (r, s\<lparr>dpdk := d\<rparr>)
   }"

text \<open>
  \<open>lcore_func\<close>, the thread of the master that starts a slave process and waits for its end.
  \<open>fork\<close> is the result of the system call, \<open>stat\<close> the status \<open>waitpid\<close> stores, \<open>others\<close> what
  the slave and the other threads do to the shared state in between, \<open>run\<close> the call of a
  function pointer in this thread and \<open>cb\<close> the call of a callback. The child runs the function
  in its own process (\<open>Child\<close>).
\<close>

datatype 'd lcore_result = Done int "'d sys" | Child fn_ptr nat

definition lcore_func ::
  "eal \<Rightarrow> nat \<Rightarrow> int \<Rightarrow> int \<Rightarrow> ('d sys \<Rightarrow> 'd sys) \<Rightarrow>
   (fn_ptr \<Rightarrow> nat \<Rightarrow> 'd sys \<Rightarrow> (int \<times> 'd sys) option) \<Rightarrow>
   (fn_ptr \<Rightarrow> nat \<Rightarrow> int \<Rightarrow> 'd sys \<Rightarrow> 'd sys option) \<Rightarrow> 'd sys \<Rightarrow> 'd lcore_result option" where
  "lcore_func e slave_id fork stat others run cb s = do {
     cfg \<leftarrow> arr_get (core_cfg s) slave_id;
     if rte_get_master_lcore e = slave_id then do {
       f \<leftarrow> ls_f cfg;
       (r, s) \<leftarrow> run f (ls_arg cfg) s;
       Some (Done r s)
     }
     else if fork = - 1 then Some (Done (- 1) s)
     else if fork = 0 then do {
       f \<leftarrow> ls_f cfg;
       Some (Child f (ls_arg cfg))
     }
     else do {
       s \<leftarrow> upd_core slave_id (\<lambda>c. c\<lparr>ls_pid := fork\<rparr>) s;
       let s = others s;
       s \<leftarrow> upd_core slave_id (\<lambda>c. c\<lparr>ls_pid := 0, ls_f := None, ls_arg := 0\<rparr>) s;
       cfg \<leftarrow> arr_get (core_cfg s) slave_id;
       s \<leftarrow> (case ls_cb_fn cfg of None \<Rightarrow> Some s | Some f \<Rightarrow> cb f slave_id stat s);
       Some (Done stat s)
     }
   }"

text \<open>
  The child: it asks to be told when its parent ends (\<open>prctl_r\<close> and \<open>sigaction_r\<close> are the results of
  the two calls), makes itself a secondary process if there is a configuration of DPDK, runs the function
  and ends with the low byte of its result. The handler for the end of the parent ends the process.
\<close>

record child_setup =
  watches_parent :: bool
  process_secondary :: bool

definition sighand_parent_exit :: "int \<Rightarrow> int proc_outcome" where
  "sighand_parent_exit sig = Exit 0"

definition slave_proc_func ::
  "int \<Rightarrow> int \<Rightarrow> bool \<Rightarrow> (child_setup \<Rightarrow> fn_ptr \<Rightarrow> nat \<Rightarrow> 'd sys \<Rightarrow> (int \<times> 'd sys) option) \<Rightarrow>
   nat \<Rightarrow> 'd sys \<Rightarrow> (unit proc_outcome \<times> 'd sys) option" where
  "slave_proc_func prctl_r sigaction_r has_config run slave_id s = do {
     cfg \<leftarrow> arr_get (core_cfg s) slave_id;
     let setup = \<lparr>watches_parent = (prctl_r = 0 \<and> sigaction_r = 0), process_secondary = has_config\<rparr>;
     f \<leftarrow> ls_f cfg;
     (r, s) \<leftarrow> run setup f (ls_arg cfg) s;
     Some (Exit (r mod 256), s)
   }"

section \<open>Concurrent allocation of core numbers\<close>

text \<open>
  What one process does in \<open>flib_assign_lcore_id\<close> and \<open>flib_free_lcore_id\<close>, one access to the
  shared table at a time. \<open>Cas i\<close> is the point between the scan that found entry \<open>i\<close> unused and
  the compare-and-set.
\<close>

datatype assign_pc = Idle | Scan nat | Cas nat | Holds nat | Failed

record alloc_state =
  cfg_table :: "nat list"
  pcs :: "nat \<Rightarrow> assign_pc"

text \<open>The entry that \<open>flib_free_lcore_id\<close> writes, if any.\<close>

definition free_entry :: "eal \<Rightarrow> nat \<Rightarrow> nat list \<Rightarrow> nat list" where
  "free_entry e i t =
     (if i \<ge> RTE_MAX_LCORE e \<or> i = 0 \<or> rte_lcore_is_enabled e i then t else t[i := 0])"

definition goto :: "nat \<Rightarrow> assign_pc \<Rightarrow> alloc_state \<Rightarrow> alloc_state" where
  "goto p c a = a\<lparr>pcs := (pcs a)(p := c)\<rparr>"

inductive alloc_step :: "eal \<Rightarrow> alloc_state \<Rightarrow> alloc_state \<Rightarrow> bool" for e where
  start: "pcs a p = Idle \<Longrightarrow> alloc_step e a (goto p (Scan 1) a)"
| used: "pcs a p = Scan i \<Longrightarrow> i < length (cfg_table a) \<Longrightarrow> cfg_table a ! i \<noteq> 0 \<Longrightarrow>
    alloc_step e a (goto p (Scan (Suc i)) a)"
| unused: "pcs a p = Scan i \<Longrightarrow> i < length (cfg_table a) \<Longrightarrow> cfg_table a ! i = 0 \<Longrightarrow>
    alloc_step e a (goto p (Cas i) a)"
| exhausted: "pcs a p = Scan i \<Longrightarrow> length (cfg_table a) \<le> i \<Longrightarrow> alloc_step e a (goto p Failed a)"
| cas_ok: "pcs a p = Cas i \<Longrightarrow> cfg_table a ! i = 0 \<Longrightarrow>
    alloc_step e a (goto p (Holds i) (a\<lparr>cfg_table := (cfg_table a)[i := 1]\<rparr>))"
| cas_fail: "pcs a p = Cas i \<Longrightarrow> cfg_table a ! i \<noteq> 0 \<Longrightarrow> alloc_step e a (goto p (Scan 1) a)"
| release: "pcs a p = Holds i \<Longrightarrow>
    alloc_step e a (goto p Idle (a\<lparr>cfg_table := free_entry e i (cfg_table a)\<rparr>))"

inductive_cases alloc_stepE: "alloc_step e a b"

text \<open>The table \<open>lcore_id_init\<close> leaves, with every process idle.\<close>

definition alloc_init :: "eal \<Rightarrow> alloc_state" where
  "alloc_init e = \<lparr>cfg_table = map (\<lambda>i. if rte_lcore_is_enabled e i then 1 else 0) [0..<RTE_MAX_LCORE e],
                   pcs = (\<lambda>_. Idle)\<rparr>"

text \<open>
  The invariant: a held number is in range, belongs to no pinned core and is marked as used; no
  number is held twice; pinned cores are marked as used.
\<close>

definition alloc_inv :: "eal \<Rightarrow> alloc_state \<Rightarrow> bool" where
  "alloc_inv e a \<longleftrightarrow>
     length (cfg_table a) = RTE_MAX_LCORE e \<and>
     (\<forall>i < RTE_MAX_LCORE e. rte_lcore_is_enabled e i \<longrightarrow> cfg_table a ! i = 1) \<and>
     (\<forall>p i. pcs a p = Scan i \<longrightarrow> 0 < i) \<and>
     (\<forall>p i. pcs a p = Cas i \<longrightarrow> 0 < i \<and> i < RTE_MAX_LCORE e) \<and>
     (\<forall>p i. pcs a p = Holds i \<longrightarrow>
        0 < i \<and> i < RTE_MAX_LCORE e \<and> cfg_table a ! i = 1 \<and> \<not> rte_lcore_is_enabled e i) \<and>
     (\<forall>p p' i. pcs a p = Holds i \<longrightarrow> pcs a p' = Holds i \<longrightarrow> p = p')"

lemma alloc_inv_init: "alloc_inv e (alloc_init e)"
  by (simp add: alloc_inv_def alloc_init_def)

text \<open>A process that moves without touching the table and without taking a number.\<close>

lemma alloc_inv_goto:
  assumes "alloc_inv e a" "\<And>i. c = Scan i \<Longrightarrow> 0 < i"
    "\<And>i. c = Cas i \<Longrightarrow> 0 < i \<and> i < RTE_MAX_LCORE e" "\<And>i. c \<noteq> Holds i"
  shows "alloc_inv e (goto p c a)"
  using assms unfolding alloc_inv_def goto_def by (simp split: if_splits)

lemma alloc_inv_cas:
  assumes inv: "alloc_inv e a" and pc: "pcs a p = Cas i" and z: "cfg_table a ! i = 0"
  shows "alloc_inv e (goto p (Holds i) (a\<lparr>cfg_table := (cfg_table a)[i := 1]\<rparr>))"
proof -
  have i: "0 < i" "i < RTE_MAX_LCORE e" "length (cfg_table a) = RTE_MAX_LCORE e"
    using inv pc by (auto simp: alloc_inv_def)
  have dis: "\<not> rte_lcore_is_enabled e i" and free: "pcs a q \<noteq> Holds i" for q
    using inv z i by (force simp: alloc_inv_def)+
  show ?thesis
    using inv i dis free unfolding alloc_inv_def goto_def
    by (simp add: nth_list_update split: if_splits) blast
qed

lemma alloc_inv_release:
  assumes inv: "alloc_inv e a" and pc: "pcs a p = Holds i"
  shows "alloc_inv e (goto p Idle (a\<lparr>cfg_table := free_entry e i (cfg_table a)\<rparr>))"
proof -
  have i: "0 < i" "i < RTE_MAX_LCORE e" "\<not> rte_lcore_is_enabled e i"
    "length (cfg_table a) = RTE_MAX_LCORE e"
    using inv pc by (auto simp: alloc_inv_def)
  have other: "j \<noteq> i" if "q \<noteq> p" "pcs a q = Holds j" for q j
    using inv pc that unfolding alloc_inv_def by blast
  show ?thesis
    using inv i other unfolding alloc_inv_def goto_def free_entry_def
    by (simp add: nth_list_update split: if_splits) metis
qed

lemma alloc_inv_step: "alloc_step e a b \<Longrightarrow> alloc_inv e a \<Longrightarrow> alloc_inv e b"
proof (induction rule: alloc_step.induct)
  case (unused a p i)
  then have "0 < i" "i < RTE_MAX_LCORE e" unfolding alloc_inv_def by auto
  then show ?case using unused by (intro alloc_inv_goto) auto
qed (auto intro: alloc_inv_goto alloc_inv_cas alloc_inv_release simp del: One_nat_def)

lemma alloc_inv_reachable: "(alloc_step e)\<^sup>*\<^sup>* (alloc_init e) a \<Longrightarrow> alloc_inv e a"
  by (induction rule: rtranclp_induct) (auto intro: alloc_inv_init alloc_inv_step)

section \<open>The sequential allocation\<close>

declare scan_free.simps [simp del]

lemma scan_free_spec:
  "i \<le> scan_free t i \<and> (\<forall>j. i \<le> j \<longrightarrow> j < scan_free t i \<longrightarrow> j < length t \<longrightarrow> t ! j \<noteq> 0) \<and>
   (scan_free t i < length t \<longrightarrow> t ! scan_free t i = 0)"
proof (induction t i rule: scan_free.induct)
  case (1 t i)
  show ?case
  proof (cases "i < length t \<and> t ! i \<noteq> 0")
    case True
    with 1 have IH: "Suc i \<le> scan_free t (Suc i)"
      "\<forall>j. Suc i \<le> j \<longrightarrow> j < scan_free t (Suc i) \<longrightarrow> j < length t \<longrightarrow> t ! j \<noteq> 0"
      "scan_free t (Suc i) < length t \<longrightarrow> t ! scan_free t (Suc i) = 0"
      by simp_all
    have "t ! j \<noteq> 0" if "i \<le> j" "j < scan_free t (Suc i)" "j < length t" for j
      using that IH(2) True by (cases "j = i") auto
    then show ?thesis using True IH by (simp add: scan_free.simps [of t i])
  next
    case False
    then show ?thesis by (auto simp: scan_free.simps [of t i])
  qed
qed

text \<open>The scan is a run of the step relation.\<close>

definition scan_end :: "nat list \<Rightarrow> nat \<Rightarrow> assign_pc" where
  "scan_end t i = (if scan_free t i < length t then Cas (scan_free t i) else Failed)"

lemma goto_simps [simp]:
  "cfg_table (goto p c a) = cfg_table a" "pcs (goto p c a) p = c"
  "goto p c (goto p c' a) = goto p c a"
  by (simp_all add: goto_def)

lemma scan_run: "pcs a p = Scan i \<Longrightarrow> (alloc_step e)\<^sup>*\<^sup>* a (goto p (scan_end (cfg_table a) i) a)"
proof (induction "length (cfg_table a) - i" arbitrary: i a)
  case 0
  then have "scan_end (cfg_table a) i = Failed"
    by (simp add: scan_end_def scan_free.simps [of _ i])
  then show ?case
    using alloc_step.exhausted [of a p i e] 0 by simp
next
  case (Suc n)
  then have i: "i < length (cfg_table a)" by simp
  show ?case
  proof (cases "cfg_table a ! i = 0")
    case True
    then have "scan_end (cfg_table a) i = Cas i"
      using i by (simp add: scan_end_def scan_free.simps [of _ i])
    then show ?thesis using alloc_step.unused [of a p i e] Suc.prems i True by simp
  next
    case False
    let ?a = "goto p (Scan (Suc i)) a"
    have "alloc_step e a ?a" using Suc.prems i False by (rule alloc_step.used)
    moreover have "(alloc_step e)\<^sup>*\<^sup>* ?a (goto p (scan_end (cfg_table ?a) (Suc i)) ?a)"
      using Suc.hyps(2) by (intro Suc.hyps(1)) simp_all
    moreover have "scan_end (cfg_table a) i = scan_end (cfg_table a) (Suc i)"
      using i False by (simp add: scan_end_def scan_free.simps [of _ i])
    ultimately show ?thesis by (simp add: converse_rtranclp_into_rtranclp)
  qed
qed

lemma assign_run:
  assumes "pcs a p = Idle" "lcore_cfg s = cfg_table a" "flib_assign_lcore_id 0 s = (r, l, s')"
  shows "\<exists>a'. (alloc_step e)\<^sup>*\<^sup>* a a' \<and> cfg_table a' = lcore_cfg s' \<and>
    pcs a' p = (if r = - 1 then Failed else Holds (nat r))"
proof -
  let ?i = "scan_free (cfg_table a) 1"
  let ?a1 = "goto p (Scan 1) a"
  let ?a2 = "goto p (scan_end (cfg_table a) 1) a"
  have a1: "alloc_step e a ?a1" using assms(1) by (rule alloc_step.start)
  have "(alloc_step e)\<^sup>*\<^sup>* ?a1 ?a2"
    using scan_run [of ?a1 p 1 e] by simp
  with a1 have run: "(alloc_step e)\<^sup>*\<^sup>* a ?a2" by (rule converse_rtranclp_into_rtranclp)
  show ?thesis
  proof (cases "?i < length (cfg_table a)")
    case True
    then have z: "cfg_table a ! ?i = 0" using scan_free_spec [of 1 "cfg_table a"] by simp
    let ?a3 = "goto p (Holds ?i) (?a2\<lparr>cfg_table := (cfg_table ?a2)[?i := 1]\<rparr>)"
    have "alloc_step e ?a2 ?a3"
      using True z by (intro alloc_step.cas_ok) (simp_all add: scan_end_def)
    with run have "(alloc_step e)\<^sup>*\<^sup>* a ?a3" by (rule rtranclp.rtrancl_into_rtrancl)
    moreover have "r = int ?i" "s' = s\<lparr>lcore_cfg := (lcore_cfg s)[?i := 1]\<rparr>"
      using assms(2,3) True by (auto simp: flib_assign_lcore_id_def Let_def)
    ultimately show ?thesis
      using assms(2) by (intro exI [of _ ?a3]) simp
  next
    case False
    then have "r = - 1" "s' = s" using assms(2,3) by (auto simp: flib_assign_lcore_id_def Let_def)
    then show ?thesis
      using run False assms(2) by (intro exI [of _ ?a2]) (simp add: scan_end_def)
  qed
qed

section \<open>Properties\<close>

definition demo_eal :: eal where
  "demo_eal = \<lparr>RTE_MAX_LCORE = 4, rte_lcore_is_enabled = (\<lambda>i. i < 2), rte_get_master_lcore = 0\<rparr>"

definition demo_sys :: "'d \<Rightarrow> 'd sys" where
  "demo_sys d = \<lparr>lcore_resource = replicate 4 \<lparr>lr_enabled = 1, lr_flags = 0, lr_config_id = 0,
       lr_lcore_id = 0, lr_pair_id = 0, lr_ring_name = [[], []], lr_ring = [None, None]\<rparr>,
     proc_config = replicate 4 \<lparr>pc_enabled = 0, pc_used = 0, pc_port_rx = 0, pc_port_tx = 0,
       pc_queue_rx = 0, pc_queue_tx = 0, pc_engine = [], pc_args = [], pc_lcore_id = 0\<rparr>,
     main_information = \<lparr>mi_port_nb = 0, mi_port_nb_enabled = 0, mi_port_mask = 0, float_proc = 1,
       proc_config_nb = 0, proc_config_used_nb = 0, config_file_name = [], mi_fdir = 0,
       fdir_file_name = [], main_id = 0\<rparr>,
     sys_statistics = [], mapping_id = replicate 4 INVALID_MAPPING_ID, lcore_cfg = [1, 1, 0, 0],
     core_cfg = replicate 4 \<lparr>ls_pid = 0, ls_f = None, ls_arg = 0, ls_cb_fn = None\<rparr>,
     msg_mem = (\<lambda>_. \<lparr>cmd = START, msg = []\<rparr>), dpdk = d\<rparr>"

text \<open>
  C14: Core numbers are handed out exclusively. However many processes run
  \<open>flib_assign_lcore_id\<close> and \<open>flib_free_lcore_id\<close> at once, and however their accesses to the
  shared table interleave, no two processes hold the same core number, a held number is in
  range, is not 0 and is not that of a pinned core, and its entry in the table is marked as
  used.
\<close>

theorem lcore_id_exclusive:
  assumes "(alloc_step e)\<^sup>*\<^sup>* (alloc_init e) a" "pcs a p = Holds i"
  shows "(\<forall>p'. pcs a p' = Holds i \<longrightarrow> p' = p) \<and> 0 < i \<and> i < RTE_MAX_LCORE e \<and>
    \<not> rte_lcore_is_enabled e i \<and> cfg_table a ! i = 1"
  using alloc_inv_reachable [OF assms(1)] assms(2) unfolding alloc_inv_def by blast

theorem lcore_id_exclusive_witness:
  "\<exists>a. (alloc_step demo_eal)\<^sup>*\<^sup>* (alloc_init demo_eal) a \<and> pcs a 7 = Holds 2 \<and>
     (\<forall>p'. pcs a p' = Holds 2 \<longrightarrow> p' = 7) \<and> \<not> rte_lcore_is_enabled demo_eal 2 \<and>
     cfg_table a ! 2 = 1"
proof -
  have t: "cfg_table (alloc_init demo_eal) = [1, 1, 0, 0]" "pcs (alloc_init demo_eal) 7 = Idle"
    by (simp_all add: alloc_init_def demo_eal_def upt_rec)
  have "scan_free [1, 1, 0, 0] 1 = 2" by (simp add: scan_free.simps numeral_2_eq_2)
  then have "flib_assign_lcore_id 0 (demo_sys ()) =
      (2, 2, (demo_sys ())\<lparr>lcore_cfg := [1, 1, 1, 0]\<rparr>)"
    by (simp add: flib_assign_lcore_id_def demo_sys_def)
  then obtain a where a: "(alloc_step demo_eal)\<^sup>*\<^sup>* (alloc_init demo_eal) a" "pcs a 7 = Holds 2"
    using assign_run [of "alloc_init demo_eal" 7 "demo_sys ()" 2 2 _ demo_eal] t
    by (auto simp: demo_sys_def)
  then show ?thesis using lcore_id_exclusive [OF a] by blast
qed

text \<open>
  C32: The sequential allocator implements that relation: a call by an unassigned process is a
  run of its steps, which ends with the process holding the number returned, or failed. It
  returns the smallest unused number from 1 on and marks exactly that entry; it returns
  \<open>- 1\<close>, and changes nothing, exactly when every entry from 1 on is in use.
\<close>

theorem flib_assign_refines:
  assumes "pcs a p = Idle" "lcore_cfg s = cfg_table a" "flib_assign_lcore_id 0 s = (r, l, s')"
  shows "(\<exists>a'. (alloc_step e)\<^sup>*\<^sup>* a a' \<and> cfg_table a' = lcore_cfg s' \<and>
      pcs a' p = (if r = - 1 then Failed else Holds (nat r))) \<and>
    (r = - 1 \<longleftrightarrow> (\<forall>i. 1 \<le> i \<longrightarrow> i < length (lcore_cfg s) \<longrightarrow> lcore_cfg s ! i \<noteq> 0)) \<and>
    (if r = - 1 then s' = s \<and> l = 0
     else l = nat r \<and> 1 \<le> l \<and> l < length (lcore_cfg s) \<and> lcore_cfg s ! l = 0 \<and>
       (\<forall>i. 1 \<le> i \<longrightarrow> i < l \<longrightarrow> lcore_cfg s ! i \<noteq> 0) \<and>
       s' = s\<lparr>lcore_cfg := (lcore_cfg s)[l := 1]\<rparr>)"
proof -
  let ?i = "scan_free (lcore_cfg s) 1"
  have spec: "1 \<le> ?i" "\<And>j. 1 \<le> j \<Longrightarrow> j < ?i \<Longrightarrow> j < length (lcore_cfg s) \<Longrightarrow> lcore_cfg s ! j \<noteq> 0"
    "?i < length (lcore_cfg s) \<Longrightarrow> lcore_cfg s ! ?i = 0"
    using scan_free_spec [of 1 "lcore_cfg s"] by auto
  show ?thesis
  proof (cases "?i < length (lcore_cfg s)")
    case True
    then have "r = int ?i" "l = ?i" "s' = s\<lparr>lcore_cfg := (lcore_cfg s)[?i := 1]\<rparr>"
      using assms(3) by (auto simp: flib_assign_lcore_id_def Let_def)
    with assign_run [OF assms, of e] spec True show ?thesis by auto
  next
    case False
    then have "r = - 1" "l = 0" "s' = s"
      using assms(3) by (auto simp: flib_assign_lcore_id_def Let_def)
    with assign_run [OF assms, of e] spec False show ?thesis by auto
  qed
qed

theorem flib_assign_refines_witness:
  "\<exists>a' s'. flib_assign_lcore_id 0 (demo_sys ()) = (2, 2, s') \<and>
     (alloc_step demo_eal)\<^sup>*\<^sup>* \<lparr>cfg_table = [1, 1, 0, 0], pcs = \<lambda>_. Idle\<rparr> a' \<and>
     cfg_table a' = lcore_cfg s' \<and> pcs a' 5 = Holds 2"
proof -
  have "scan_free [1, 1, 0, 0] 1 = 2" by (simp add: scan_free.simps numeral_2_eq_2)
  then have r: "flib_assign_lcore_id 0 (demo_sys ()) =
      (2, 2, (demo_sys ())\<lparr>lcore_cfg := [1, 1, 1, 0]\<rparr>)"
    by (simp add: flib_assign_lcore_id_def demo_sys_def)
  show ?thesis
    using flib_assign_refines [of "\<lparr>cfg_table = [1, 1, 0, 0], pcs = \<lambda>_. Idle\<rparr>" 5, OF _ _ r,
        of demo_eal] r
    by (auto simp: demo_sys_def)
qed

end
