(* ===== verification/Ipc.thy ===== *)
theory Ipc
  imports Flib C_Library
begin

text \<open>
  The messages between the master and the slaves (\<^verbatim>\<open>src/ipc.c\<close>). A message travels in a
  buffer of the shared message pool through one of the two rings of a slave. The locale
  \<open>ring_contract\<close> is what the DPDK documentation promises of pools and rings: over it the two
  operations are shown to implement reliable first-in-first-out channels that neither leak nor
  share buffers.
\<close>

section \<open>Operations\<close>

text \<open>The message buffer is taken from the pool, filled and enqueued, or given back.\<close>

definition send_cmd ::
  "'d dpdk_ops \<Rightarrow> nat \<Rightarrow> bridge_msg_s \<Rightarrow> bool \<Rightarrow> 'd sys \<Rightarrow> (int \<times> 'd sys) option" where
  "send_cmd ops slave_id msg2send is_master s = do {
     lcore_res \<leftarrow> arr_get (lcore_resource s) slave_id;
     let fd = (if is_master then 0 else 1);
     if is_master \<and> lr_enabled lcore_res = 0 then Some (- 1, s)
     else do {
       ring \<leftarrow> arr_get (lr_ring lcore_res) fd;
       case ring of
         None \<Rightarrow> Some (- 1, s)
       | Some r \<Rightarrow>
           (case rte_mempool_get ops (dpdk s) of
              (None, d) \<Rightarrow> Some (- 1, s\<lparr>dpdk := d\<rparr>)
            | (Some b, d) \<Rightarrow>
                (let s = s\<lparr>dpdk := d, msg_mem := (msg_mem s)(b := msg2send)\<rparr>
                 in case rte_ring_enqueue ops (dpdk s) r b of
                      (q, d) \<Rightarrow>
                        if q \<noteq> 0 then Some (- 1, s\<lparr>dpdk := rte_mempool_put ops d b\<rparr>)
                        else Some (0, s\<lparr>dpdk := d\<rparr>)))
     }
   }"

text \<open>The received message replaces \<open>msg2rcv\<close>; a failed dequeue leaves it.\<close>

definition get_cmd ::
  "'d dpdk_ops \<Rightarrow> nat \<Rightarrow> bridge_msg_s \<Rightarrow> bool \<Rightarrow> 'd sys \<Rightarrow> (int \<times> bridge_msg_s \<times> 'd sys) option" where
  "get_cmd ops slave_id msg2rcv is_master s = do {
     lcore_res \<leftarrow> arr_get (lcore_resource s) slave_id;
     let fd = (if is_master then 1 else 0);
     if is_master \<and> lr_enabled lcore_res = 0 then Some (- 1, msg2rcv, s)
     else do {
       ring \<leftarrow> arr_get (lr_ring lcore_res) fd;
       case ring of
         None \<Rightarrow> Some (- 1, msg2rcv, s)
       | Some r \<Rightarrow>
           (case rte_ring_dequeue ops (dpdk s) r of
              (None, d) \<Rightarrow> Some (- ENOENT, msg2rcv, s\<lparr>dpdk := d\<rparr>)
            | (Some b, d) \<Rightarrow> Some (0, msg_mem s b, s\<lparr>dpdk := rte_mempool_put ops d b\<rparr>))
     }
   }"

text \<open>
  The two waiting loops, for at most \<open>n\<close> polls; \<open>others\<close> is what the other processes do before
  a poll. \<^term>\<open>None\<close> is undefined behaviour or no end after \<open>n\<close> polls.
\<close>

fun wait_ack ::
  "'d dpdk_ops \<Rightarrow> eal \<Rightarrow> ('d sys \<Rightarrow> 'd sys) \<Rightarrow> nat \<Rightarrow> bridge_msg_s \<Rightarrow> bridge_msg_s \<Rightarrow> nat \<Rightarrow>
   'd sys \<Rightarrow> (int \<times> 'd sys) option" where
  "wait_ack ops e others slave_id msg2send msg_ack 0 s = None"
| "wait_ack ops e others slave_id msg2send msg_ack (Suc n) s = do {
     (ret, msg_ack, s) \<leftarrow> get_cmd ops slave_id msg_ack True (others s);
     if ret = 0 \<and> cmd msg2send = cmd msg_ack then Some (ret, s)
     else do {
       st \<leftarrow> flib_query_slave_status e slave_id s;
       if st \<noteq> ST_RUN then Some (- ENOENT, s)
       else wait_ack ops e others slave_id msg2send msg_ack n s
     }
   }"

definition master_send_cmd_with_ack ::
  "'d dpdk_ops \<Rightarrow> eal \<Rightarrow> ('d sys \<Rightarrow> 'd sys) \<Rightarrow> nat \<Rightarrow> bridge_msg_s \<Rightarrow> nat \<Rightarrow> 'd sys \<Rightarrow>
   (int \<times> 'd sys) option" where
  "master_send_cmd_with_ack ops e others slave_id msg2send n s = do {
     (_, s) \<leftarrow> send_cmd ops slave_id msg2send True s;
     wait_ack ops e others slave_id msg2send \<lparr>cmd = START, msg = []\<rparr> n s
   }"

fun wait_reply ::
  "'d dpdk_ops \<Rightarrow> ('d sys \<Rightarrow> 'd sys) \<Rightarrow> nat \<Rightarrow> bridge_msg_s \<Rightarrow> bridge_msg_s \<Rightarrow> nat \<Rightarrow>
   'd sys \<Rightarrow> (int \<times> bridge_msg_s \<times> 'd sys) option" where
  "wait_reply ops others slave_id msg2send msg2recv 0 s = None"
| "wait_reply ops others slave_id msg2send msg2recv (Suc n) s = do {
     (ret, msg2recv, s) \<leftarrow> get_cmd ops slave_id msg2recv False (others s);
     if ret = 0 \<and> cmd msg2send = cmd msg2recv then Some (ret, msg2recv, s)
     else wait_reply ops others slave_id msg2send msg2recv n s
   }"

definition slave_request ::
  "'d dpdk_ops \<Rightarrow> ('d sys \<Rightarrow> 'd sys) \<Rightarrow> nat \<Rightarrow> bridge_msg_s \<Rightarrow> bridge_msg_s \<Rightarrow> nat \<Rightarrow> 'd sys \<Rightarrow>
   (int \<times> bridge_msg_s \<times> 'd sys) option" where
  "slave_request ops others slave_id msg2send msg2recv n s = do {
     (_, s) \<leftarrow> send_cmd ops slave_id msg2send False s;
     wait_reply ops others slave_id msg2send msg2recv n s
   }"

text \<open>
  The shared tables: \<open>zmalloc\<close> and \<open>malloc\<close> say whether the two allocations succeed. The
  statistics have one zeroed entry per configured slave.
\<close>

definition bridge_malloc_shared_struct ::
  "eal \<Rightarrow> bool \<Rightarrow> bool \<Rightarrow> bridge_port_statistics \<Rightarrow> 'd sys \<Rightarrow> int \<times> 'd sys" where
  "bridge_malloc_shared_struct e zmalloc malloc zero s =
     (if \<not> zmalloc then (- 1, s)
      else let s = s\<lparr>sys_statistics := replicate (nat (proc_config_nb (main_information s))) zero\<rparr>
        in if \<not> malloc then (- 1, s)
           else (0, s\<lparr>mapping_id := replicate (RTE_MAX_LCORE e) INVALID_MAPPING_ID\<rparr>))"

definition create_ring ::
  "'d dpdk_ops \<Rightarrow> string option \<Rightarrow> nat \<Rightarrow> 'd \<Rightarrow> ring_ptr option \<times> 'd" where
  "create_ring ops ring_name cnt d =
     (case ring_name of
        None \<Rightarrow> (None, d)
      | Some nm \<Rightarrow>
          (case rte_ring_lookup ops d nm of
             Some r \<Rightarrow> (Some r, d)
           | None \<Rightarrow> rte_ring_create ops d nm cnt))"

text \<open>The name of a ring: a prefix and the core number, cut to the size of the buffer.\<close>

definition ring_name_of :: "string \<Rightarrow> nat \<Rightarrow> string" where
  "ring_name_of pre i = take (SLAVE_RING_MAX_NAME_LEN - 1) (pre @ show_nat i)"

definition create_one_ring ::
  "'d dpdk_ops \<Rightarrow> nat \<Rightarrow> nat \<Rightarrow> string \<Rightarrow> 'd sys \<Rightarrow> (bool \<times> 'd sys) option" where
  "create_one_ring ops lcore_id fd pre s = do {
     res \<leftarrow> arr_get (lcore_resource s) lcore_id;
     names \<leftarrow> arr_set (lr_ring_name res) fd (ring_name_of pre lcore_id);
     let (r, d) = create_ring ops (Some (ring_name_of pre lcore_id)) IPC_NB_MSGBUF (dpdk s);
     rings \<leftarrow> arr_set (lr_ring res) fd r;
     s \<leftarrow> set_lcore_res lcore_id (res\<lparr>lr_ring_name := names, lr_ring := rings\<rparr>) (s\<lparr>dpdk := d\<rparr>);
     Some (r \<noteq> None, s)
   }"

definition create_ms_ring :: "'d dpdk_ops \<Rightarrow> nat \<Rightarrow> 'd sys \<Rightarrow> (int \<times> 'd sys) option" where
  "create_ms_ring ops lcore_id s = do {
     (ok, s) \<leftarrow> create_one_ring ops lcore_id 0 RING_MASTER_NAME s;
     if \<not> ok then Some (- 1, s)
     else do {
       (ok, s) \<leftarrow> create_one_ring ops lcore_id 1 RING_SLAVE_NAME s;
       if \<not> ok then Some (- 1, s) else Some (0, s)
     }
   }"

text \<open>
  The processor affinity the program was started with: it is saved before DPDK pins the threads to their
  cores, and set again by every slave. \<open>sched_getaffinity\<close> yields a result and, when it is 0, a set of
  processors; a set is given to \<open>sched_setaffinity\<close> with its size in bytes.
\<close>

definition sizeof_cpu_set_t :: nat where "sizeof_cpu_set_t = 128"

record cpu_aff_arg =
  aff_set :: "nat set"
  aff_size :: nat

definition get_cpu_affinity :: "(nat \<Rightarrow> int \<times> nat set) \<Rightarrow> cpu_aff_arg \<Rightarrow> int \<times> cpu_aff_arg" where
  "get_cpu_affinity sched_getaffinity cpu_aff =
     (let cpu_aff = cpu_aff\<lparr>aff_size := sizeof_cpu_set_t, aff_set := {}\<rparr>
      in case sched_getaffinity (aff_size cpu_aff) of
           (s, cpus) \<Rightarrow> if s \<noteq> 0 then (- 1, cpu_aff) else (0, cpu_aff\<lparr>aff_set := cpus\<rparr>))"

definition clear_cpu_affinity :: "(nat \<Rightarrow> nat set \<Rightarrow> int) \<Rightarrow> cpu_aff_arg \<Rightarrow> int" where
  "clear_cpu_affinity sched_setaffinity cpu_aff =
     (if sched_setaffinity (aff_size cpu_aff) (aff_set cpu_aff) \<noteq> 0 then - 1 else 0)"

section \<open>The documented contract of pools and rings\<close>

text \<open>\<open>pool d\<close> are the buffers in the message pool, \<open>que d r\<close> those in ring \<open>r\<close>, oldest first.\<close>

locale ring_contract =
  fixes ops :: "'d dpdk_ops"
    and pool :: "'d \<Rightarrow> msg_ptr multiset"
    and que :: "'d \<Rightarrow> ring_ptr \<Rightarrow> msg_ptr list"
  assumes get_Some: "rte_mempool_get ops d = (Some b, d') \<Longrightarrow> pool d = add_mset b (pool d') \<and> que d' = que d"
    and get_None: "rte_mempool_get ops d = (None, d') \<Longrightarrow> pool d = {#} \<and> pool d' = {#} \<and> que d' = que d"
    and put_pool: "pool (rte_mempool_put ops d b) = add_mset b (pool d)"
    and put_que: "que (rte_mempool_put ops d b) = que d"
    and enqueue_ok: "rte_ring_enqueue ops d r b = (0, d') \<Longrightarrow>
      pool d' = pool d \<and> que d' = (que d)(r := que d r @ [b])"
    and enqueue_fail: "rte_ring_enqueue ops d r b = (e, d') \<Longrightarrow> e \<noteq> 0 \<Longrightarrow>
      pool d' = pool d \<and> que d' = que d"
    and dequeue_Some: "rte_ring_dequeue ops d r = (Some b, d') \<Longrightarrow>
      pool d' = pool d \<and> que d r = b # que d' r \<and> (\<forall>r'. r' \<noteq> r \<longrightarrow> que d' r' = que d r')"
    and dequeue_None: "rte_ring_dequeue ops d r = (None, d') \<Longrightarrow>
      pool d' = pool d \<and> que d r = [] \<and> que d' = que d"

text \<open>
  Ownership: every buffer is in the pool or in one place of one ring. The buffers in use are
  those in either.
\<close>

definition owned :: "msg_ptr multiset \<Rightarrow> (ring_ptr \<Rightarrow> msg_ptr list) \<Rightarrow> bool" where
  "owned p q \<longleftrightarrow>
     (\<forall>b. count p b \<le> 1) \<and> (\<forall>r. distinct (q r)) \<and>
     (\<forall>r r'. r \<noteq> r' \<longrightarrow> set (q r) \<inter> set (q r') = {}) \<and> (\<forall>r. set (q r) \<inter> set_mset p = {})"

definition buffers :: "msg_ptr multiset \<Rightarrow> (ring_ptr \<Rightarrow> msg_ptr list) \<Rightarrow> msg_ptr set" where
  "buffers p q = set_mset p \<union> (\<Union>r. set (q r))"

text \<open>The ring on which a side of slave \<open>i\<close> sends, and the messages in a ring.\<close>

definition ring_of :: "'d sys \<Rightarrow> nat \<Rightarrow> nat \<Rightarrow> ring_ptr option" where
  "ring_of s i fd = lr_ring (lcore_resource s ! i) ! fd"

definition msgs :: "('d \<Rightarrow> ring_ptr \<Rightarrow> msg_ptr list) \<Rightarrow> 'd sys \<Rightarrow> ring_ptr \<Rightarrow> bridge_msg_s list" where
  "msgs que s r = map (msg_mem s) (que (dpdk s) r)"

section \<open>Ownership of buffers\<close>

lemma owned_take:
  assumes "owned (add_mset b p) q"
  shows "owned p q \<and> b \<notin># p \<and> (\<forall>r. b \<notin> set (q r))"
proof -
  have c: "count (add_mset b p) x \<le> 1" for x using assms by (simp add: owned_def)
  have "count p x \<le> 1" for x using c [of x] by (simp split: if_splits)
  moreover have "count p b = 0" using c [of b] by simp
  then have "b \<notin># p" by (rule not_in_iff [THEN iffD2])
  ultimately show ?thesis using assms unfolding owned_def by simp
qed

lemma owned_put:
  assumes "owned p q" "b \<notin># p" "\<forall>r. b \<notin> set (q r)"
  shows "owned (add_mset b p) q"
proof -
  have "count (add_mset b p) x \<le> 1" for x
    using assms(1) not_in_iff [THEN iffD1, OF assms(2)] by (auto simp: owned_def)
  then show ?thesis using assms unfolding owned_def by simp
qed

lemma owned_push:
  assumes "owned p q" "b \<notin># p" "\<forall>r. b \<notin> set (q r)"
  shows "owned p (q(r := q r @ [b]))"
  using assms unfolding owned_def by (auto split: if_splits)

lemma owned_pop:
  assumes own: "owned p q" and q: "q r = b # bs"
  shows "owned p (q(r := bs)) \<and> b \<notin># p \<and> (\<forall>x. b \<notin> set ((q(r := bs)) x))"
proof -
  have dist: "distinct (q x)" and disj: "x \<noteq> y \<Longrightarrow> set (q x) \<inter> set (q y) = {}"
    and free: "set (q x) \<inter> set_mset p = {}" and one: "count p c \<le> 1" for x y c
    using own unfolding owned_def by simp_all
  have sub: "set ((q(r := bs)) x) \<subseteq> set (q x)" "distinct ((q(r := bs)) x)" for x
    using q dist [of r] dist [of x] by auto
  have "b \<notin> set ((q(r := bs)) x)" for x
    using q dist [of r] disj [of r x] by auto
  moreover have "b \<notin># p" using q free [of r] by auto
  moreover have "owned p (q(r := bs))"
    unfolding owned_def
  proof (intro conjI allI impI)
    fix x y :: ring_ptr
    assume "x \<noteq> y"
    then show "set ((q(r := bs)) x) \<inter> set ((q(r := bs)) y) = {}"
      using disj [of x y] sub(1) [of x] sub(1) [of y] by blast
  next
    fix x :: ring_ptr
    show "set ((q(r := bs)) x) \<inter> set_mset p = {}" using free [of x] sub(1) [of x] by blast
  qed (rule one sub)+
  ultimately show ?thesis by blast
qed

section \<open>The operations are first-in-first-out channels\<close>

text \<open>The parts of the state that sending and receiving leave alone.\<close>

definition ipc_frame :: "'d sys \<Rightarrow> 'd sys \<Rightarrow> bool" where
  "ipc_frame s s' \<longleftrightarrow> (\<exists>d m. s' = s\<lparr>dpdk := d, msg_mem := m\<rparr>)"

lemma ipc_frame_refl [simp]: "ipc_frame s s" "ipc_frame s (s\<lparr>dpdk := d\<rparr>)"
  "ipc_frame s (s\<lparr>dpdk := d, msg_mem := m\<rparr>)"
  unfolding ipc_frame_def by (rule exI [of _ "dpdk s"], rule exI [of _ "msg_mem s"], simp)
    (rule exI [of _ d], rule exI [of _ "msg_mem s"], simp, blast)

lemma ipc_frame_upd [simp]: "ipc_frame s (s\<lparr>msg_mem := m, dpdk := d\<rparr>)"
  unfolding ipc_frame_def by (rule exI [of _ d], rule exI [of _ m]) simp

lemma ipc_frame_trans:
  assumes "ipc_frame s s'" "ipc_frame s' s''"
  shows "ipc_frame s s''"
proof -
  obtain d m d' m' where "s' = s\<lparr>dpdk := d, msg_mem := m\<rparr>" "s'' = s'\<lparr>dpdk := d', msg_mem := m'\<rparr>"
    using assms unfolding ipc_frame_def by blast
  then have "s'' = s\<lparr>dpdk := d', msg_mem := m'\<rparr>" by simp
  then show ?thesis unfolding ipc_frame_def by blast
qed

lemma UN_split_at: "(\<Union>x. f x) = f g \<union> (\<Union>x\<in>- {g}. f x)"
  by auto

lemma ipc_frame_sel:
  "ipc_frame s s' \<Longrightarrow> lcore_resource s' = lcore_resource s \<and> core_cfg s' = core_cfg s \<and>
     ring_of s' = ring_of s"
  unfolding ipc_frame_def by (auto simp: ring_of_def fun_eq_iff)

definition ipc_ok ::
  "('d \<Rightarrow> msg_ptr multiset) \<Rightarrow> ('d \<Rightarrow> ring_ptr \<Rightarrow> msg_ptr list) \<Rightarrow> 'd sys \<Rightarrow> bool" where
  "ipc_ok pool que s \<longleftrightarrow> owned (pool (dpdk s)) (que (dpdk s))"

definition ipc_buffers ::
  "('d \<Rightarrow> msg_ptr multiset) \<Rightarrow> ('d \<Rightarrow> ring_ptr \<Rightarrow> msg_ptr list) \<Rightarrow> 'd sys \<Rightarrow> msg_ptr set" where
  "ipc_buffers pool que s = buffers (pool (dpdk s)) (que (dpdk s))"

text \<open>A slave number whose resource is complete.\<close>

definition valid_slave :: "'d sys \<Rightarrow> nat \<Rightarrow> bool" where
  "valid_slave s i \<longleftrightarrow> i < length (lcore_resource s) \<and> length (lr_ring (lcore_resource s ! i)) = 2"

lemma valid_slave_get:
  assumes "valid_slave s i"
  shows "arr_get (lcore_resource s) i = Some (lcore_resource s ! i)"
    "fd < 2 \<Longrightarrow> arr_get (lr_ring (lcore_resource s ! i)) fd = Some (ring_of s i fd)"
  using assms by (simp_all add: valid_slave_def arr_get_def ring_of_def)

lemma valid_slave_frame: "ipc_frame s s' \<Longrightarrow> valid_slave s' i = valid_slave s i"
  by (auto simp: valid_slave_def ipc_frame_def)

lemma msgs_same_queues: "que d = que (dpdk s) \<Longrightarrow> msgs que (s\<lparr>dpdk := d\<rparr>) = msgs que s"
  by (simp add: msgs_def fun_eq_iff)

lemma map_upd_other: "b \<notin> set xs \<Longrightarrow> map (f(b := v)) xs = map f xs"
  by (induction xs) auto

text \<open>What one call does to the channels: a message appended or removed, or nothing.\<close>

definition channel_sent ::
  "('d \<Rightarrow> ring_ptr \<Rightarrow> msg_ptr list) \<Rightarrow> 'd sys \<Rightarrow> ring_ptr option \<Rightarrow> bridge_msg_s \<Rightarrow> 'd sys \<Rightarrow> bool" where
  "channel_sent que s ring m s' \<longleftrightarrow>
     (\<exists>g. ring = Some g \<and> msgs que s' = (msgs que s)(g := msgs que s g @ [m]))"

definition channel_received ::
  "('d \<Rightarrow> ring_ptr \<Rightarrow> msg_ptr list) \<Rightarrow> 'd sys \<Rightarrow> ring_ptr option \<Rightarrow> bridge_msg_s \<Rightarrow> 'd sys \<Rightarrow> bool" where
  "channel_received que s ring m s' \<longleftrightarrow>
     (\<exists>g rest. ring = Some g \<and> msgs que s g = m # rest \<and> msgs que s' = (msgs que s)(g := rest))"

context ring_contract
begin

lemma send_cmd_spec:
  assumes ok: "ipc_ok pool que s" and i: "valid_slave s i"
  shows "\<exists>r s'. send_cmd ops i m im s = Some (r, s') \<and> ipc_frame s s' \<and> ipc_ok pool que s' \<and>
    ipc_buffers pool que s' = ipc_buffers pool que s \<and>
    (r = 0 \<and> channel_sent que s (ring_of s i (if im then 0 else 1)) m s' \<or>
     r = - 1 \<and> msgs que s' = msgs que s)"
proof (cases "(im \<and> lr_enabled (lcore_resource s ! i) = 0) \<or> ring_of s i (if im then 0 else 1) = None")
  case True
  then have "send_cmd ops i m im s = Some (- 1, s)"
    using valid_slave_get [OF i] by (auto simp: send_cmd_def)
  then show ?thesis using ok by simp
next
  case False
  then obtain g where g: "ring_of s i (if im then 0 else 1) = Some g" by auto
  let ?fd = "if im then 0 else 1 :: nat"
  have get: "arr_get (lr_ring (lcore_resource s ! i)) ?fd = Some (Some g)"
    using valid_slave_get(2) [OF i, of ?fd] g by simp
  obtain o1 d1 where mg: "rte_mempool_get ops (dpdk s) = (o1, d1)" by fastforce
  show ?thesis
  proof (cases o1)
    case None
    then have "send_cmd ops i m im s = Some (- 1, s\<lparr>dpdk := d1\<rparr>)"
      using False get mg valid_slave_get(1) [OF i] by (auto simp: send_cmd_def)
    moreover have "pool d1 = pool (dpdk s)" "que d1 = que (dpdk s)"
      using get_None mg None by metis+
    ultimately show ?thesis
      using ok by (simp add: ipc_ok_def ipc_buffers_def msgs_same_queues)
  next
    case (Some b)
    have p1: "pool (dpdk s) = add_mset b (pool d1)" "que d1 = que (dpdk s)"
      using get_Some mg Some by metis+
    have own: "owned (pool d1) (que d1)" "b \<notin># pool d1" "\<forall>x. b \<notin> set (que d1 x)"
      using owned_take [of b "pool d1" "que d1"] ok p1 by (simp_all add: ipc_ok_def)
    let ?s = "s\<lparr>dpdk := d1, msg_mem := (msg_mem s)(b := m)\<rparr>"
    obtain e d2 where enq: "rte_ring_enqueue ops d1 g b = (e, d2)" by fastforce
    show ?thesis
    proof (cases "e = 0")
      case True
      have q2: "pool d2 = pool d1" "que d2 = (que d1)(g := que d1 g @ [b])"
        using enqueue_ok enq True by metis+
      have "send_cmd ops i m im s = Some (0, ?s\<lparr>dpdk := d2\<rparr>)"
        using False get mg Some enq True valid_slave_get(1) [OF i]
        by (auto simp: send_cmd_def Let_def)
      moreover have "channel_sent que s (Some g) m (?s\<lparr>dpdk := d2\<rparr>)"
        using q2 p1 own(3)
        by (auto simp: channel_sent_def msgs_def fun_eq_iff map_upd_other)
      moreover have "ipc_ok pool que (?s\<lparr>dpdk := d2\<rparr>)"
        using owned_push [OF own, of g] q2 by (simp add: ipc_ok_def)
      moreover have "ipc_buffers pool que (?s\<lparr>dpdk := d2\<rparr>) = ipc_buffers pool que s"
        using p1 q2 by (auto simp: ipc_buffers_def buffers_def split: if_splits)
      ultimately show ?thesis using g by simp
    next
      case False
      have q2: "pool d2 = pool d1" "que d2 = que d1"
        using enqueue_fail enq False by metis+
      let ?d = "rte_mempool_put ops d2 b"
      have d: "pool ?d = pool (dpdk s)" "que ?d = que (dpdk s)"
        using q2 p1 by (simp_all add: put_pool put_que)
      have "send_cmd ops i m im s = Some (- 1, ?s\<lparr>dpdk := ?d\<rparr>)"
        using \<open>\<not> (_ \<or> _)\<close> get mg Some enq False valid_slave_get(1) [OF i]
        by (auto simp: send_cmd_def Let_def)
      moreover have "msgs que (?s\<lparr>dpdk := ?d\<rparr>) = msgs que s"
        using d p1 own(3) by (simp add: msgs_def fun_eq_iff map_upd_other)
      ultimately show ?thesis
        using ok d by (simp add: ipc_ok_def ipc_buffers_def)
    qed
  qed
qed

lemma get_cmd_spec:
  assumes ok: "ipc_ok pool que s" and i: "valid_slave s i"
  shows "\<exists>r m' s'. get_cmd ops i m im s = Some (r, m', s') \<and> ipc_frame s s' \<and>
    ipc_ok pool que s' \<and> ipc_buffers pool que s' = ipc_buffers pool que s \<and>
    (r = 0 \<and> channel_received que s (ring_of s i (if im then 1 else 0)) m' s' \<or>
     r < 0 \<and> m' = m \<and> msgs que s' = msgs que s)"
proof (cases "(im \<and> lr_enabled (lcore_resource s ! i) = 0) \<or> ring_of s i (if im then 1 else 0) = None")
  case True
  then have "get_cmd ops i m im s = Some (- 1, m, s)"
    using valid_slave_get [OF i] by (auto simp: get_cmd_def)
  then show ?thesis using ok by simp
next
  case False
  then obtain g where g: "ring_of s i (if im then 1 else 0) = Some g" by auto
  let ?fd = "if im then 1 else 0 :: nat"
  have get: "arr_get (lr_ring (lcore_resource s ! i)) ?fd = Some (Some g)"
    using valid_slave_get(2) [OF i, of ?fd] g by simp
  obtain o1 d1 where dq: "rte_ring_dequeue ops (dpdk s) g = (o1, d1)" by fastforce
  show ?thesis
  proof (cases o1)
    case None
    then have "get_cmd ops i m im s = Some (- ENOENT, m, s\<lparr>dpdk := d1\<rparr>)"
      using False get dq valid_slave_get(1) [OF i] by (auto simp: get_cmd_def)
    moreover have "pool d1 = pool (dpdk s)" "que d1 = que (dpdk s)"
      using dequeue_None dq None by metis+
    ultimately show ?thesis
      using ok by (simp add: ipc_ok_def ipc_buffers_def msgs_same_queues ENOENT_def)
  next
    case (Some b)
    have p1: "pool d1 = pool (dpdk s)" "que (dpdk s) g = b # que d1 g"
      "\<forall>x. x \<noteq> g \<longrightarrow> que d1 x = que (dpdk s) x"
      using dequeue_Some [of "dpdk s" g b d1] dq Some by simp_all
    then have q1: "que d1 = (que (dpdk s))(g := que d1 g)" by (auto simp: fun_eq_iff)
    have own: "owned (pool d1) (que d1)" "b \<notin># pool d1" "\<forall>x. b \<notin> set (que d1 x)"
      using owned_pop [of "pool d1" "que (dpdk s)" g b "que d1 g"] ok p1(1,2) q1
      by (simp_all add: ipc_ok_def)
    let ?d = "rte_mempool_put ops d1 b"
    let ?s = "s\<lparr>dpdk := ?d\<rparr>"
    have "get_cmd ops i m im s = Some (0, msg_mem s b, ?s)"
      using False get dq Some valid_slave_get(1) [OF i] by (auto simp: get_cmd_def)
    moreover have "channel_received que s (Some g) (msg_mem s b) ?s"
      using p1(2,3) by (auto simp: channel_received_def msgs_def put_que fun_eq_iff)
    moreover have "ipc_ok pool que ?s"
      using owned_put [OF own] by (simp add: ipc_ok_def put_pool put_que)
    moreover have "ipc_buffers pool que ?s = ipc_buffers pool que s"
    proof -
      have "(\<Union>x\<in>- {g}. set (que (dpdk s) x)) = (\<Union>x\<in>- {g}. set (que d1 x))"
        using p1(3) by simp
      then have "(\<Union>x. set (que (dpdk s) x)) = insert b (\<Union>x. set (que d1 x))"
        using p1(2) UN_split_at [of "\<lambda>x. set (que (dpdk s) x)" g]
          UN_split_at [of "\<lambda>x. set (que d1 x)" g] by simp
      then show ?thesis
        using p1(1) by (simp add: ipc_buffers_def buffers_def put_pool put_que)
    qed
    ultimately show ?thesis using g by simp
  qed
qed

text \<open>A read from an existing ring fails only when the ring is empty.\<close>

lemma get_cmd_empty:
  assumes "valid_slave s i" "ring_of s i (if im then 1 else 0) = Some g"
    "im \<longrightarrow> lr_enabled (lcore_resource s ! i) \<noteq> 0"
    "get_cmd ops i m im s = Some (r, m', s')" "r \<noteq> 0"
  shows "msgs que s g = []"
proof -
  obtain o1 d1 where dq: "rte_ring_dequeue ops (dpdk s) g = (o1, d1)" by fastforce
  have "arr_get (lr_ring (lcore_resource s ! i)) (if im then 1 else 0) = Some (Some g)"
    using valid_slave_get(2) [OF assms(1), of "if im then 1 else 0"] assms(2) by simp
  then have "o1 = None"
    using assms(3-5) dq valid_slave_get(1) [OF assms(1)]
    by (cases o1) (auto simp: get_cmd_def)
  then show ?thesis using dequeue_None dq by (simp add: msgs_def)
qed

text \<open>A slave that polls a ring with a message in it gets one.\<close>

lemma get_cmd_nonempty:
  assumes "ipc_ok pool que s" "valid_slave s i" "ring_of s i 0 = Some g" "msgs que s g \<noteq> []"
  shows "\<exists>m' s'. get_cmd ops i m False s = Some (0, m', s')"
proof -
  obtain o1 d1 where dq: "rte_ring_dequeue ops (dpdk s) g = (o1, d1)" by fastforce
  have "o1 \<noteq> None" using dequeue_None [of "dpdk s" g d1] dq assms(4) by (auto simp: msgs_def)
  then show ?thesis
    using dq assms(3) valid_slave_get [OF assms(2)] by (auto simp: get_cmd_def)
qed

text \<open>
  Waiting for a reply: the other processes keep the pool and the rings in order and only append
  to the ring the slave reads. The first message with the command asked for is returned after as
  many polls as there are messages before it, which are dropped.
\<close>

lemma wait_reply_spec:
  assumes "ipc_ok pool que s" "valid_slave s i" "ring_of s i 0 = Some g"
    and others: "\<And>s. ipc_ok pool que s \<Longrightarrow> ipc_ok pool que (others s) \<and>
      lcore_resource (others s) = lcore_resource s \<and>
      (\<exists>new. msgs que (others s) g = msgs que s g @ new)"
    and q: "msgs que s g = pre @ m # post" "\<forall>x\<in>set pre. cmd x \<noteq> cmd req" "cmd m = cmd req"
    and n: "length pre < n"
  shows "\<exists>s'. wait_reply ops others i req m0 n s = Some (0, m, s') \<and> ipc_ok pool que s'"
  using assms(1-3) q n
proof (induction n arbitrary: s m0 pre post)
  case 0
  then show ?case by simp
next
  case (Suc n)
  let ?s = "others s"
  have res: "lcore_resource ?s = lcore_resource s" and ok: "ipc_ok pool que ?s"
    using others [OF Suc.prems(1)] by auto
  then have i: "valid_slave ?s i" and g: "ring_of ?s i 0 = Some g"
    using Suc.prems(2,3) by (simp_all add: valid_slave_def ring_of_def)
  obtain new where new: "msgs que ?s g = pre @ m # post @ new"
    using others [OF Suc.prems(1)] Suc.prems(4) by auto
  have ne: "msgs que ?s g \<noteq> []" using new by simp
  obtain r m1 s1 where get: "get_cmd ops i m0 False ?s = Some (r, m1, s1)" "ipc_frame ?s s1"
    "ipc_ok pool que s1" "r = 0 \<and> channel_received que ?s (ring_of ?s i 0) m1 s1 \<or>
      r < 0 \<and> m1 = m0 \<and> msgs que s1 = msgs que ?s"
    using get_cmd_spec [OF ok i, of m0 False] by auto
  have rcv: "r = 0" "msgs que ?s g = m1 # msgs que s1 g"
    using get_cmd_nonempty [OF ok i g ne, of m0] get g by (auto simp: channel_received_def)
  show ?case
  proof (cases pre)
    case Nil
    then have "m1 = m" using rcv(2) new by simp
    then show ?thesis using get(1,3) rcv(1) Suc.prems(6) by simp
  next
    case (Cons x pre')
    then have m1: "m1 = x" "msgs que s1 g = pre' @ m # (post @ new)" using rcv(2) new by simp_all
    have "\<exists>s'. wait_reply ops others i req m1 n s1 = Some (0, m, s') \<and> ipc_ok pool que s'"
      by (rule Suc.IH [OF get(3) _ _ m1(2)])
        (use Suc.prems Cons i g ipc_frame_sel [OF get(2)] valid_slave_frame [OF get(2)] in auto)
    moreover have "cmd req \<noteq> cmd m1" using Suc.prems(5) Cons m1(1) by auto
    ultimately show ?thesis using get(1) by simp
  qed
qed

end

section \<open>An instance with lists\<close>

text \<open>
  A pool and rings made of lists: a ring of 64 slots holds 63 pointers. Concrete runs are
  evaluated on it.
\<close>

record list_dpdk =
  free_bufs :: "nat list"
  ring_queues :: "nat \<Rightarrow> nat list"
  ring_names :: "string list"
  launched :: "nat list"

definition ld_get :: "list_dpdk \<Rightarrow> msg_ptr option \<times> list_dpdk" where
  "ld_get d = (case free_bufs d of [] \<Rightarrow> (None, d) | b # bs \<Rightarrow> (Some b, d\<lparr>free_bufs := bs\<rparr>))"

definition ld_put :: "list_dpdk \<Rightarrow> msg_ptr \<Rightarrow> list_dpdk" where
  "ld_put d b = d\<lparr>free_bufs := b # free_bufs d\<rparr>"

definition ld_enqueue :: "list_dpdk \<Rightarrow> ring_ptr \<Rightarrow> msg_ptr \<Rightarrow> int \<times> list_dpdk" where
  "ld_enqueue d r b =
     (if length (ring_queues d r) < IPC_NB_MSGBUF - 1
      then (0, d\<lparr>ring_queues := (ring_queues d)(r := ring_queues d r @ [b])\<rparr>)
      else (- 105, d))"

definition ld_dequeue :: "list_dpdk \<Rightarrow> ring_ptr \<Rightarrow> msg_ptr option \<times> list_dpdk" where
  "ld_dequeue d r =
     (case ring_queues d r of
        [] \<Rightarrow> (None, d)
      | b # bs \<Rightarrow> (Some b, d\<lparr>ring_queues := (ring_queues d)(r := bs)\<rparr>))"

fun index_of :: "string \<Rightarrow> string list \<Rightarrow> nat option" where
  "index_of x [] = None"
| "index_of x (y # ys) = (if x = y then Some 0 else map_option Suc (index_of x ys))"

definition list_ops :: "list_dpdk dpdk_ops" where
  "list_ops = \<lparr>rte_mempool_get = ld_get, rte_mempool_put = ld_put, rte_ring_enqueue = ld_enqueue,
     rte_ring_dequeue = ld_dequeue, rte_ring_lookup = (\<lambda>d nm. index_of nm (ring_names d)),
     rte_ring_create = (\<lambda>d nm cnt. (Some (length (ring_names d)), d\<lparr>ring_names := ring_names d @ [nm],
       ring_queues := (ring_queues d)(length (ring_names d) := [])\<rparr>)),
     rte_eal_wait_lcore = (\<lambda>d i. d),
     rte_eal_remote_launch = (\<lambda>d i. (0, d\<lparr>launched := launched d @ [i]\<rparr>)),
     rte_eal_mp_remote_launch = (\<lambda>d. (0, d))\<rparr>"

definition list_pool :: "list_dpdk \<Rightarrow> msg_ptr multiset" where
  "list_pool d = mset (free_bufs d)"

lemmas list_ops_simps =
  list_ops_def ld_get_def ld_put_def ld_enqueue_def ld_dequeue_def list_pool_def

interpretation lists: ring_contract list_ops list_pool ring_queues
  by unfold_locales (auto simp: list_ops_simps split: list.splits if_splits)

section \<open>Properties\<close>

text \<open>A slave 1 with rings 0 and 1, a pool of three buffers and one message for the slave.\<close>

definition demo_ipc :: "list_dpdk sys" where
  "demo_ipc = (demo_sys \<lparr>free_bufs = [1, 2], ring_queues = (\<lambda>_. [])(0 := [3]),
                         ring_names = [''a'', ''b''], launched = []\<rparr>)
     \<lparr>lcore_resource := replicate 4 \<lparr>lr_enabled = 1, lr_flags = 0, lr_config_id = 0,
        lr_lcore_id = 0, lr_pair_id = 0, lr_ring_name = [''a'', ''b''], lr_ring = [Some 0, Some 1]\<rparr>,
      msg_mem := (\<lambda>_. \<lparr>cmd = CFG, msg = ''2''\<rparr>)\<rparr>"

lemma demo_ipc_ok: "ipc_ok list_pool ring_queues demo_ipc" "valid_slave demo_ipc 1"
  by (auto simp: ipc_ok_def owned_def demo_ipc_def demo_sys_def list_pool_def valid_slave_def)

lemma demo_ipc_ring: "ring_of demo_ipc 1 0 = Some 0"
  "msgs ring_queues demo_ipc 0 = [\<lparr>cmd = CFG, msg = ''2''\<rparr>]"
  by (simp_all add: demo_ipc_def demo_sys_def ring_of_def msgs_def)

text \<open>
  C15: \<open>send_cmd\<close> implements sending on a first-in-first-out channel. On any pool and rings that
  keep the DPDK contract, it never runs into undefined behaviour for a slave whose resource is
  complete. Either it returns 0 and exactly the ring of the right direction has the message
  appended, or it returns \<open>- 1\<close> and no channel has changed. Every buffer keeps exactly one
  owner, and none is lost, also on the error paths.
\<close>

theorem send_cmd_refines_channel:
  assumes "ring_contract ops pool que" "ipc_ok pool que s" "valid_slave s i"
  shows "\<exists>r s'. send_cmd ops i m is_master s = Some (r, s') \<and> ipc_frame s s' \<and>
    ipc_ok pool que s' \<and> ipc_buffers pool que s' = ipc_buffers pool que s \<and>
    (r = 0 \<and> channel_sent que s (ring_of s i (if is_master then 0 else 1)) m s' \<or>
     r = - 1 \<and> msgs que s' = msgs que s)"
  by (rule ring_contract.send_cmd_spec [OF assms])

theorem send_cmd_refines_channel_witness:
  "\<exists>r s'. send_cmd list_ops 1 \<lparr>cmd = STOP, msg = []\<rparr> True demo_ipc = Some (r, s') \<and>
     ipc_ok list_pool ring_queues s' \<and> ipc_buffers list_pool ring_queues s' = {1, 2, 3}"
proof -
  have "(\<Union>r. set (ring_queues (dpdk demo_ipc) r)) = {3}"
    using UN_split_at [of "\<lambda>r. set (ring_queues (dpdk demo_ipc) r)" 0]
    by (simp add: demo_ipc_def demo_sys_def)
  then have "ipc_buffers list_pool ring_queues demo_ipc = {1, 2, 3}"
    by (simp add: ipc_buffers_def buffers_def list_pool_def demo_ipc_def demo_sys_def insert_commute)
  then show ?thesis
    using send_cmd_refines_channel [OF lists.ring_contract_axioms demo_ipc_ok,
        of "\<lparr>cmd = STOP, msg = []\<rparr>" True] by auto
qed

text \<open>
  C16: \<open>get_cmd\<close> implements receiving on that channel: it returns 0 and the oldest message of
  the ring, which is removed and its buffer given back to the pool, or a negative number, with
  the caller's message and all channels as they were.
\<close>

theorem get_cmd_refines_channel:
  assumes "ring_contract ops pool que" "ipc_ok pool que s" "valid_slave s i"
  shows "\<exists>r m' s'. get_cmd ops i m is_master s = Some (r, m', s') \<and> ipc_frame s s' \<and>
    ipc_ok pool que s' \<and> ipc_buffers pool que s' = ipc_buffers pool que s \<and>
    (r = 0 \<and> channel_received que s (ring_of s i (if is_master then 1 else 0)) m' s' \<or>
     r < 0 \<and> m' = m \<and> msgs que s' = msgs que s)"
  by (rule ring_contract.get_cmd_spec [OF assms])

theorem get_cmd_refines_channel_witness:
  "\<exists>r m' s'. get_cmd list_ops 1 \<lparr>cmd = START, msg = []\<rparr> False demo_ipc = Some (r, m', s') \<and>
     ipc_ok list_pool ring_queues s'"
  using get_cmd_refines_channel [OF lists.ring_contract_axioms demo_ipc_ok,
      of "\<lparr>cmd = START, msg = []\<rparr>" False] by blast



text \<open>
  The master does not wait for a slave that is gone: if the slave is not running when its
  status is read, \<open>master_send_cmd_with_ack\<close> returns at the first poll, with 0 if the
  acknowledgement was there and with \<open>- ENOENT\<close> otherwise.
\<close>

lemma master_send_not_stuck:
  assumes "ring_contract ops pool que" "ipc_ok pool que s" "valid_slave s i"
    "\<And>s. ipc_ok pool que s \<Longrightarrow> ipc_ok pool que (others s) \<and>
      lcore_resource (others s) = lcore_resource s \<and> core_cfg (others s) = core_cfg s"
    "flib_query_slave_status e i s = Some st" "st \<noteq> ST_RUN" "0 < n"
  shows "\<exists>r s'. master_send_cmd_with_ack ops e others i m n s = Some (r, s') \<and>
    (r = 0 \<or> r = - ENOENT) \<and> ipc_ok pool que s'"
proof -
  obtain r s1 where s1: "send_cmd ops i m True s = Some (r, s1)" "ipc_frame s s1" "ipc_ok pool que s1"
    using ring_contract.send_cmd_spec [OF assms(1-3), of m True] by auto
  let ?s2 = "others s1"
  have s2: "ipc_ok pool que ?s2" "lcore_resource ?s2 = lcore_resource s" "core_cfg ?s2 = core_cfg s"
    using assms(4) [OF s1(3)] ipc_frame_sel [OF s1(2)] by auto
  then have "valid_slave ?s2 i" using assms(3) by (simp add: valid_slave_def)
  then obtain q m' s3 where s3: "get_cmd ops i \<lparr>cmd = START, msg = []\<rparr> True ?s2 = Some (q, m', s3)"
    "ipc_frame ?s2 s3" "ipc_ok pool que s3"
    using ring_contract.get_cmd_spec [OF assms(1) s2(1), of i "\<lparr>cmd = START, msg = []\<rparr>" True] by auto
  have "flib_query_slave_status e i s3 = flib_query_slave_status e i s"
    using ipc_frame_sel [OF s3(2)] s2(3) by (simp add: flib_query_slave_status_def)
  with assms(5) have "flib_query_slave_status e i s3 = Some st" by simp
  moreover obtain k where "n = Suc k" using assms(7) by (cases n) auto
  ultimately show ?thesis
    using s1(1) s3 assms(6) by (simp add: master_send_cmd_with_ack_def)
qed

lemma master_send_not_stuck_witness:
  "\<exists>r s'. master_send_cmd_with_ack list_ops demo_eal (\<lambda>s. s) 1 \<lparr>cmd = STOP, msg = []\<rparr> 1 demo_ipc =
     Some (r, s') \<and> (r = 0 \<or> r = - ENOENT)"
proof -
  have "flib_query_slave_status demo_eal 1 demo_ipc = Some ST_IDLE"
    by (simp add: flib_query_slave_status_def demo_eal_def demo_ipc_def demo_sys_def arr_get_def)
  then show ?thesis
    using master_send_not_stuck [OF lists.ring_contract_axioms demo_ipc_ok, of "\<lambda>s. s" demo_eal
        ST_IDLE 1 "\<lparr>cmd = STOP, msg = []\<rparr>"] by auto
qed

end
