(* ===== verification/Dpdk_Mp.thy ===== *)
theory Dpdk_Mp
  imports Ipc
begin

text \<open>
  The end and the restart of a slave (\<^verbatim>\<open>src/dpdk_mp.c\<close>): the callback that runs in the master
  when a slave process has ended, and the functions with which the master prepares its rings,
  gives its core number back and launches it again.
\<close>

unbundle bit_operations_syntax

section \<open>Operations\<close>

definition remapping_slave_resource :: "nat \<Rightarrow> nat \<Rightarrow> 'd sys \<Rightarrow> 'd sys option" where
  "remapping_slave_resource old_id new_id s = do {
     r \<leftarrow> arr_get (lcore_resource s) old_id;
     set_lcore_res new_id r s
   }"

definition set_used :: "nat \<Rightarrow> int \<Rightarrow> 'd sys \<Rightarrow> 'd sys option" where
  "set_used i v s = do {
     c \<leftarrow> arr_get (proc_config s) i;
     a \<leftarrow> arr_set (proc_config s) i (c\<lparr>pc_used := v\<rparr>);
     Some (s\<lparr>proc_config := a\<rparr>)
   }"

definition slave_exit_cb :: "nat \<Rightarrow> int \<Rightarrow> 'd sys \<Rightarrow> 'd sys option" where
  "slave_exit_cb lcore_id stat s = do {
     lcore_res \<leftarrow> arr_get (lcore_resource s) lcore_id;
     if lr_enabled lcore_res = 0 then Some s
     else do {
       s \<leftarrow> set_used (lr_config_id lcore_res) 0 s;
       if lr_flags lcore_res AND SLAVE_DONT_RECREATE_FLAG = 0
       then set_lcore_res lcore_id (lcore_res\<lparr>lr_flags := SLAVE_RECREATE_FLAG\<rparr>) s
       else Some s
     }
   }"

text \<open>
  Reading a ring until it is empty, for at most \<open>n\<close> reads; the rings are those of a slave that
  has ended, so no other process writes to them.
\<close>

fun drain_ring ::
  "'d dpdk_ops \<Rightarrow> nat \<Rightarrow> bool \<Rightarrow> nat \<Rightarrow> bridge_msg_s \<Rightarrow> 'd sys \<Rightarrow> (bridge_msg_s \<times> 'd sys) option" where
  "drain_ring ops lcore_id is_master 0 drain s = None"
| "drain_ring ops lcore_id is_master (Suc n) drain s = do {
     (r, drain, s) \<leftarrow> get_cmd ops lcore_id drain is_master s;
     if r = 0 then drain_ring ops lcore_id is_master n drain s else Some (drain, s)
   }"

definition init_slave_res ::
  "'d dpdk_ops \<Rightarrow> nat \<Rightarrow> nat \<Rightarrow> 'd sys \<Rightarrow> (int proc_outcome \<times> 'd sys) option" where
  "init_slave_res ops n lcore_id s = do {
     lcore_res \<leftarrow> arr_get (lcore_resource s) lcore_id;
     if lr_enabled lcore_res = 0 then Some (Return (- 1), s)
     else do {
       (r, s) \<leftarrow> create_ms_ring ops lcore_id s;
       if r \<noteq> 0 then Some (Exit 1, s)
       else do {
         (drain, s) \<leftarrow> drain_ring ops lcore_id True n \<lparr>cmd = START, msg = []\<rparr> s;
         (drain, s) \<leftarrow> drain_ring ops lcore_id False n drain s;
         Some (Return 0, s)
       }
     }
   }"

definition recreate_one_slave ::
  "'d dpdk_ops \<Rightarrow> eal \<Rightarrow> nat \<Rightarrow> nat \<Rightarrow> 'd sys \<Rightarrow> (int proc_outcome \<times> 'd sys) option" where
  "recreate_one_slave ops e n lcore_id s = do {
     (r, s) \<leftarrow> init_slave_res ops n lcore_id s;
     case r of
       Exit c \<Rightarrow> Some (Exit c, s)
     | Return v \<Rightarrow>
         if v \<noteq> 0 then Some (Return v, s)
         else do {
           (v, s) \<leftarrow> flib_remote_launch ops e (Some fn_bridge_launch_one_lcore) 0 lcore_id s;
           Some (Return v, s)
         }
   }"

text \<open>The return of the core number of a slave that has ended, as \<open>reset_lcore\<close> does it.\<close>

definition return_mapping :: "eal \<Rightarrow> nat \<Rightarrow> 'd sys \<Rightarrow> 'd sys option" where
  "return_mapping e lcore_id s =
     (if float_proc (main_information s) \<noteq> 0 then do {
        map_id \<leftarrow> arr_get (mapping_id s) lcore_id;
        if map_id \<noteq> INVALID_MAPPING_ID then do {
          s \<leftarrow> flib_free_lcore_id e map_id s;
          a \<leftarrow> arr_set (mapping_id s) map_id INVALID_MAPPING_ID;
          set_used map_id 0 (s\<lparr>mapping_id := a\<rparr>)
        } else Some s
      } else Some s)"

definition reset_lcore ::
  "'d dpdk_ops \<Rightarrow> eal \<Rightarrow> nat \<Rightarrow> nat \<Rightarrow> 'd sys \<Rightarrow> (int proc_outcome \<times> 'd sys) option" where
  "reset_lcore ops e n lcore_id s = do {
     s \<leftarrow> return_mapping e lcore_id s;
     lcore_res \<leftarrow> arr_get (lcore_resource s) lcore_id;
     (r, s) \<leftarrow> (if lr_enabled lcore_res = 1 then recreate_one_slave ops e n lcore_id s
                else Some (Return 0, s));
     case r of
       Exit c \<Rightarrow> Some (Exit c, s)
     | Return v \<Rightarrow>
         if v \<noteq> 0 then Some (Return (- 1), s)
         else do {
           lcore_res \<leftarrow> arr_get (lcore_resource s) lcore_id;
           s \<leftarrow> set_lcore_res lcore_id (lcore_res\<lparr>lr_flags := 0\<rparr>) s;
           Some (Return 0, s)
         }
   }"

section \<open>The callback\<close>

lemma set_used_eq:
  "i < length (proc_config s) \<Longrightarrow>
     set_used i v s = Some (s\<lparr>proc_config := (proc_config s)[i := (proc_config s ! i)\<lparr>pc_used := v\<rparr>]\<rparr>)"
  by (simp add: set_used_def array_simps)

lemma set_lcore_res_eq:
  "i < length (lcore_resource s) \<Longrightarrow>
     set_lcore_res i r s = Some (s\<lparr>lcore_resource := (lcore_resource s)[i := r]\<rparr>)"
  by (simp add: set_lcore_res_def array_simps)

section \<open>Draining a ring\<close>

context ring_contract
begin

lemma drain_ring_spec:
  assumes "ipc_ok pool que s" "valid_slave s i" "ring_of s i (if im then 1 else 0) = Some g"
    "im \<longrightarrow> lr_enabled (lcore_resource s ! i) \<noteq> 0" "length (msgs que s g) < n"
  shows "\<exists>m' s'. drain_ring ops i im n m s = Some (m', s') \<and> ipc_frame s s' \<and> ipc_ok pool que s' \<and>
    ipc_buffers pool que s' = ipc_buffers pool que s \<and> msgs que s' = (msgs que s)(g := [])"
  using assms
proof (induction n arbitrary: s m)
  case 0
  then show ?case by simp
next
  case (Suc n)
  obtain r m1 s1 where get: "get_cmd ops i m im s = Some (r, m1, s1)" "ipc_frame s s1"
    "ipc_ok pool que s1" "ipc_buffers pool que s1 = ipc_buffers pool que s"
    "r = 0 \<and> channel_received que s (ring_of s i (if im then 1 else 0)) m1 s1 \<or>
     r < 0 \<and> m1 = m \<and> msgs que s1 = msgs que s"
    using get_cmd_spec [OF Suc.prems(1,2), of m im] by auto
  show ?case
  proof (cases "r = 0")
    case True
    then obtain rest where rest: "msgs que s g = m1 # rest" "msgs que s1 = (msgs que s)(g := rest)"
      using get(5) Suc.prems(3) by (auto simp: channel_received_def)
    have s1: "valid_slave s1 i" "ring_of s1 = ring_of s" "lcore_resource s1 = lcore_resource s"
      using Suc.prems(2) valid_slave_frame [OF get(2)] ipc_frame_sel [OF get(2)] by simp_all
    have "length (msgs que s1 g) < n" using Suc.prems(5) rest by simp
    then obtain m' s' where s': "drain_ring ops i im n m1 s1 = Some (m', s')" "ipc_frame s1 s'"
      "ipc_ok pool que s'" "ipc_buffers pool que s' = ipc_buffers pool que s1"
      "msgs que s' = (msgs que s1)(g := [])"
      using Suc.IH [of s1 m1, OF get(3) s1(1)] s1(2,3) Suc.prems(3,4) by metis
    have "drain_ring ops i im (Suc n) m s = Some (m', s')" using get(1) True s'(1) by simp
    moreover have "msgs que s' = (msgs que s)(g := [])" using s'(5) rest(2) by simp
    moreover have "ipc_buffers pool que s' = ipc_buffers pool que s" using s'(4) get(4) by simp
    ultimately show ?thesis using s'(3) ipc_frame_trans [OF get(2) s'(2)] by blast
  next
    case False
    then have same: "msgs que s1 = msgs que s" using get(5) by auto
    have "msgs que s g = []"
      using get_cmd_empty [OF Suc.prems(2-4) get(1) False] by simp
    then show ?thesis using get(1-4) False same by (auto simp: fun_upd_idem)
  qed
qed

end

section \<open>Rings of a slave\<close>

lemma ring_name_of_eq:
  assumes "length pre \<le> 20" "i < 10 ^ 9"
  shows "ring_name_of pre i = pre @ show_nat i"
proof -
  have "length (show_nat i) \<le> 9" using assms(2) by (intro length_show_nat) simp_all
  then show ?thesis using assms(1) by (simp add: ring_name_of_def SLAVE_RING_MAX_NAME_LEN_def)
qed

lemma show_nat_inj:
  assumes "show_nat i = show_nat j" "i < 10 ^ 9" "j < 10 ^ 9"
  shows "i = j"
proof -
  have "int i \<le> INT_MAX" "int j \<le> INT_MAX" using assms(2,3) by (simp_all add: INT_MAX_def)
  then have a: "atoi (show_nat i) = int i" "atoi (show_nat j) = int j"
    using atoi_show_nat [of i "[]"] atoi_show_nat [of j "[]"] by simp_all
  have "int i = int j" unfolding a [symmetric] assms(1) by (rule refl)
  then show ?thesis by simp
qed

text \<open>The rings of a slave that are registered under their names.\<close>

definition rings_exist :: "'d dpdk_ops \<Rightarrow> 'd sys \<Rightarrow> nat \<Rightarrow> ring_ptr \<Rightarrow> ring_ptr \<Rightarrow> bool" where
  "rings_exist ops s i g0 g1 \<longleftrightarrow>
     rte_ring_lookup ops (dpdk s) (ring_name_of RING_MASTER_NAME i) = Some g0 \<and>
     rte_ring_lookup ops (dpdk s) (ring_name_of RING_SLAVE_NAME i) = Some g1"

definition attached :: "nat \<Rightarrow> ring_ptr \<Rightarrow> ring_ptr \<Rightarrow> lcore_resource_s \<Rightarrow> lcore_resource_s" where
  "attached i g0 g1 r =
     r\<lparr>lr_ring_name := [ring_name_of RING_MASTER_NAME i, ring_name_of RING_SLAVE_NAME i],
       lr_ring := [Some g0, Some g1]\<rparr>"

definition complete_res :: "'d sys \<Rightarrow> nat \<Rightarrow> bool" where
  "complete_res s i \<longleftrightarrow> i < length (lcore_resource s) \<and>
     length (lr_ring (lcore_resource s ! i)) = 2 \<and> length (lr_ring_name (lcore_resource s ! i)) = 2"

lemma length_2: "length xs = 2 \<longleftrightarrow> (\<exists>x y. xs = [x, y])"
  unfolding numeral_2_eq_2 length_Suc_conv length_0_conv by blast

lemma create_ms_ring_attach:
  assumes "complete_res s i" "rings_exist ops s i g0 g1"
  shows "create_ms_ring ops i s = Some (0, s
    \<lparr>lcore_resource := (lcore_resource s)[i := attached i g0 g1 (lcore_resource s ! i)]\<rparr>)"
proof -
  obtain a b n m where r: "lr_ring (lcore_resource s ! i) = [a, b]"
    "lr_ring_name (lcore_resource s ! i) = [n, m]"
    using assms(1) by (auto simp: complete_res_def length_2)
  have i: "i < length (lcore_resource s)" using assms(1) by (simp add: complete_res_def)
  have lk: "rte_ring_lookup ops (dpdk s) (ring_name_of RING_MASTER_NAME i) = Some g0"
    "rte_ring_lookup ops (dpdk s) (ring_name_of RING_SLAVE_NAME i) = Some g1"
    using assms(2) by (simp_all add: rings_exist_def)
  let ?r1 = "(lcore_resource s ! i)
    \<lparr>lr_ring_name := [ring_name_of RING_MASTER_NAME i, m], lr_ring := [Some g0, b]\<rparr>"
  have "create_one_ring ops i 0 RING_MASTER_NAME s =
      Some (True, s\<lparr>lcore_resource := (lcore_resource s)[i := ?r1]\<rparr>)"
    using i r lk(1) by (simp add: create_one_ring_def create_ring_def set_lcore_res_eq arr_get_def arr_set_def)
  moreover have "create_one_ring ops i 1 RING_SLAVE_NAME
      (s\<lparr>lcore_resource := (lcore_resource s)[i := ?r1]\<rparr>) = Some (True, s
        \<lparr>lcore_resource := (lcore_resource s)[i := attached i g0 g1 (lcore_resource s ! i)]\<rparr>)"
    using i lk(2)
    by (simp add: create_one_ring_def create_ring_def set_lcore_res_eq arr_get_def arr_set_def attached_def)
  ultimately show ?thesis by (simp add: create_ms_ring_def)
qed

context ring_contract
begin

text \<open>Preparing the resources of a slave that has ended: both rings are attached and empty.\<close>

lemma init_slave_res_spec:
  assumes ok: "ipc_ok pool que s" and i: "complete_res s i" and g: "rings_exist ops s i g0 g1" "g0 \<noteq> g1"
    and en: "lr_enabled (lcore_resource s ! i) \<noteq> 0"
    and n: "length (msgs que s g0) < n" "length (msgs que s g1) < n"
  shows "\<exists>s'. init_slave_res ops n i s = Some (Return 0, s') \<and>
    ipc_frame (s\<lparr>lcore_resource := (lcore_resource s)[i := attached i g0 g1 (lcore_resource s ! i)]\<rparr>) s' \<and>
    ipc_ok pool que s' \<and> ipc_buffers pool que s' = ipc_buffers pool que s \<and>
    msgs que s' = (msgs que s)(g0 := [], g1 := [])"
proof -
  let ?s = "s\<lparr>lcore_resource := (lcore_resource s)[i := attached i g0 g1 (lcore_resource s ! i)]\<rparr>"
  have li: "i < length (lcore_resource s)" using i by (simp add: complete_res_def)
  have s: "ipc_ok pool que ?s" "valid_slave ?s i" "ring_of ?s i 0 = Some g0"
    "ring_of ?s i 1 = Some g1" "msgs que ?s = msgs que s"
    "ipc_buffers pool que ?s = ipc_buffers pool que s" "lr_enabled (lcore_resource ?s ! i) \<noteq> 0"
    using ok li en
    by (simp_all add: ipc_ok_def valid_slave_def ring_of_def attached_def msgs_def ipc_buffers_def fun_eq_iff)
  obtain m1 s1 where s1: "drain_ring ops i True n \<lparr>cmd = START, msg = []\<rparr> ?s = Some (m1, s1)"
    "ipc_frame ?s s1" "ipc_ok pool que s1" "ipc_buffers pool que s1 = ipc_buffers pool que ?s"
    "msgs que s1 = (msgs que ?s)(g1 := [])"
    using drain_ring_spec [OF s(1,2), of True g1 n "\<lparr>cmd = START, msg = []\<rparr>"] s(4,5,7) n(2) by auto
  have v1: "valid_slave s1 i" "ring_of s1 i 0 = Some g0"
    using s(2,3) valid_slave_frame [OF s1(2)] ipc_frame_sel [OF s1(2)] by simp_all
  obtain m2 s2 where s2: "drain_ring ops i False n m1 s1 = Some (m2, s2)"
    "ipc_frame s1 s2" "ipc_ok pool que s2" "ipc_buffers pool que s2 = ipc_buffers pool que s1"
    "msgs que s2 = (msgs que s1)(g0 := [])"
    using drain_ring_spec [OF s1(3) v1(1), of False g0 n m1] v1(2) s1(5) s(5) n(1) g(2) by auto
  have "init_slave_res ops n i s = Some (Return 0, s2)"
    using li en create_ms_ring_attach [OF i g(1)] s1(1) s2(1)
    by (simp add: init_slave_res_def arr_get_def)
  moreover have "msgs que s2 = (msgs que s)(g0 := [], g1 := [])"
    using s2(5) s1(5) s(5) g(2) by (simp add: fun_upd_twist)
  moreover have "ipc_buffers pool que s2 = ipc_buffers pool que s" using s2(4) s1(4) s(6) by simp
  ultimately show ?thesis using ipc_frame_trans [OF s1(2) s2(2)] s2(3) by blast
qed

end

section \<open>Restarting a slave\<close>

lemma return_mapping_spec:
  assumes "sys_wf e s" "i < RTE_MAX_LCORE e"
    "mapping_id s ! i = INVALID_MAPPING_ID \<or> mapping_id s ! i < RTE_MAX_LCORE e"
  obtains c m p where "return_mapping e i s = Some (s\<lparr>lcore_cfg := c, mapping_id := m, proc_config := p\<rparr>)"
    "length c = RTE_MAX_LCORE e" "length m = RTE_MAX_LCORE e" "length p = RTE_MAX_LCORE e"
    "set m \<subseteq> insert INVALID_MAPPING_ID (set (mapping_id s))"
    "mapping_id s ! i \<noteq> i \<longrightarrow> m ! i = mapping_id s ! i"
    "float_proc (main_information s) \<noteq> 0 \<longrightarrow> mapping_id s ! i \<noteq> INVALID_MAPPING_ID \<longrightarrow>
       0 < mapping_id s ! i \<longrightarrow> \<not> rte_lcore_is_enabled e (mapping_id s ! i) \<longrightarrow> c ! (mapping_id s ! i) = 0"
    "float_proc (main_information s) \<noteq> 0 \<longrightarrow> mapping_id s ! i \<noteq> INVALID_MAPPING_ID \<longrightarrow>
       p ! (mapping_id s ! i) = (proc_config s ! (mapping_id s ! i))\<lparr>pc_used := 0\<rparr>"
proof (cases "float_proc (main_information s) \<noteq> 0 \<and> mapping_id s ! i \<noteq> INVALID_MAPPING_ID")
  case False
  then have "return_mapping e i s = Some (s\<lparr>lcore_cfg := lcore_cfg s, mapping_id := mapping_id s,
      proc_config := proc_config s\<rparr>)"
    using assms(1,2) by (auto simp: return_mapping_def sys_wf_def arr_get_def)
  then show ?thesis
    by (rule that) (use assms False in \<open>auto simp: sys_wf_def\<close>)
next
  case True
  let ?k = "mapping_id s ! i"
  have k: "?k < RTE_MAX_LCORE e" using True assms(3) by simp
  let ?c = "if ?k = 0 \<or> rte_lcore_is_enabled e ?k then lcore_cfg s else (lcore_cfg s)[?k := 0]"
  have free: "flib_free_lcore_id e ?k s = Some (s\<lparr>lcore_cfg := ?c\<rparr>)"
    using assms(1) k by (auto simp: flib_free_lcore_id_def sys_wf_def arr_set_def)
  have "return_mapping e i s = Some (s\<lparr>lcore_cfg := ?c,
      mapping_id := (mapping_id s)[?k := INVALID_MAPPING_ID],
      proc_config := (proc_config s)[?k := (proc_config s ! ?k)\<lparr>pc_used := 0\<rparr>]\<rparr>)"
    using assms(1,2) True k
    by (simp add: return_mapping_def free set_used_eq sys_wf_def arr_get_def arr_set_def)
  then show ?thesis
    by (rule that)
      (use assms True k set_update_subset_insert [of "mapping_id s" ?k INVALID_MAPPING_ID]
        in \<open>auto simp: sys_wf_def nth_list_update\<close>)
qed

text \<open>Waiting for a core and launching on it do not touch the messages; the launch succeeds.\<close>

definition launch_ok ::
  "'d dpdk_ops \<Rightarrow> ('d \<Rightarrow> msg_ptr multiset) \<Rightarrow> ('d \<Rightarrow> ring_ptr \<Rightarrow> msg_ptr list) \<Rightarrow> nat \<Rightarrow> bool" where
  "launch_ok ops pool que i \<longleftrightarrow>
     (\<forall>d. pool (rte_eal_wait_lcore ops d i) = pool d \<and> que (rte_eal_wait_lcore ops d i) = que d) \<and>
     (\<forall>d. \<exists>d'. rte_eal_remote_launch ops d i = (0, d') \<and> pool d' = pool d \<and> que d' = que d)"

lemma launch_spec:
  assumes "launch_ok ops pool que i" "rte_lcore_is_enabled e i" "i < length (core_cfg s)"
  obtains d where "flib_remote_launch ops e (Some f) a i s =
      Some (0, s\<lparr>dpdk := d, core_cfg := (core_cfg s)[i := (core_cfg s ! i)\<lparr>ls_f := Some f, ls_arg := a\<rparr>]\<rparr>)"
    "pool d = pool (dpdk s)" "que d = que (dpdk s)"
proof -
  let ?d = "rte_eal_wait_lcore ops (dpdk s) i"
  obtain d where d: "rte_eal_remote_launch ops ?d i = (0, d)" "pool d = pool ?d" "que d = que ?d"
    using assms(1) unfolding launch_ok_def by metis
  have w: "pool ?d = pool (dpdk s)" "que ?d = que (dpdk s)"
    using assms(1) unfolding launch_ok_def by simp_all
  have "flib_remote_launch ops e (Some f) a i s =
      Some (0, s\<lparr>dpdk := d, core_cfg := (core_cfg s)[i := (core_cfg s ! i)\<lparr>ls_f := Some f, ls_arg := a\<rparr>]\<rparr>)"
    using assms(2,3) d(1) by (simp add: flib_remote_launch_def upd_core_def arr_get_def arr_set_def Let_def)
  then show ?thesis by (rule that) (use d w in simp_all)
qed

lemma ipc_frame_tables:
  "ipc_frame s s' \<Longrightarrow> mapping_id s' = mapping_id s \<and> lcore_cfg s' = lcore_cfg s \<and>
     core_cfg s' = core_cfg s \<and> lcore_resource s' = lcore_resource s"
  unfolding ipc_frame_def by auto

text \<open>The whole effect of a restart, given what the return of the core number does.\<close>

lemma reset_lcore_effect:
  assumes rc: "ring_contract ops pool que" and ok: "ipc_ok pool que s" and wf: "sys_wf e s"
    and i: "i < RTE_MAX_LCORE e" "rte_lcore_is_enabled e i" "lr_enabled (lcore_resource s ! i) = 1"
    and g: "rings_exist ops s i g0 g1" "g0 \<noteq> g1"
    and n: "length (msgs que s g0) < n" "length (msgs que s g1) < n"
    and l: "launch_ok ops pool que i"
    and ret: "return_mapping e i s = Some (s\<lparr>lcore_cfg := c, mapping_id := m, proc_config := p\<rparr>)"
  obtains s' d mm where "reset_lcore ops e n i s = Some (Return 0, s')" "ipc_ok pool que s'"
    "ipc_buffers pool que s' = ipc_buffers pool que s" "msgs que s' = (msgs que s)(g0 := [], g1 := [])"
    "s' = s\<lparr>lcore_cfg := c, mapping_id := m, proc_config := p, dpdk := d, msg_mem := mm,
       core_cfg := (core_cfg s)[i := (core_cfg s ! i)\<lparr>ls_f := Some fn_bridge_launch_one_lcore, ls_arg := 0\<rparr>],
       lcore_resource := (lcore_resource s)[i := (attached i g0 g1 (lcore_resource s ! i))\<lparr>lr_flags := 0\<rparr>]\<rparr>"
proof -
  define s1 where "s1 = s\<lparr>lcore_cfg := c, mapping_id := m, proc_config := p\<rparr>"
  have s1: "ipc_ok pool que s1" "complete_res s1 i" "rings_exist ops s1 i g0 g1"
    "lr_enabled (lcore_resource s1 ! i) \<noteq> 0" "msgs que s1 = msgs que s" "ipc_buffers pool que s1 = ipc_buffers pool que s"
    using ok wf i g(1) by (simp_all add: s1_def complete_res_def sys_wf_def rings_exist_def
        ipc_ok_def ipc_buffers_def msgs_def fun_eq_iff)
  let ?r = "attached i g0 g1 (lcore_resource s ! i)"
  obtain s2 where s2: "init_slave_res ops n i s1 = Some (Return 0, s2)"
    "ipc_frame (s1\<lparr>lcore_resource := (lcore_resource s1)[i := attached i g0 g1 (lcore_resource s1 ! i)]\<rparr>) s2"
    "ipc_ok pool que s2" "ipc_buffers pool que s2 = ipc_buffers pool que s1" "msgs que s2 = (msgs que s1)(g0 := [], g1 := [])"
    using ring_contract.init_slave_res_spec [OF rc s1(1-3) g(2) s1(4), of n] s1(5) n by auto
  obtain d2 mm where f: "s2 = s1\<lparr>lcore_resource := (lcore_resource s)[i := ?r], dpdk := d2, msg_mem := mm\<rparr>"
    using s2(2) unfolding ipc_frame_def by (auto simp: s1_def)
  have li: "i < length (lcore_resource s)" "i < length (core_cfg s)"
    using wf i(1) by (simp_all add: sys_wf_def)
  let ?c = "(core_cfg s)[i := (core_cfg s ! i)\<lparr>ls_f := Some fn_bridge_launch_one_lcore, ls_arg := 0\<rparr>]"
  obtain d where d: "flib_remote_launch ops e (Some fn_bridge_launch_one_lcore) 0 i s2 =
      Some (0, s2\<lparr>dpdk := d, core_cfg := ?c\<rparr>)" "pool d = pool (dpdk s2)" "que d = que (dpdk s2)"
    using launch_spec [OF l i(2), of s2 fn_bridge_launch_one_lcore 0] li by (auto simp: f s1_def)
  let ?s4 = "s\<lparr>lcore_cfg := c, mapping_id := m, proc_config := p, dpdk := d, msg_mem := mm, core_cfg := ?c,
    lcore_resource := (lcore_resource s)[i := ?r\<lparr>lr_flags := 0\<rparr>]\<rparr>"
  have "recreate_one_slave ops e n i s1 = Some (Return 0, s2\<lparr>dpdk := d, core_cfg := ?c\<rparr>)"
    using s2(1) d(1) by (simp add: recreate_one_slave_def)
  then have run: "reset_lcore ops e n i s = Some (Return 0, ?s4)"
    using ret li i(3) by (simp add: reset_lcore_def arr_get_def set_lcore_res_eq f flip: s1_def) (simp add: s1_def)
  have "ipc_ok pool que ?s4" "ipc_buffers pool que ?s4 = ipc_buffers pool que s2"
    using s2(3) d(2,3) by (simp_all add: ipc_ok_def ipc_buffers_def)
  moreover have "msgs que ?s4 = msgs que s2" by (rule ext) (use d(3) in \<open>simp add: msgs_def f\<close>)
  ultimately show ?thesis using that [OF run] s2(4,5) s1(5,6) by simp
qed

lemma reset_lcore_run:
  assumes "ring_contract ops pool que" "ipc_ok pool que s" and wf: "sys_wf e s"
    and i: "i < RTE_MAX_LCORE e" "rte_lcore_is_enabled e i" "lr_enabled (lcore_resource s ! i) = 1"
    "rings_exist ops s i g0 g1" "g0 \<noteq> g1" "length (msgs que s g0) < n" "length (msgs que s g1) < n" "launch_ok ops pool que i"
    and map: "mapping_id s ! i = INVALID_MAPPING_ID \<or> mapping_id s ! i < RTE_MAX_LCORE e"
  shows "\<exists>s'. reset_lcore ops e n i s = Some (Return 0, s') \<and>
    lr_flags (lcore_resource s' ! i) = 0 \<and> lr_ring (lcore_resource s' ! i) = [Some g0, Some g1] \<and>
    msgs que s' = (msgs que s)(g0 := [], g1 := []) \<and> ipc_ok pool que s' \<and>
    ls_f (core_cfg s' ! i) = Some fn_bridge_launch_one_lcore \<and>
    (mapping_id s ! i \<noteq> i \<longrightarrow> mapping_id s' ! i = mapping_id s ! i) \<and>
    (float_proc (main_information s) \<noteq> 0 \<longrightarrow> mapping_id s ! i \<noteq> INVALID_MAPPING_ID \<longrightarrow>
       0 < mapping_id s ! i \<longrightarrow> \<not> rte_lcore_is_enabled e (mapping_id s ! i) \<longrightarrow>
       lcore_cfg s' ! (mapping_id s ! i) = 0) \<and>
    (float_proc (main_information s) \<noteq> 0 \<longrightarrow> mapping_id s ! i \<noteq> INVALID_MAPPING_ID \<longrightarrow>
       proc_config s' ! (mapping_id s ! i) = (proc_config s ! (mapping_id s ! i))\<lparr>pc_used := 0\<rparr>) \<and>
    (\<forall>j. j \<noteq> i \<longrightarrow> lcore_resource s' ! j = lcore_resource s ! j)"
proof -
  obtain c m p where ret: "return_mapping e i s = Some (s\<lparr>lcore_cfg := c, mapping_id := m, proc_config := p\<rparr>)"
    and stale: "mapping_id s ! i \<noteq> i \<longrightarrow> m ! i = mapping_id s ! i"
    and freed: "float_proc (main_information s) \<noteq> 0 \<longrightarrow> mapping_id s ! i \<noteq> INVALID_MAPPING_ID \<longrightarrow>
       0 < mapping_id s ! i \<longrightarrow> \<not> rte_lcore_is_enabled e (mapping_id s ! i) \<longrightarrow> c ! (mapping_id s ! i) = 0"
    and unused: "float_proc (main_information s) \<noteq> 0 \<longrightarrow> mapping_id s ! i \<noteq> INVALID_MAPPING_ID \<longrightarrow>
       p ! (mapping_id s ! i) = (proc_config s ! (mapping_id s ! i))\<lparr>pc_used := 0\<rparr>"
    using return_mapping_spec [OF wf i(1) map] by metis
  obtain s' d mm where s': "reset_lcore ops e n i s = Some (Return 0, s')" "ipc_ok pool que s'"
    "msgs que s' = (msgs que s)(g0 := [], g1 := [])"
    "s' = s\<lparr>lcore_cfg := c, mapping_id := m, proc_config := p, dpdk := d, msg_mem := mm,
       core_cfg := (core_cfg s)[i := (core_cfg s ! i)\<lparr>ls_f := Some fn_bridge_launch_one_lcore, ls_arg := 0\<rparr>],
       lcore_resource := (lcore_resource s)[i := (attached i g0 g1 (lcore_resource s ! i))\<lparr>lr_flags := 0\<rparr>]\<rparr>"
    by (rule reset_lcore_effect [OF assms(1-11) ret])
  have "i < length (lcore_resource s)" "i < length (core_cfg s)" using wf i(1) by (simp_all add: sys_wf_def)
  then have "lr_flags (lcore_resource s' ! i) = 0" "lr_ring (lcore_resource s' ! i) = [Some g0, Some g1]"
    "ls_f (core_cfg s' ! i) = Some fn_bridge_launch_one_lcore" "mapping_id s' = m" "lcore_cfg s' = c"
    "proc_config s' = p" "\<forall>j. j \<noteq> i \<longrightarrow> lcore_resource s' ! j = lcore_resource s ! j"
    by (simp_all add: s'(4) attached_def)
  then show ?thesis using s'(1-3) stale freed unused by (intro exI [of _ s']) simp
qed

section \<open>Properties\<close>

lemma ring_names_differ:
  assumes "i < 10 ^ 9" "j < 10 ^ 9"
  shows "ring_name_of RING_MASTER_NAME i \<noteq> ring_name_of RING_SLAVE_NAME j"
    "ring_name_of RING_MASTER_NAME i = ring_name_of RING_MASTER_NAME j \<longleftrightarrow> i = j"
    "ring_name_of RING_SLAVE_NAME i = ring_name_of RING_SLAVE_NAME j \<longleftrightarrow> i = j"
proof -
  have n: "ring_name_of RING_MASTER_NAME k = RING_MASTER_NAME @ show_nat k"
    "ring_name_of RING_SLAVE_NAME k = RING_SLAVE_NAME @ show_nat k" if "k < 10 ^ 9" for k
    using that by (simp_all add: ring_name_of_eq RING_MASTER_NAME_def RING_SLAVE_NAME_def)
  show "ring_name_of RING_MASTER_NAME i \<noteq> ring_name_of RING_SLAVE_NAME j"
    unfolding n(1) [OF assms(1)] n(2) [OF assms(2)]
    by (simp add: RING_MASTER_NAME_def RING_SLAVE_NAME_def)
  show "ring_name_of RING_MASTER_NAME i = ring_name_of RING_MASTER_NAME j \<longleftrightarrow> i = j"
    "ring_name_of RING_SLAVE_NAME i = ring_name_of RING_SLAVE_NAME j \<longleftrightarrow> i = j"
    unfolding n(1) [OF assms(1)] n(1) [OF assms(2)] n(2) [OF assms(1)] n(2) [OF assms(2)]
    using show_nat_inj [OF _ assms] by auto
qed

text \<open>A slave on core 1 that ended while it held core number 3, with a message left over.\<close>

definition demo_mp :: "list_dpdk sys" where
  "demo_mp = demo_ipc
     \<lparr>dpdk := (dpdk demo_ipc)\<lparr>ring_names :=
        [ring_name_of RING_MASTER_NAME 1, ring_name_of RING_SLAVE_NAME 1]\<rparr>,
      mapping_id := [INVALID_MAPPING_ID, 3, INVALID_MAPPING_ID, INVALID_MAPPING_ID],
      lcore_cfg := [1, 1, 0, 1]\<rparr>"

lemmas demo_mp_defs = demo_mp_def demo_ipc_def demo_sys_def

lemma demo_mp_facts:
  "ipc_ok list_pool ring_queues demo_mp" "sys_wf demo_eal demo_mp"
  "rings_exist list_ops demo_mp 1 0 1" "launch_ok list_ops list_pool ring_queues 1"
  "length (msgs ring_queues demo_mp 0) < 2" "length (msgs ring_queues demo_mp 1) < 2"
  "lr_enabled (lcore_resource demo_mp ! 1) = 1" "mapping_id demo_mp ! 1 = 3"
  "1 < RTE_MAX_LCORE demo_eal" "rte_lcore_is_enabled demo_eal 1"
  "mapping_id demo_mp ! 1 = INVALID_MAPPING_ID \<or> mapping_id demo_mp ! 1 < RTE_MAX_LCORE demo_eal"
  "mapping_id demo_mp ! 1 < RTE_MAX_LCORE demo_eal" "mapping_id demo_mp ! 1 \<noteq> 1"
proof -
  show "ipc_ok list_pool ring_queues demo_mp"
    using demo_ipc_ok(1) by (simp add: ipc_ok_def demo_mp_def list_pool_def)
  show "rings_exist list_ops demo_mp 1 0 1"
    using ring_names_differ(1) [of 1 1] by (simp add: rings_exist_def demo_mp_def list_ops_def eq_commute)
  show "launch_ok list_ops list_pool ring_queues 1"
    by (simp add: launch_ok_def list_ops_def list_pool_def)
qed (simp_all add: demo_mp_defs sys_wf_def demo_eal_def msgs_def)

text \<open>
  The end of a slave is recorded. When the process of an enabled slave has ended, the
  callback marks its configuration as unused and asks for its recreation, unless the flag
  against recreation is set; nothing else changes. For a slave that is not enabled nothing
  changes at all.
\<close>

lemma slave_exit_recorded:
  assumes "lcore < length (lcore_resource s)"
    "lr_config_id (lcore_resource s ! lcore) < length (proc_config s)"
  shows "slave_exit_cb lcore stat s = Some
    (if lr_enabled (lcore_resource s ! lcore) = 0 then s
     else s\<lparr>proc_config := (proc_config s)[lr_config_id (lcore_resource s ! lcore) :=
               (proc_config s ! lr_config_id (lcore_resource s ! lcore))\<lparr>pc_used := 0\<rparr>],
            lcore_resource := (if bit (lr_flags (lcore_resource s ! lcore)) 1 then lcore_resource s
              else (lcore_resource s)[lcore := (lcore_resource s ! lcore)\<lparr>lr_flags := SLAVE_RECREATE_FLAG\<rparr>])\<rparr>)"
proof -
  have "lr_flags (lcore_resource s ! lcore) AND SLAVE_DONT_RECREATE_FLAG = 0 \<longleftrightarrow>
      \<not> bit (lr_flags (lcore_resource s ! lcore)) 1"
    using and_exp_eq_0_iff_not_bit [of "lr_flags (lcore_resource s ! lcore)" 1]
    by (simp add: SLAVE_DONT_RECREATE_FLAG_def)
  then show ?thesis
    using assms by (simp add: slave_exit_cb_def arr_get_def set_used_eq set_lcore_res_eq)
qed

lemma slave_exit_recorded_witness:
  "\<exists>s'. slave_exit_cb 1 0 demo_mp = Some s' \<and> lr_flags (lcore_resource s' ! 1) = SLAVE_RECREATE_FLAG"
  using slave_exit_recorded [of 1 demo_mp 0] by (simp add: demo_mp_defs)



text \<open>
  C19: What \<open>reset_lcore\<close> does for a slave that was killed and has not returned its core number itself. It clears
  the entry of \<open>mapping_id\<close> at the position of the number instead of the entry of the slave, which keeps
  the number although another process may have been given it since. And it uses the core number as the
  number of a configuration: that configuration is marked as unused, also when it is the one of another
  slave, which still runs with it; if it is enabled, the master can hand it out a second time.
\<close>

theorem killed_slave_reset:
  assumes "ring_contract ops pool que" "ipc_ok pool que s" "sys_wf e s"
    "i < RTE_MAX_LCORE e" "rte_lcore_is_enabled e i" "lr_enabled (lcore_resource s ! i) = 1"
    "rings_exist ops s i g0 g1" "g0 \<noteq> g1"
    "length (msgs que s g0) < n" "length (msgs que s g1) < n" "launch_ok ops pool que i"
    "mapping_id s ! i = k" "k < RTE_MAX_LCORE e" "k < INVALID_MAPPING_ID" "k \<noteq> i" "float_proc (main_information s) \<noteq> 0"
    "j \<noteq> i" "lr_config_id (lcore_resource s ! j) = k"
  shows "\<exists>s'. reset_lcore ops e n i s = Some (Return 0, s') \<and> mapping_id s' ! i = k \<and>
    lr_config_id (lcore_resource s' ! j) = k \<and> pc_used (proc_config s' ! k) = 0 \<and>
    pc_enabled (proc_config s' ! k) = pc_enabled (proc_config s ! k)"
proof -
  have "mapping_id s ! i = INVALID_MAPPING_ID \<or> mapping_id s ! i < RTE_MAX_LCORE e" using assms(12,13) by simp
  from reset_lcore_run [OF assms(1-11) this] show ?thesis
    by (rule ex_conseq) (use assms(12-18) in simp)
qed

text \<open>Another slave, on core 2, works with configuration 3.\<close>

definition demo_killed :: "list_dpdk sys" where
  "demo_killed = demo_mp\<lparr>lcore_resource :=
     (lcore_resource demo_mp)[2 := (lcore_resource demo_mp ! 2)\<lparr>lr_config_id := 3\<rparr>]\<rparr>"

theorem killed_slave_reset_witness:
  "\<exists>s'. reset_lcore list_ops demo_eal 2 1 demo_killed = Some (Return 0, s') \<and> mapping_id s' ! 1 = 3 \<and>
     lr_config_id (lcore_resource s' ! 2) = 3 \<and> pc_used (proc_config s' ! 3) = 0"
proof -
  have ne: "(0 :: ring_ptr) \<noteq> 1" by simp
  have wf: "ipc_ok list_pool ring_queues demo_killed" "sys_wf demo_eal demo_killed"
    "rings_exist list_ops demo_killed 1 0 1" "lr_enabled (lcore_resource demo_killed ! 1) = 1"
    "length (msgs ring_queues demo_killed 0) < 2" "length (msgs ring_queues demo_killed 1) < 2"
    "mapping_id demo_killed ! 1 = 3"
    using demo_mp_facts by (auto simp: demo_killed_def ipc_ok_def sys_wf_def rings_exist_def msgs_def
        dest!: set_update_subset_insert [THEN subsetD])
  have k: "3 < RTE_MAX_LCORE demo_eal" "3 < INVALID_MAPPING_ID" "(3 :: nat) \<noteq> 1" "(2 :: nat) \<noteq> 1"
    "float_proc (main_information demo_killed) \<noteq> 0" "lr_config_id (lcore_resource demo_killed ! 2) = 3"
    by (simp_all add: demo_killed_def demo_mp_defs demo_eal_def INVALID_MAPPING_ID_def)
  from killed_slave_reset [OF lists.ring_contract_axioms wf(1,2) demo_mp_facts(9,10) wf(4,3) ne wf(5,6)
      demo_mp_facts(4) wf(7) k(1-3,5,4,6)] show ?thesis by blast
qed

end
