(* ===== verification/Master.thy ===== *)
theory Master
  imports Port_Setup Master_Stats Dpdk_Mp
begin

text \<open>
  The master process (\<^verbatim>\<open>src/main.c\<close>): answering the configuration requests of the slaves, the
  timers, restarting slaves that have ended, and the setup that \<open>main\<close> performs before it enters
  its loop. What the slaves and the other threads do between two rounds, the clock and the results
  of the system calls are arguments.
\<close>

section \<open>Answering a request\<close>

fun set_cfg_loop :: "'d dpdk_ops \<Rightarrow> nat \<Rightarrow> nat list \<Rightarrow> 'd sys \<Rightarrow> (int \<times> 'd sys) option" where
  "set_cfg_loop ops lcore_id [] s = Some (- 1, s)"
| "set_cfg_loop ops lcore_id (proc_id # ids) s = do {
     proc_cfg \<leftarrow> arr_get (proc_config s) proc_id;
     if pc_used proc_cfg = 1 \<or> pc_enabled proc_cfg = 0 then set_cfg_loop ops lcore_id ids s
     else do {
       let retval = length (show_nat proc_id);
       if retval \<le> 0 \<and> retval > 10 then Some (- 1, s)
       else do {
         (r, s) \<leftarrow> send_cmd ops lcore_id \<lparr>cmd = CFG, msg = snprintf_d 10 proc_id\<rparr> True s;
         if r \<noteq> 0 then Some (- 1, s)
         else do {
           s \<leftarrow> set_used proc_id 1 s;
           lcore_res \<leftarrow> arr_get (lcore_resource s) lcore_id;
           s \<leftarrow> set_lcore_res lcore_id (lcore_res\<lparr>lr_config_id := proc_id\<rparr>) s;
           Some (0, s\<lparr>main_information := (main_information s)
             \<lparr>proc_config_used_nb := proc_config_used_nb (main_information s) + 1\<rparr>\<rparr>)
         }
       }
     }
   }"

definition main_set_lcore_cfg :: "'d dpdk_ops \<Rightarrow> eal \<Rightarrow> nat \<Rightarrow> 'd sys \<Rightarrow> (int \<times> 'd sys) option" where
  "main_set_lcore_cfg ops e lcore_id s = set_cfg_loop ops lcore_id [0..<RTE_MAX_LCORE e] s"

section \<open>A round of the main loop\<close>

text \<open>The loop that reads the messages; the local variables are \<open>init_config\<close> and \<open>msg\<close>.\<close>

fun poll_lcores ::
  "'d dpdk_ops \<Rightarrow> eal \<Rightarrow> nat list \<Rightarrow> int \<Rightarrow> bridge_msg_s \<Rightarrow> 'd sys \<Rightarrow>
   (int \<times> bridge_msg_s \<times> 'd sys) option" where
  "poll_lcores ops e [] init_config m s = Some (init_config, m, s)"
| "poll_lcores ops e (lcore_id # ids) init_config m s = do {
     (return_value, m, s) \<leftarrow> get_cmd ops lcore_id m True s;
     if return_value = 0 \<and> cmd m = CFG then do {
       (v, s) \<leftarrow> main_set_lcore_cfg ops e lcore_id s;
       poll_lcores ops e ids (if v = 0 then init_config - 1 else init_config) m s
     }
     else poll_lcores ops e ids init_config m s
   }"

text \<open>The loop that restarts slaves; \<open>n\<close> bounds the reads with which a ring is emptied.\<close>

fun recreate_lcores ::
  "'d dpdk_ops \<Rightarrow> eal \<Rightarrow> nat \<Rightarrow> nat list \<Rightarrow> 'd sys \<Rightarrow> (unit proc_outcome \<times> 'd sys) option" where
  "recreate_lcores ops e n [] s = Some (Return (), s)"
| "recreate_lcores ops e n (lcore_id # ids) s = do {
     lcore_res \<leftarrow> arr_get (lcore_resource s) lcore_id;
     if lr_enabled lcore_res = 1 \<and> lr_flags lcore_res = SLAVE_RECREATE_FLAG then do {
       (r, s) \<leftarrow> reset_lcore ops e n (lr_lcore_id lcore_res) s;
       case r of
         Exit c \<Rightarrow> Some (Exit c, s)
       | Return v \<Rightarrow>
           if v \<noteq> 0 then recreate_lcores ops e n ids s
           else do {
             lcore_res \<leftarrow> arr_get (lcore_resource s) lcore_id;
             s \<leftarrow> set_lcore_res lcore_id
               (lcore_res\<lparr>lr_flags := lr_flags lcore_res AND NOT SLAVE_RECREATE_FLAG\<rparr>) s;
             recreate_lcores ops e n ids s
           }
     }
     else recreate_lcores ops e n ids s
   }"

text \<open>
  The variables of the loop, with the log file and what has been printed. A round reads the clock
  (\<open>ri_now\<close>) and the counters of the devices (\<open>ri_eth_stats\<close>) and performs its output with \<open>ri_io\<close>; \<open>ri_others\<close> is what the slaves and the threads that wait
  for them have done since the last round.
\<close>

record 'd main_loop_s =
  ml_master :: "'d master"
  init_config :: int
  ml_msg :: bridge_msg_s
  prev_tsc :: u64
  timer_tsc :: u64
  timer_stats_tsc :: u64
  cumulative_tsc :: u64
  stats_fp :: string
  screen :: "(((int \<times> nat \<times> figures) list \<times> figures) \<times> (nat \<times> u64 list) list list) list"

record 'd round_input =
  ri_now :: u64
  ri_io :: stats_io
  ri_eth_stats :: "nat \<Rightarrow> rte_eth_stats option"
  ri_others :: "'d sys \<Rightarrow> 'd sys"

definition print_timer ::
  "(nat \<Rightarrow> rte_eth_stats option) \<Rightarrow> u64 \<Rightarrow> 'd main_loop_s \<Rightarrow> 'd main_loop_s option" where
  "print_timer rte_eth_stats_get diff_tsc l =
     (if timer_period (ml_master l) > 0 then
        let l = l\<lparr>timer_tsc := timer_tsc l + diff_tsc\<rparr>
        in if timer_tsc l \<ge> of_int (timer_period (ml_master l)) then do {
             out \<leftarrow> print_stats (common (ml_master l));
             ports \<leftarrow> print_port_stats rte_eth_stats_get (common (ml_master l));
             Some (l\<lparr>screen := screen l @ [(out, ports)], timer_tsc := 0\<rparr>)
           }
           else Some l
      else Some l)"

definition log_timer ::
  "stats_io \<Rightarrow> u64 \<Rightarrow> 'd main_loop_s \<Rightarrow> (unit proc_outcome \<times> 'd main_loop_s) option" where
  "log_timer i diff_tsc l =
     (if timer_stats (ml_master l) > 0 then
        let l = l\<lparr>timer_stats_tsc := timer_stats_tsc l + diff_tsc\<rparr>
        in if timer_stats_tsc l \<ge> of_int (timer_stats (ml_master l)) then do {
             (r, fp) \<leftarrow> write_stats i (cumulative_tsc l) (common (ml_master l)) (stats_fp l);
             case r of
               Exit c \<Rightarrow> Some (Exit c, l\<lparr>stats_fp := fp\<rparr>)
             | Return _ \<Rightarrow> Some (Return (), l\<lparr>stats_fp := fp, timer_stats_tsc := 0\<rparr>)
           }
           else Some (Return (), l)
      else Some (Return (), l))"

definition set_common :: "'d sys \<Rightarrow> 'd main_loop_s \<Rightarrow> 'd main_loop_s" where
  "set_common s l = l\<lparr>ml_master := (ml_master l)\<lparr>common := s\<rparr>\<rparr>"

definition main_round ::
  "'d dpdk_ops \<Rightarrow> eal \<Rightarrow> nat \<Rightarrow> 'd round_input \<Rightarrow> 'd main_loop_s \<Rightarrow>
   (unit proc_outcome \<times> 'd main_loop_s) option" where
  "main_round ops e n inp l = do {
     let l = set_common (ri_others inp (common (ml_master l))) l;
     let cur_tsc = ri_now inp;
     let diff_tsc = cur_tsc - prev_tsc l;
     let l = l\<lparr>cumulative_tsc := cumulative_tsc l + diff_tsc\<rparr>;
     l \<leftarrow> print_timer (ri_eth_stats inp) diff_tsc l;
     (r, l) \<leftarrow> log_timer (ri_io inp) diff_tsc l;
     case r of
       Exit c \<Rightarrow> Some (Exit c, l)
     | Return _ \<Rightarrow> do {
         let l = l\<lparr>prev_tsc := cur_tsc\<rparr>;
         (c, m, s) \<leftarrow> poll_lcores ops e [0..<RTE_MAX_LCORE e] (init_config l) (ml_msg l)
           (common (ml_master l));
         let l = l\<lparr>init_config := c, ml_msg := m\<rparr>;
         (r, s) \<leftarrow> recreate_lcores ops e n [0..<RTE_MAX_LCORE e] s;
         Some (r, set_common s l)
       }
   }"

text \<open>The loop, for as many rounds as there are inputs; \<open>fopen\<close> says whether the log can be opened.\<close>

fun main_rounds ::
  "'d dpdk_ops \<Rightarrow> eal \<Rightarrow> nat \<Rightarrow> 'd round_input list \<Rightarrow> 'd main_loop_s \<Rightarrow>
   (unit proc_outcome \<times> 'd main_loop_s) option" where
  "main_rounds ops e n [] l = Some (Return (), l)"
| "main_rounds ops e n (inp # inps) l = do {
     (r, l) \<leftarrow> main_round ops e n inp l;
     case r of Exit c \<Rightarrow> Some (Exit c, l) | Return _ \<Rightarrow> main_rounds ops e n inps l
   }"

definition main_loop_start :: "u64 \<Rightarrow> bridge_msg_s \<Rightarrow> 'd master \<Rightarrow> 'd main_loop_s" where
  "main_loop_start tsc m0 m =
     \<lparr>ml_master = m, init_config = proc_config_nb (main_information (common m)) -
        proc_config_used_nb (main_information (common m)), ml_msg = m0, prev_tsc = tsc, timer_tsc = 0,
      timer_stats_tsc = 0, cumulative_tsc = 0, stats_fp = [], screen = []\<rparr>"

definition main_loop ::
  "'d dpdk_ops \<Rightarrow> eal \<Rightarrow> nat \<Rightarrow> bool \<Rightarrow> u64 \<Rightarrow> bridge_msg_s \<Rightarrow> 'd round_input list \<Rightarrow> 'd master \<Rightarrow>
   (unit proc_outcome \<times> 'd main_loop_s) option" where
  "main_loop ops e n fopen_ok tsc m0 inps m =
     (if timer_stats m > 0 \<and> \<not> fopen_ok then Some (Exit 1, main_loop_start tsc m0 m)
      else main_rounds ops e n inps (main_loop_start tsc m0 m))"

section \<open>Setup\<close>

text \<open>What the setup finds: the results of the calls of \<open>main\<close> in the order of the calls.\<close>

record main_env =
  sched_getaffinity :: "nat \<Rightarrow> int \<times> nat set"
  sched_setaffinity :: "nat \<Rightarrow> nat set \<Rightarrow> int"
  rte_eal_init_r :: int
  me_fopen :: "string \<Rightarrow> string option"
  me_opts :: "option_result list"
  me_optind :: int
  flib_zmalloc1 :: bool
  flib_zmalloc2 :: bool
  stats_zmalloc :: bool
  mapping_malloc :: bool
  rte_eth_dev_count :: u8
  RTE_MAX_ETHPORTS :: nat
  pool_create_ok :: "nat \<Rightarrow> bool"
  message_pool_ok :: bool
  dev_info_txq_flags :: "nat \<Rightarrow> u32"
  port_call_r :: "port_call \<Rightarrow> int"
  port_link :: "nat \<Rightarrow> nat \<Rightarrow> bool"
  fdir_main_r :: int
  rte_lcore_id :: nat

definition zero_stats :: bridge_port_statistics where
  "zero_stats = \<lparr>tx = 0, rx = 0, filtered = 0, dropped = 0, rx_b = 0, filtered_b = 0, dropped_b = 0, pid = 0\<rparr>"

definition main_args :: "main_env \<Rightarrow> 'd master \<Rightarrow> (unit proc_outcome \<times> 'd master) option" where
  "main_args me m =
     (case get_cpu_affinity (sched_getaffinity me) \<lparr>aff_set = {}, aff_size = 0\<rparr> of (s, cpu_aff) \<Rightarrow>
      if s \<noteq> 0 then Some (Exit 1, m)
      else if clear_cpu_affinity (sched_setaffinity me) cpu_aff \<noteq> 0 then Some (Exit 1, m)
      else if rte_eal_init_r me < 0 then Some (Exit 1, m)
      else do {
        let m = m\<lparr>timer_period := 10 * TIMER_MILLISECOND * 1000, timer_stats := 0\<rparr>;
        (r, m) \<leftarrow> parse_args (me_fopen me) (me_opts me) (me_optind me) m;
        case r of
          Exit c \<Rightarrow> Some (Exit c, m)
        | Return v \<Rightarrow> if v < 0 then Some (Exit 1, m) else Some (Return (), m)
      })"

text \<open>The tables of the processes, and the resources of the cores.\<close>

definition zero_resource :: "nat \<Rightarrow> lcore_resource_s" where
  "zero_resource i = \<lparr>lr_enabled = 0, lr_flags = 0, lr_config_id = 0, lr_lcore_id = i, lr_pair_id = 0,
     lr_ring_name = [[], []], lr_ring = [None, None]\<rparr>"

definition main_tables :: "main_env \<Rightarrow> eal \<Rightarrow> 'd sys \<Rightarrow> unit proc_outcome \<times> 'd sys" where
  "main_tables me e s = (case flib_init e (flib_zmalloc1 me) (flib_zmalloc2 me) s of
       (Exit c, s) \<Rightarrow> (Exit c, s)
     | (Return r, s) \<Rightarrow>
         if r \<noteq> 0 then (Exit 1, s)
         else case bridge_malloc_shared_struct e (stats_zmalloc me) (mapping_malloc me) zero_stats s of
           (r, s) \<Rightarrow>
             if r \<noteq> 0 then (Exit 1, s)
             else (Return (), s\<lparr>lcore_resource := map zero_resource [0..<RTE_MAX_LCORE e]\<rparr>))"

text \<open>The number of ports, and the pools: one for the packets of each enabled port, one for messages.\<close>

fun create_pools :: "(nat \<Rightarrow> bool) \<Rightarrow> u32 \<Rightarrow> nat list \<Rightarrow> bool option" where
  "create_pools ok port_mask [] = Some True"
| "create_pools ok port_mask (port_id # ps) = do {
     en \<leftarrow> port_enabled port_mask port_id;
     if en \<and> \<not> ok port_id then Some False else create_pools ok port_mask ps
   }"

definition main_pools :: "main_env \<Rightarrow> 'd master \<Rightarrow> (u8 proc_outcome \<times> 'd master) option" where
  "main_pools me m = do {
     let nb_ports = rte_eth_dev_count me;
     let m = set_main (\<lambda>i. i\<lparr>mi_port_nb := nb_ports\<rparr>) m;
     if nb_ports < 1 then Some (Exit 1, m)
     else do {
       let nb_ports = (if unat nb_ports > RTE_MAX_ETHPORTS me then of_nat (RTE_MAX_ETHPORTS me) else nb_ports);
       ok \<leftarrow> create_pools (pool_create_ok me) (mi_port_mask (main_information (common m))) [0..<unat nb_ports];
       if ok \<and> message_pool_ok me then Some (Return nb_ports, m) else Some (Exit 1, m)
     }
   }"

text \<open>
  The defaults of the devices: those of an enabled port are stored, with the flag against packets of
  several segments cleared. The result counts the enabled ports.
\<close>

definition ETH_TXQ_FLAGS_NOMULTSEGS :: u32 where "ETH_TXQ_FLAGS_NOMULTSEGS = 1"

fun dev_defaults :: "main_env \<Rightarrow> nat list \<Rightarrow> nat \<Rightarrow> 'd master \<Rightarrow> (nat \<times> 'd master) option" where
  "dev_defaults me [] nb_ports_in_mask m = Some (nb_ports_in_mask, m)"
| "dev_defaults me (port_id # ps) nb_ports_in_mask m = do {
     en \<leftarrow> port_enabled (mi_port_mask (main_information (common m))) port_id;
     if \<not> en then dev_defaults me ps nb_ports_in_mask m
     else do {
       port_conf \<leftarrow> arr_get (port_queue_conf m) port_id;
       let port_conf = port_conf\<lparr>default_txq_flags := dev_info_txq_flags me port_id\<rparr>;
       let port_conf = port_conf\<lparr>default_txq_flags := default_txq_flags port_conf AND NOT ETH_TXQ_FLAGS_NOMULTSEGS\<rparr>;
       dev_defaults me ps (nb_ports_in_mask + 1)
         (m\<lparr>port_queue_conf := (port_queue_conf m)[port_id := port_conf]\<rparr>)
     }
   }"

text \<open>Every core but that of the master is enabled.\<close>

fun enable_lcores :: "nat list \<Rightarrow> 'd sys \<Rightarrow> 'd sys option" where
  "enable_lcores [] s = Some s"
| "enable_lcores (i # is) s = do {
     lcore_res \<leftarrow> arr_get (lcore_resource s) i;
     s \<leftarrow> set_lcore_res i (lcore_res\<lparr>lr_enabled := 1\<rparr>) s;
     enable_lcores is s
   }"

text \<open>The loop over the ports: an enabled port has at least one queue in each direction.\<close>

definition min_queues :: "port_queue_conf_s \<Rightarrow> port_queue_conf_s" where
  "min_queues c = (let c = (if queue_tx_nb c = 0 then c\<lparr>queue_tx_nb := queue_tx_nb c + 1\<rparr> else c)
     in if queue_rx_nb c = 0 then c\<lparr>queue_rx_nb := queue_rx_nb c + 1\<rparr> else c)"

fun init_ports ::
  "main_env \<Rightarrow> nat list \<Rightarrow> u8 \<Rightarrow> port_call list \<Rightarrow> 'd master \<Rightarrow>
   (u8 proc_outcome \<times> port_call list \<times> 'd master) option" where
  "init_ports me [] nb_ports_available log m = Some (Return nb_ports_available, log, m)"
| "init_ports me (port_id # ps) nb_ports_available log m = do {
     en \<leftarrow> port_enabled (mi_port_mask (main_information (common m))) port_id;
     if \<not> en then init_ports me ps (nb_ports_available - 1) log m
     else do {
       port_qconf \<leftarrow> arr_get (port_queue_conf m) port_id;
       let m = m\<lparr>port_queue_conf := (port_queue_conf m)[port_id := min_queues port_qconf]\<rparr>;
       (r, l) \<leftarrow> port_init (port_call_r me) (unat (rte_eth_dev_count me)) (mi_fdir (main_information (common m)))
         (port_queue_conf m) (of_nat port_id);
       if r = Return 0 then init_ports me ps nb_ports_available (log @ l) m
       else Some (Exit 1, log @ l, m)
     }
   }"

text \<open>
  The ports: initialised, waited for, and given the rules of the flow director. The calls made on
  the ports and the report on the links are part of the result.
\<close>

definition main_ports ::
  "main_env \<Rightarrow> u8 \<Rightarrow> 'd master \<Rightarrow> (unit proc_outcome \<times> port_call list \<times> (nat \<times> bool) list \<times> 'd master) option" where
  "main_ports me nb_ports m = do {
     (r, log, m) \<leftarrow> init_ports me [0..<unat nb_ports] nb_ports [] m;
     case r of
       Exit c \<Rightarrow> Some (Exit c, log, [], m)
     | Return nb_ports_available \<Rightarrow> do {
         let m = set_main (\<lambda>i. i\<lparr>mi_port_nb_enabled := nb_ports_available\<rparr>) m;
         if nb_ports_available = 0 then Some (Exit 1, log, [], m)
         else do {
           (_, _, report) \<leftarrow> check_all_ports_link_status (port_link me) nb_ports
             (mi_port_mask (main_information (common m)));
           if mi_fdir (main_information (common m)) = 1 \<and> fdir_main_r me \<noteq> 0
           then Some (Exit 1, log, report, m)
           else Some (Return (), log, report, m)
         }
       }
   }"

text \<open>The rings of every enabled core, and the callback for the end of its process.\<close>

fun create_rings :: "'d dpdk_ops \<Rightarrow> eal \<Rightarrow> nat list \<Rightarrow> 'd sys \<Rightarrow> (unit proc_outcome \<times> 'd sys) option" where
  "create_rings ops e [] s = Some (Return (), s)"
| "create_rings ops e (i # is) s = do {
     lcore_res \<leftarrow> arr_get (lcore_resource s) i;
     if lr_enabled lcore_res \<noteq> 0 then do {
       (r, s) \<leftarrow> create_ms_ring ops i s;
       if r \<noteq> 0 then Some (Exit 1, s)
       else do {
         (r, s) \<leftarrow> flib_register_slave_exit_notify e i (Some fn_slave_exit_cb) s;
         if r \<noteq> 0 then Some (Exit 1, s) else create_rings ops e is s
       }
     }
     else create_rings ops e is s
   }"

definition main_launch ::
  "'d dpdk_ops \<Rightarrow> main_env \<Rightarrow> eal \<Rightarrow> 'd sys \<Rightarrow> (unit proc_outcome \<times> 'd sys) option" where
  "main_launch ops me e s = do {
     (r, s) \<leftarrow> create_rings ops e [0..<RTE_MAX_LCORE e] s;
     case r of
       Exit c \<Rightarrow> Some (Exit c, s)
     | Return _ \<Rightarrow> do {
         let s = s\<lparr>main_information := (main_information s)\<lparr>main_id := rte_lcore_id me, float_proc := 1\<rparr>\<rparr>;
         (_, s) \<leftarrow> flib_mp_remote_launch ops e (Some fn_bridge_launch_one_lcore) 0 s;
         Some (Return (), s)
       }
   }"

text \<open>\<open>main\<close> up to the call of \<open>main_loop\<close>.\<close>

definition main_setup ::
  "'d dpdk_ops \<Rightarrow> main_env \<Rightarrow> eal \<Rightarrow> 'd master \<Rightarrow> (unit proc_outcome \<times> 'd master) option" where
  "main_setup ops me e m = do {
     (r, m) \<leftarrow> main_args me m;
     case r of Exit c \<Rightarrow> Some (Exit c, m)
     | Return _ \<Rightarrow>
       case main_tables me e (common m) of
         (Exit c, s) \<Rightarrow> Some (Exit c, m\<lparr>common := s\<rparr>)
       | (Return _, s) \<Rightarrow> do {
           (r, m) \<leftarrow> main_pools me (m\<lparr>common := s\<rparr>);
           case r of Exit c \<Rightarrow> Some (Exit c, m)
           | Return nb_ports \<Rightarrow> do {
               (nb_ports_in_mask, m) \<leftarrow> dev_defaults me [0..<unat nb_ports] 0 m;
               s \<leftarrow> enable_lcores (slave_lcores e) (common m);
               (r, _, _, m) \<leftarrow> main_ports me nb_ports (m\<lparr>common := s\<rparr>);
               case r of Exit c \<Rightarrow> Some (Exit c, m)
               | Return _ \<Rightarrow> do {
                   (r, s) \<leftarrow> main_launch ops me e (common m);
                   Some (r, m\<lparr>common := s\<rparr>)
                 }
             }
         }
   }"

text \<open>
  The whole program of the master: the setup and then the loop, for as many rounds as there are inputs.
  The waiting for the slaves after the loop is never reached.
\<close>

definition main_prog ::
  "'d dpdk_ops \<Rightarrow> main_env \<Rightarrow> eal \<Rightarrow> nat \<Rightarrow> bool \<Rightarrow> u64 \<Rightarrow> bridge_msg_s \<Rightarrow> 'd round_input list \<Rightarrow> 'd master \<Rightarrow>
   (unit proc_outcome \<times> 'd main_loop_s) option" where
  "main_prog ops me e n fopen_ok tsc m0 inps m = do {
     (r, m) \<leftarrow> main_setup ops me e m;
     case r of
       Exit c \<Rightarrow> Some (Exit c, main_loop_start tsc m0 m)
     | Return _ \<Rightarrow> main_loop ops e n fopen_ok tsc m0 inps m
   }"

section \<open>The configuration a request is answered with\<close>

definition free_cfg :: "'d sys \<Rightarrow> nat \<Rightarrow> bool" where
  "free_cfg s p \<longleftrightarrow> pc_used (proc_config s ! p) \<noteq> 1 \<and> pc_enabled (proc_config s ! p) \<noteq> 0"

definition cfg_msg :: "nat \<Rightarrow> bridge_msg_s" where
  "cfg_msg p = \<lparr>cmd = CFG, msg = snprintf_d 10 p\<rparr>"

definition assign_cfg :: "nat \<Rightarrow> nat \<Rightarrow> 'd sys \<Rightarrow> 'd sys" where
  "assign_cfg i p s =
     s\<lparr>proc_config := (proc_config s)[p := (proc_config s ! p)\<lparr>pc_used := 1\<rparr>],
       lcore_resource := (lcore_resource s)[i := (lcore_resource s ! i)\<lparr>lr_config_id := p\<rparr>],
       main_information := (main_information s)
         \<lparr>proc_config_used_nb := proc_config_used_nb (main_information s) + 1\<rparr>\<rparr>"

lemma send_cmd_frame:
  assumes "send_cmd ops i m im s = Some (r, s')"
  shows "ipc_frame s s'"
  using assms
  by (auto simp: send_cmd_def Let_def split: option.splits prod.splits if_splits Option.bind_splits)

lemma ipc_frame_private:
  "ipc_frame s s' \<Longrightarrow> proc_config s' = proc_config s \<and> main_information s' = main_information s \<and>
     lcore_resource s' = lcore_resource s \<and> sys_wf e s' = sys_wf e s \<and> free_cfg s' = free_cfg s"
  unfolding ipc_frame_def by (auto simp: sys_wf_def free_cfg_def fun_eq_iff)

text \<open>The loop sends the first configuration that is enabled and not in use.\<close>

lemma set_cfg_loop_find:
  assumes "\<forall>p\<in>set ids. p < length (proc_config s)" "i < length (lcore_resource s)"
  shows "set_cfg_loop ops i ids s =
    (case find (free_cfg s) ids of
       None \<Rightarrow> Some (- 1, s)
     | Some p \<Rightarrow> do {
         (r, s') \<leftarrow> send_cmd ops i (cfg_msg p) True s;
         Some (if r \<noteq> 0 then (- 1, s') else (0, assign_cfg i p s'))
       })"
  using assms
proof (induction ids)
  case Nil
  then show ?case by simp
next
  case (Cons p ids)
  show ?case
  proof (cases "free_cfg s p")
    case True
    show ?thesis
    proof (cases "send_cmd ops i (cfg_msg p) True s")
      case None
      then show ?thesis using True Cons.prems by (simp add: arr_get_def free_cfg_def cfg_msg_def)
    next
      case (Some rs)
      obtain r s' where rs: "rs = (r, s')" by fastforce
      then have "ipc_frame s s'" using send_cmd_frame Some by blast
      then have "p < length (proc_config s')" "i < length (lcore_resource s')"
        using ipc_frame_private [of s s'] Cons.prems by simp_all
      then show ?thesis
        using True Cons.prems Some rs
        by (simp add: arr_get_def free_cfg_def cfg_msg_def set_used_eq set_lcore_res_eq assign_cfg_def)
    qed
  next
    case False
    then show ?thesis using Cons by (auto simp: arr_get_def free_cfg_def)
  qed
qed

lemma find_free:
  "find P xs = Some p \<Longrightarrow> p \<in> set xs \<and> P p"
  by (induction xs) (auto split: if_splits)

lemma sys_wf_assign: "sys_wf e s \<Longrightarrow> i < RTE_MAX_LCORE e \<Longrightarrow> sys_wf e (assign_cfg i p s)"
  unfolding sys_wf_def assign_cfg_def
  by (auto dest!: set_update_subset_insert [THEN subsetD] simp: nth_mem)

lemma ipc_assign [simp]:
  "ipc_ok pool que (assign_cfg i p s) = ipc_ok pool que s"
  "ipc_buffers pool que (assign_cfg i p s) = ipc_buffers pool que s"
  "msgs que (assign_cfg i p s) = msgs que s" "dpdk (assign_cfg i p s) = dpdk s"
  by (simp_all add: ipc_ok_def ipc_buffers_def msgs_def assign_cfg_def fun_eq_iff)

lemma valid_slave_wf: "sys_wf e s \<Longrightarrow> i < RTE_MAX_LCORE e \<Longrightarrow> valid_slave s i"
  by (simp add: valid_slave_def sys_wf_def)

context ring_contract
begin

lemma main_set_lcore_cfg_spec:
  assumes ok: "ipc_ok pool que s" and wf: "sys_wf e s" and i: "i < RTE_MAX_LCORE e"
  obtains r s' where "main_set_lcore_cfg ops e i s = Some (r, s')" "ipc_ok pool que s'"
    "ipc_buffers pool que s' = ipc_buffers pool que s"
    "r = - 1 \<and> ipc_frame s s' \<and> msgs que s' = msgs que s \<or>
     (\<exists>p s1. r = 0 \<and> p < RTE_MAX_LCORE e \<and> free_cfg s p \<and> ipc_frame s s1 \<and> s' = assign_cfg i p s1 \<and>
        channel_sent que s (ring_of s i 0) (cfg_msg p) s1)"
proof (cases "find (free_cfg s) [0..<RTE_MAX_LCORE e]")
  case None
  then have "main_set_lcore_cfg ops e i s = Some (- 1, s)"
    using wf i by (simp add: main_set_lcore_cfg_def set_cfg_loop_find sys_wf_def)
  then show ?thesis using ok by (intro that [of "- 1" s]) simp_all
next
  case (Some p)
  then have p: "p < RTE_MAX_LCORE e" "free_cfg s p" using find_free [OF Some] by simp_all
  obtain r s1 where s1: "send_cmd ops i (cfg_msg p) True s = Some (r, s1)" "ipc_frame s s1"
    "ipc_ok pool que s1" "ipc_buffers pool que s1 = ipc_buffers pool que s"
    "r = 0 \<and> channel_sent que s (ring_of s i 0) (cfg_msg p) s1 \<or> r = - 1 \<and> msgs que s1 = msgs que s"
    using send_cmd_spec [OF ok valid_slave_wf [OF wf i], of "cfg_msg p" True] by auto
  have run: "main_set_lcore_cfg ops e i s = Some (if r \<noteq> 0 then (- 1, s1) else (0, assign_cfg i p s1))"
    using wf i Some s1(1) by (simp add: main_set_lcore_cfg_def set_cfg_loop_find sys_wf_def)
  show ?thesis
  proof (cases "r = 0")
    case True
    then show ?thesis using run s1 p by (intro that [of 0 "assign_cfg i p s1"]) auto
  next
    case False
    then show ?thesis using run s1 by (intro that [of "- 1" s1]) auto
  qed
qed

end

section \<open>The poll of the slaves\<close>

text \<open>
  What a poll has handed out: the pairs of a core and a configuration. No core and no configuration
  occurs twice, every configuration was free and is now in use by that core, and all else is as it was.
\<close>

definition handed_out :: "eal \<Rightarrow> nat list \<Rightarrow> (nat \<times> nat) list \<Rightarrow> 'd sys \<Rightarrow> 'd sys \<Rightarrow> bool" where
  "handed_out e ids given s s' \<longleftrightarrow>
     distinct (map fst given) \<and> distinct (map snd given) \<and> fst ` set given \<subseteq> set ids \<and>
     (\<forall>(i, p)\<in>set given. p < RTE_MAX_LCORE e \<and> free_cfg s p) \<and>
     proc_config s' =
       fold (\<lambda>x a. a[snd x := (a ! snd x)\<lparr>pc_used := 1\<rparr>]) given (proc_config s) \<and>
     lcore_resource s' =
       fold (\<lambda>x a. a[fst x := (a ! fst x)\<lparr>lr_config_id := snd x\<rparr>]) given (lcore_resource s) \<and>
     proc_config_used_nb (main_information s') = proc_config_used_nb (main_information s) + int (length given)"

lemma handed_out_Nil: "ipc_frame s s' \<Longrightarrow> handed_out e ids [] s s'"
  using ipc_frame_private [of s s'] by (simp add: handed_out_def)

lemma handed_out_frame:
  "ipc_frame s s1 \<Longrightarrow> handed_out e ids given s1 s' \<Longrightarrow> set ids \<subseteq> set ids' \<Longrightarrow> handed_out e ids' given s s'"
  using ipc_frame_private [of s s1] by (auto simp: handed_out_def)

lemma handed_out_Cons:
  assumes "ipc_frame s s1" "handed_out e ids given (assign_cfg i p s1) s'" "i \<notin> set ids"
    "p < RTE_MAX_LCORE e" "free_cfg s p" "length (proc_config s) = RTE_MAX_LCORE e"
  shows "handed_out e (i # ids) ((i, p) # given) s s'"
proof -
  have f: "proc_config s1 = proc_config s" "main_information s1 = main_information s"
    "lcore_resource s1 = lcore_resource s"
    using ipc_frame_private [OF assms(1)] by simp_all
  have g: "free_cfg (assign_cfg i p s1) q \<Longrightarrow> q < RTE_MAX_LCORE e \<Longrightarrow> q \<noteq> p \<and> free_cfg s q" for q
    using assms(6) f by (cases "q = p") (simp_all add: free_cfg_def assign_cfg_def)
  have q: "q < RTE_MAX_LCORE e \<and> q \<noteq> p \<and> free_cfg s q" if "(j, q) \<in> set given" for j q
    using assms(2) that g [of q] by (auto simp: handed_out_def)
  then have "p \<notin> set (map snd given)" "\<forall>(j, q)\<in>set given. q < RTE_MAX_LCORE e \<and> free_cfg s q"
    by (fastforce, auto)
  moreover have "i \<notin> set (map fst given)" using assms(2,3) by (auto simp: handed_out_def)
  ultimately show ?thesis
    using assms(2,4,5) by (auto simp: handed_out_def assign_cfg_def f)
qed

context ring_contract
begin

lemma poll_lcores_spec:
  assumes "ipc_ok pool que s" "sys_wf e s" "distinct ids" "\<forall>i\<in>set ids. i < RTE_MAX_LCORE e"
  shows "\<exists>given m' s'. poll_lcores ops e ids c m s = Some (c - int (length given), m', s') \<and>
    ipc_ok pool que s' \<and> ipc_buffers pool que s' = ipc_buffers pool que s \<and> sys_wf e s' \<and>
    handed_out e ids given s s'"
  using assms
proof (induction ids arbitrary: s c m)
  case Nil
  then show ?case by (intro exI [of _ "[]"] exI [of _ m] exI [of _ s]) (simp add: handed_out_Nil)
next
  case (Cons i ids)
  have i: "i < RTE_MAX_LCORE e" using Cons.prems by simp
  obtain r m1 s1 where get: "get_cmd ops i m True s = Some (r, m1, s1)" "ipc_frame s s1"
    "ipc_ok pool que s1" "ipc_buffers pool que s1 = ipc_buffers pool que s"
    using get_cmd_spec [OF Cons.prems(1) valid_slave_wf [OF Cons.prems(2) i], of m True] by auto
  have wf1: "sys_wf e s1" using ipc_frame_private [OF get(2)] Cons.prems(2) by blast
  have rest: "distinct ids" "\<forall>i\<in>set ids. i < RTE_MAX_LCORE e" using Cons.prems by simp_all
  have cont: "\<exists>given m' s'. poll_lcores ops e ids c m1 s2 = Some (c - int (length given), m', s') \<and>
      ipc_ok pool que s' \<and> ipc_buffers pool que s' = ipc_buffers pool que s \<and> sys_wf e s' \<and>
      handed_out e (i # ids) given s s'"
    if "ipc_frame s s2" "ipc_ok pool que s2" "ipc_buffers pool que s2 = ipc_buffers pool que s" for s2
  proof -
    have "sys_wf e s2" using ipc_frame_private [OF that(1)] Cons.prems(2) by blast
    from Cons.IH [OF that(2) this rest, of c m1] show ?thesis
      using handed_out_frame [OF that(1), of e ids _ _ "i # ids"] that(3) by (auto 5 0)
  qed
  show ?case
  proof (cases "r = 0 \<and> cmd m1 = CFG")
    case False
    then have "poll_lcores ops e (i # ids) c m s = poll_lcores ops e ids c m1 s1" using get(1) by auto
    then show ?thesis using cont [OF get(2-4)] by simp
  next
    case True
    obtain v s2 where s2: "main_set_lcore_cfg ops e i s1 = Some (v, s2)" "ipc_ok pool que s2"
      "ipc_buffers pool que s2 = ipc_buffers pool que s1"
      "v = - 1 \<and> ipc_frame s1 s2 \<and> msgs que s2 = msgs que s1 \<or>
       (\<exists>p s3. v = 0 \<and> p < RTE_MAX_LCORE e \<and> free_cfg s1 p \<and> ipc_frame s1 s3 \<and> s2 = assign_cfg i p s3 \<and>
          channel_sent que s1 (ring_of s1 i 0) (cfg_msg p) s3)"
      by (rule main_set_lcore_cfg_spec [OF get(3) wf1 i])
    have step: "poll_lcores ops e (i # ids) c m s = poll_lcores ops e ids (if v = 0 then c - 1 else c) m1 s2"
      using get(1) True s2(1) by simp
    from s2(4) consider "v = - 1" "ipc_frame s1 s2"
      | p s3 where "v = 0" "p < RTE_MAX_LCORE e" "free_cfg s1 p" "ipc_frame s1 s3" "s2 = assign_cfg i p s3"
      by blast
    then show ?thesis
    proof cases
      case 1
      then show ?thesis using step cont [of s2] s2(2,3) get(4) ipc_frame_trans [OF get(2)] by simp
    next
      case (2 p s3)
      have fr: "ipc_frame s s3" using ipc_frame_trans [OF get(2) 2(4)] .
      have free: "free_cfg s p" using 2(3) ipc_frame_private [OF get(2)] by simp
      have "sys_wf e s2"
        using 2(5) sys_wf_assign [of e s3 i p] ipc_frame_private [OF fr] Cons.prems(2) i by blast
      from Cons.IH [OF s2(2) this rest, of "c - 1" m1] obtain given m' s' where
        s': "poll_lcores ops e ids (c - 1) m1 s2 = Some (c - 1 - int (length given), m', s')"
        "ipc_ok pool que s'" "ipc_buffers pool que s' = ipc_buffers pool que s2" "sys_wf e s'"
        "handed_out e ids given s2 s'" by auto
      have "handed_out e (i # ids) ((i, p) # given) s s'"
        using handed_out_Cons [OF fr, of e ids given i p s'] s'(5) 2(2,5) free Cons.prems
        by (simp add: sys_wf_def)
      then show ?thesis
        using step s' 2(1) s2(3) get(4)
        by (intro exI [of _ "(i, p) # given"] exI [of _ m'] exI [of _ s']) simp
    qed
  qed
qed

end

end
