(* ===== verification/Master_Properties.thy ===== *)
theory Master_Properties
  imports Master
begin

text \<open>
  What the setup of the master establishes and what its loop does with the requests of the slaves.
\<close>

section \<open>Setup\<close>

text \<open>The parser keeps the sizes of the tables.\<close>

lemma set_config_length:
  "set_config c m = Some (Inr m') \<Longrightarrow> length (proc_config (common m')) = length (proc_config (common m)) \<and> dpdk (common m') = dpdk (common m)"
  by (auto simp: set_config_def Let_def bind_eq_Some_conv split: if_splits)

lemma parse_line_length:
  "parse_line len line m = Some (Inr (b, m')) \<Longrightarrow>
     length (proc_config (common m')) = length (proc_config (common m)) \<and> dpdk (common m') = dpdk (common m)"
  by (auto simp: parse_line_def Let_def bind_eq_Some_conv sum_case_eq set_config_length
      split: if_splits option.splits)

lemma parse_lines_length:
  "parse_lines len fp nb m = Some (r, m') \<Longrightarrow>
     length (proc_config (common m')) = length (proc_config (common m)) \<and> dpdk (common m') = dpdk (common m)"
proof (induction len fp nb m rule: parse_lines.induct)
  case (1 len fp nb m)
  show ?case
  proof (cases "getline fp")
    case None
    then show ?thesis using "1.prems" by (auto simp: parse_lines.simps [of len])
  next
    case (Some lf)
    obtain line fp' where lf: "lf = (line, fp')" by fastforce
    let ?len = "getline_alloc len (length line + 1)"
    obtain x where x: "parse_line ?len line m = Some x"
      "(case x of Inl e \<Rightarrow> Some (e, m)
        | Inr (counted, m) \<Rightarrow> parse_lines ?len fp' (if counted then nb + 1 else nb) m) = Some (r, m')"
      using "1.prems" [unfolded parse_lines.simps [of len fp nb m] Some lf option.case prod.case Let_def
          bind_eq_Some_conv] by blast
    show ?thesis
    proof (cases x)
      case (Inl e)
      then show ?thesis using x(2) by simp
    next
      case (Inr b)
      obtain counted m1 where b: "b = (counted, m1)" by fastforce
      have "parse_lines ?len fp' (if counted then nb + 1 else nb) m1 = Some (r, m')"
        using x(2) Inr b by simp
      from "1.IH" [OF Some lf [symmetric] refl x(1) Inr b [symmetric] this] x(1) Inr b show ?thesis
        by (simp add: parse_line_length)
    qed
  qed
qed

lemma parse_configfile_length:
  "parse_configfile fopen path m = Some (r, m') \<Longrightarrow>
     length (proc_config (common m')) = length (proc_config (common m)) \<and> dpdk (common m') = dpdk (common m)"
  apply (auto simp: parse_configfile_def Let_def bind_eq_Some_conv
      split: option.split_asm prod.split_asm if_split_asm dest!: parse_lines_length)
  subgoal for fp buff rest n v y len fp'
    by (cases "200 < y") (auto dest!: parse_lines_length)
  subgoal for fp buff rest n v y len fp'
    by (cases "200 < y") (auto dest!: parse_lines_length)
  done

lemma parse_option_length:
  "parse_option fopen opt m = Some (r, m') \<Longrightarrow>
     length (proc_config (common m')) = length (proc_config (common m)) \<and> dpdk (common m') = dpdk (common m)"
  by (cases opt) (auto simp: parse_option_def Let_def bind_eq_Some_conv set_main_def
      split: if_splits dest!: parse_configfile_length)

lemma parse_args_length:
  "parse_args fopen opts optind m = Some (r, m') \<Longrightarrow>
     length (proc_config (common m')) = length (proc_config (common m)) \<and> dpdk (common m') = dpdk (common m)"
proof (induction opts arbitrary: m)
  case Nil
  then show ?case by simp
next
  case (Cons opt opts)
  obtain r1 m1 where m1: "parse_option fopen opt m = Some (r1, m1)"
    "(case r1 of None \<Rightarrow> parse_args fopen opts optind m1 | Some r \<Rightarrow> Some (r, m1)) = Some (r, m')"
    using Cons.prems by (auto simp: bind_eq_Some_conv)
  then show ?case using Cons.IH [of m1] parse_option_length [OF m1(1)] by (cases r1) auto
qed

text \<open>The steps of the setup: which tables each of them sets.\<close>

definition same_tables :: "'d sys \<Rightarrow> 'd sys \<Rightarrow> bool" where
  "same_tables s s' \<longleftrightarrow>
     (\<exists>i. s' = s\<lparr>main_information := i\<rparr> \<and> proc_config_nb i = proc_config_nb (main_information s))"

lemma same_tables_refl [simp]: "same_tables s s"
  unfolding same_tables_def by (rule exI [of _ "main_information s"]) simp

lemma same_tables_set_main [simp]:
  "s = common m \<Longrightarrow> proc_config_nb (f (main_information s)) = proc_config_nb (main_information s) \<Longrightarrow>
     same_tables s (common (set_main f m))"
  by (auto simp: same_tables_def set_main_def)

lemma same_tables_sel:
  "same_tables s s' \<Longrightarrow> lcore_resource s' = lcore_resource s \<and> core_cfg s' = core_cfg s \<and>
     mapping_id s' = mapping_id s \<and> dpdk s' = dpdk s \<and> sys_statistics s' = sys_statistics s \<and>
     proc_config_nb (main_information s') = proc_config_nb (main_information s) \<and> sys_wf e s' = sys_wf e s"
  by (auto simp: same_tables_def sys_wf_def)

lemma main_args_length:
  "main_args me m = Some (r, m') \<Longrightarrow>
     length (proc_config (common m')) = length (proc_config (common m)) \<and> dpdk (common m') = dpdk (common m)"
  by (auto simp: main_args_def Let_def run_convs dest!: parse_args_length)

lemma main_tables_spec:
  assumes "main_tables me e s = (Return (), s')" "length (proc_config s) = RTE_MAX_LCORE e"
  shows "sys_wf e s' \<and> lcore_resource s' = map zero_resource [0..<RTE_MAX_LCORE e] \<and>
    mapping_id s' = replicate (RTE_MAX_LCORE e) INVALID_MAPPING_ID \<and> dpdk s' = dpdk s \<and>
    length (sys_statistics s') = nat (proc_config_nb (main_information s'))"
  using assms
  by (auto simp: main_tables_def flib_init_def lcore_id_init_def bridge_malloc_shared_struct_def Let_def
      sys_wf_def zero_resource_def split: if_splits proc_outcome.splits prod.splits)

lemma main_pools_tables: "main_pools me m = Some (r, m') \<Longrightarrow> same_tables (common m) (common m')"
  by (auto simp: main_pools_def Let_def run_convs)

lemma dev_defaults_common: "dev_defaults me ps k m = Some (r, m') \<Longrightarrow> common m' = common m"
  by (induction ps arbitrary: k m) (auto simp: run_convs Let_def split: if_splits)

lemma init_ports_tables:
  "init_ports me ps k log m = Some (r, log', m') \<Longrightarrow> common m' = common m"
proof (induction ps arbitrary: k log m)
  case Nil
  then show ?case by simp
next
  case (Cons p ps)
  from Cons.prems show ?case
    by (simp only: init_ports.simps Let_def run_convs) (auto dest!: Cons.IH)
qed

lemma main_ports_tables:
  "main_ports me k m = Some (r, log, rep, m') \<Longrightarrow> same_tables (common m) (common m')"
  by (auto simp: main_ports_def Let_def run_convs dest!: init_ports_tables)

lemma enable_lcores_spec:
  assumes "\<forall>i\<in>set is. i < length (lcore_resource s)"
  shows "enable_lcores is s = Some (s\<lparr>lcore_resource :=
    map (\<lambda>i. if i \<in> set is then (lcore_resource s ! i)\<lparr>lr_enabled := 1\<rparr> else lcore_resource s ! i)
      [0..<length (lcore_resource s)]\<rparr>)"
  using assms
proof (induction "is" arbitrary: s)
  case Nil
  then show ?case by (simp add: map_nth)
next
  case (Cons i "is")
  then show ?case
    by (auto simp: arr_get_def set_lcore_res_eq nth_list_update intro!: nth_equalityI)
qed

text \<open>A core is ready when both of its rings exist and its callback is registered.\<close>

definition slave_ready :: "'d sys \<Rightarrow> nat \<Rightarrow> bool" where
  "slave_ready s i \<longleftrightarrow> (\<exists>g0 g1. lr_ring (lcore_resource s ! i) = [Some g0, Some g1]) \<and>
     ls_cb_fn (core_cfg s ! i) = Some fn_slave_exit_cb"

lemma create_one_ring_spec:
  assumes "create_one_ring ops i fd pre s = Some (ok, s')" "complete_res s i"
  obtains r nm d where "ok = (r \<noteq> None)" "length nm = 2" "i < length (lcore_resource s)"
    "s' = s\<lparr>dpdk := d, lcore_resource := (lcore_resource s)[i := (lcore_resource s ! i)
       \<lparr>lr_ring_name := nm, lr_ring := (lr_ring (lcore_resource s ! i))[fd := r]\<rparr>]\<rparr>"
proof -
  obtain r d where c: "create_ring ops (Some (ring_name_of pre i)) IPC_NB_MSGBUF (dpdk s) = (r, d)" by fastforce
  then show ?thesis
    using assms that [of r "(lr_ring_name (lcore_resource s ! i))[fd := ring_name_of pre i]" d]
    by (auto simp: create_one_ring_def run_convs complete_res_def arr_get_def arr_set_def
        set_lcore_res_def split: if_split_asm)
qed

lemma create_ms_ring_spec:
  assumes "create_ms_ring ops i s = Some (0, s')" "complete_res s i"
  obtains g0 g1 nm d where "length nm = 2"
    "s' = s\<lparr>dpdk := d, lcore_resource := (lcore_resource s)[i := (lcore_resource s ! i)
       \<lparr>lr_ring_name := nm, lr_ring := [Some g0, Some g1]\<rparr>]\<rparr>"
proof -
  obtain s1 where s1: "create_one_ring ops i 0 RING_MASTER_NAME s = Some (True, s1)"
    "create_one_ring ops i 1 RING_SLAVE_NAME s1 = Some (True, s')"
    using assms(1) by (auto simp: create_ms_ring_def run_convs)
  obtain r0 nm0 d0 where r0: "True = (r0 \<noteq> None)" "length nm0 = 2" "i < length (lcore_resource s)"
    "s1 = s\<lparr>dpdk := d0, lcore_resource := (lcore_resource s)[i := (lcore_resource s ! i)
       \<lparr>lr_ring_name := nm0, lr_ring := (lr_ring (lcore_resource s ! i))[0 := r0]\<rparr>]\<rparr>"
    by (rule create_one_ring_spec [OF s1(1) assms(2)])
  have "complete_res s1 i" using r0 assms(2) by (simp add: complete_res_def)
  then obtain r1 nm1 d1 where r1: "True = (r1 \<noteq> None)" "length nm1 = 2"
    "s' = s1\<lparr>dpdk := d1, lcore_resource := (lcore_resource s1)[i := (lcore_resource s1 ! i)
       \<lparr>lr_ring_name := nm1, lr_ring := (lr_ring (lcore_resource s1 ! i))[1 := r1]\<rparr>]\<rparr>"
    by (rule create_one_ring_spec [OF s1(2)])
  obtain g0 g1 where g: "r0 = Some g0" "r1 = Some g1" using r0(1) r1(1) by auto
  obtain a b where "lr_ring (lcore_resource s ! i) = [a, b]"
    using assms(2) by (auto simp: complete_res_def length_2)
  then show ?thesis
    using r0 r1 g by (intro that [of nm1 g0 g1 d1]) (simp_all add: complete_res_def)
qed

lemma complete_res_wf: "sys_wf e s \<Longrightarrow> i < RTE_MAX_LCORE e \<Longrightarrow> complete_res s i"
  by (simp add: sys_wf_def complete_res_def)

lemma sys_wf_update:
  assumes "sys_wf e s" "length c = length (core_cfg s)" "length (lr_ring r) = 2" "length (lr_ring_name r) = 2"
  shows "sys_wf e (s\<lparr>dpdk := d, lcore_resource := (lcore_resource s)[i := r], core_cfg := c\<rparr>)"
  using assms unfolding sys_wf_def by (auto dest!: set_update_subset_insert [THEN subsetD])

lemma create_rings_spec:
  assumes "create_rings ops e ids s = Some (Return (), s')" "sys_wf e s"
    "\<forall>i\<in>set ids. i < RTE_MAX_LCORE e"
  shows "sys_wf e s' \<and> mapping_id s' = mapping_id s \<and>
    (\<forall>i. lr_enabled (lcore_resource s' ! i) = lr_enabled (lcore_resource s ! i)) \<and>
    (\<forall>i. (slave_ready s i \<or> i \<in> set ids \<and> lr_enabled (lcore_resource s ! i) \<noteq> 0) \<longrightarrow> slave_ready s' i)"
  using assms
proof (induction ids arbitrary: s)
  case Nil
  then show ?case by simp
next
  case (Cons i ids)
  have i: "i < length (lcore_resource s)" "i < length (core_cfg s)"
    using Cons.prems(2,3) by (simp_all add: sys_wf_def)
  show ?case
  proof (cases "lr_enabled (lcore_resource s ! i) = 0")
    case True
    then have "create_rings ops e ids s = Some (Return (), s')"
      using Cons.prems(1) i by (simp add: arr_get_def)
    from Cons.IH [OF this] Cons.prems(2,3) True show ?thesis by auto
  next
    case False
    obtain s1 s2 where s1: "create_ms_ring ops i s = Some (0, s1)"
      "flib_register_slave_exit_notify e i (Some fn_slave_exit_cb) s1 = Some (0, s2)"
      "create_rings ops e ids s2 = Some (Return (), s')"
      using Cons.prems(1) False i by (auto simp: arr_get_def run_convs)
    obtain g0 g1 nm d where r: "length nm = 2" "s1 = s\<lparr>dpdk := d, lcore_resource := (lcore_resource s)
        [i := (lcore_resource s ! i)\<lparr>lr_ring_name := nm, lr_ring := [Some g0, Some g1]\<rparr>]\<rparr>"
      by (rule create_ms_ring_spec [OF s1(1) complete_res_wf [OF Cons.prems(2)]]) (use Cons.prems(3) in simp)
    have s2: "s2 = s\<lparr>dpdk := d, lcore_resource := (lcore_resource s)
        [i := (lcore_resource s ! i)\<lparr>lr_ring_name := nm, lr_ring := [Some g0, Some g1]\<rparr>],
        core_cfg := (core_cfg s)[i := (core_cfg s ! i)\<lparr>ls_cb_fn := Some fn_slave_exit_cb\<rparr>]\<rparr>"
      using s1(2) i r
      by (auto simp: flib_register_slave_exit_notify_def upd_core_def arr_get_def arr_set_def run_convs
          ENOENT_def)
    have wf: "sys_wf e s2" unfolding s2 by (rule sys_wf_update [OF Cons.prems(2)]) (use r in simp_all)
    have en: "lr_enabled (lcore_resource s2 ! j) = lr_enabled (lcore_resource s ! j)" for j
      using i s2 by (cases "j = i") simp_all
    have rd: "slave_ready s j \<or> j = i \<Longrightarrow> slave_ready s2 j" for j
      using i s2 by (cases "j = i") (simp_all add: slave_ready_def)
    have "mapping_id s2 = mapping_id s" using s2 by simp
    then show ?thesis using Cons.IH [OF s1(3) wf] Cons.prems(3) en rd by auto
  qed
qed

lemma set_launch_spec:
  assumes "\<forall>i\<in>set ids. i < length (core_cfg s)"
  shows "\<exists>c. set_launch f a ids s = Some (s\<lparr>core_cfg := c\<rparr>) \<and> length c = length (core_cfg s) \<and>
    (\<forall>i. ls_cb_fn (c ! i) = ls_cb_fn (core_cfg s ! i)) \<and> (\<forall>i\<in>set ids. ls_f (c ! i) = f) \<and>
    (\<forall>i. ls_f (core_cfg s ! i) = f \<longrightarrow> ls_f (c ! i) = f)"
  using assms
proof (induction ids arbitrary: s)
  case Nil
  show ?case by (rule exI [of _ "core_cfg s"]) simp
next
  case (Cons i ids)
  let ?c = "(core_cfg s)[i := (core_cfg s ! i)\<lparr>ls_arg := a, ls_f := f\<rparr>]"
  have "\<forall>j\<in>set ids. j < length (core_cfg (s\<lparr>core_cfg := ?c\<rparr>))" using Cons.prems by simp
  from Cons.IH [OF this] obtain c where c: "set_launch f a ids (s\<lparr>core_cfg := ?c\<rparr>) = Some (s\<lparr>core_cfg := c\<rparr>)"
    "length c = length (core_cfg s)" "\<forall>j. ls_cb_fn (c ! j) = ls_cb_fn (?c ! j)"
    "\<forall>j\<in>set ids. ls_f (c ! j) = f" "\<forall>j. ls_f (?c ! j) = f \<longrightarrow> ls_f (c ! j) = f" by auto
  have up: "ls_cb_fn (?c ! j) = ls_cb_fn (core_cfg s ! j)" "ls_f (core_cfg s ! j) = f \<Longrightarrow> ls_f (?c ! j) = f"
    "ls_f (?c ! i) = f" for j
    using Cons.prems by (cases "j = i"; simp)+
  have "set_launch f a (i # ids) s = Some (s\<lparr>core_cfg := c\<rparr>)"
    using c(1) Cons.prems by (simp add: upd_core_def arr_get_def arr_set_def)
  then show ?case using c(2-5) up by (intro exI [of _ c]) auto
qed

lemma slave_ready_cong:
  "lcore_resource s' = lcore_resource s \<Longrightarrow> ls_cb_fn (core_cfg s' ! i) = ls_cb_fn (core_cfg s ! i) \<Longrightarrow>
     slave_ready s' i = slave_ready s i"
  by (simp add: slave_ready_def)

lemma main_launch_spec:
  assumes "main_launch ops me e s = Some (Return (), s')" "sys_wf e s"
  shows "sys_wf e s' \<and> mapping_id s' = mapping_id s \<and> float_proc (main_information s') = 1 \<and>
    (\<forall>i. lr_enabled (lcore_resource s' ! i) = lr_enabled (lcore_resource s ! i)) \<and>
    (\<forall>i<RTE_MAX_LCORE e. lr_enabled (lcore_resource s ! i) \<noteq> 0 \<longrightarrow> slave_ready s' i) \<and>
    (\<forall>i\<in>set (slave_lcores e). ls_f (core_cfg s' ! i) = Some fn_bridge_launch_one_lcore)"
proof -
  obtain s1 where s1: "create_rings ops e [0..<RTE_MAX_LCORE e] s = Some (Return (), s1)"
    "\<exists>r. flib_mp_remote_launch ops e (Some fn_bridge_launch_one_lcore) 0 (s1\<lparr>main_information :=
       (main_information s1)\<lparr>main_id := rte_lcore_id me, float_proc := 1\<rparr>\<rparr>) = Some (r, s')"
    using assms(1) by (auto simp: main_launch_def run_convs Let_def)
  have "\<forall>i\<in>set [0..<RTE_MAX_LCORE e]. i < RTE_MAX_LCORE e" by simp
  note c = create_rings_spec [OF s1(1) assms(2) this]
  define s2 where "s2 = s1\<lparr>main_information := (main_information s1)\<lparr>main_id := rte_lcore_id me, float_proc := 1\<rparr>\<rparr>"
  have "\<forall>i\<in>set (slave_lcores e). i < length (core_cfg s2)"
    using c by (auto simp: slave_lcores_def s2_def sys_wf_def)
  from set_launch_spec [OF this, of "Some fn_bridge_launch_one_lcore" 0] obtain cc where
    cc: "set_launch (Some fn_bridge_launch_one_lcore) 0 (slave_lcores e) s2 = Some (s2\<lparr>core_cfg := cc\<rparr>)"
    "length cc = length (core_cfg s2)" "\<forall>i. ls_cb_fn (cc ! i) = ls_cb_fn (core_cfg s2 ! i)"
    "\<forall>i\<in>set (slave_lcores e). ls_f (cc ! i) = Some fn_bridge_launch_one_lcore" by blast
  obtain d where s': "s' = s2\<lparr>core_cfg := cc, dpdk := d\<rparr>"
    using s1(2) cc(1) unfolding s2_def [symmetric]
    by (auto simp: flib_mp_remote_launch_def split: prod.split_asm)
  have "slave_ready s' i = slave_ready s1 i" for i
    using cc(3) by (intro slave_ready_cong) (simp_all add: s' s2_def)
  moreover have "sys_wf e s1" using c by blast
  then have "sys_wf e s'" using cc(2) by (simp add: s' s2_def sys_wf_def)
  ultimately show ?thesis using c cc(4) by (simp add: s' s2_def)
qed

text \<open>The state in which the rings are created and the slaves launched.\<close>

lemma main_setup_launch:
  assumes "main_setup ops me e m = Some (Return (), m')" "length (proc_config (common m)) = RTE_MAX_LCORE e"
  obtains s where "main_launch ops me e s = Some (Return (), common m')" "sys_wf e s" "dpdk s = dpdk (common m)"
    "mapping_id s = replicate (RTE_MAX_LCORE e) INVALID_MAPPING_ID"
    "lcore_resource s = map (\<lambda>i. if i \<in> set (slave_lcores e) then (zero_resource i)\<lparr>lr_enabled := 1\<rparr>
       else zero_resource i) [0..<RTE_MAX_LCORE e]"
    "length (sys_statistics s) = nat (proc_config_nb (main_information s))"
proof -
  obtain m1 s2 k m2 c m3 s4 l rp m5 s6 where run: "main_args me m = Some (Return (), m1)"
    "main_tables me e (common m1) = (Return (), s2)" "main_pools me (m1\<lparr>common := s2\<rparr>) = Some (Return k, m2)"
    "enable_lcores (slave_lcores e) (common m3) = Some s4"
    "main_ports me k (m3\<lparr>common := s4\<rparr>) = Some (Return (), l, rp, m5)"
    "main_launch ops me e (common m5) = Some (Return (), s6)" "m' = m5\<lparr>common := s6\<rparr>"
    "dev_defaults me [0..<unat k] 0 m2 = Some (c, m3)"
    using assms(1) by (auto simp: main_setup_def run_convs)
  have "length (proc_config (common m1)) = RTE_MAX_LCORE e" using main_args_length [OF run(1)] assms(2) by simp
  note t = main_tables_spec [OF run(2) this]
  have "same_tables s2 (common m3)" using main_pools_tables [OF run(3)] dev_defaults_common [OF run(8)] by simp
  note t3 = same_tables_sel [OF this, of e]
  have sl: "\<forall>i\<in>set (slave_lcores e). i < length (lcore_resource (common m3))"
    using t t3 by (auto simp: slave_lcores_def)
  have res4: "s4 = (common m3)\<lparr>lcore_resource := map (\<lambda>i. if i \<in> set (slave_lcores e)
      then (zero_resource i)\<lparr>lr_enabled := 1\<rparr> else zero_resource i) [0..<RTE_MAX_LCORE e]\<rparr>"
    using enable_lcores_spec [OF sl] run(4) t t3 by (auto cong: map_cong)
  have "same_tables s4 (common m5)" using main_ports_tables [OF run(5)] by simp
  note t5 = same_tables_sel [OF this, of e]
  have "sys_wf e s4" using t t3 by (auto simp: res4 sys_wf_def zero_resource_def)
  then show ?thesis
    using that [of "common m5"] run(6,7) t t3 t5 main_args_length [OF run(1)] by (simp add: res4)
qed

lemma main_setup_tables:
  assumes "main_setup ops me e m = Some (Return (), m')"
    "length (proc_config (common m)) = RTE_MAX_LCORE e"
  shows "sys_wf e (common m') \<and>
    mapping_id (common m') = replicate (RTE_MAX_LCORE e) INVALID_MAPPING_ID \<and>
    float_proc (main_information (common m')) = 1 \<and>
    (\<forall>i<RTE_MAX_LCORE e. lr_enabled (lcore_resource (common m') ! i) = (if i \<in> set (slave_lcores e) then 1 else 0)) \<and>
    (\<forall>i\<in>set (slave_lcores e). slave_ready (common m') i \<and>
       ls_f (core_cfg (common m') ! i) = Some fn_bridge_launch_one_lcore)"
proof -
  obtain s where s: "main_launch ops me e s = Some (Return (), common m')" "sys_wf e s"
    "mapping_id s = replicate (RTE_MAX_LCORE e) INVALID_MAPPING_ID"
    "lcore_resource s = map (\<lambda>i. if i \<in> set (slave_lcores e) then (zero_resource i)\<lparr>lr_enabled := 1\<rparr>
       else zero_resource i) [0..<RTE_MAX_LCORE e]"
    by (rule main_setup_launch [OF assms])
  have "i < RTE_MAX_LCORE e" if "i \<in> set (slave_lcores e)" for i using that by (simp add: slave_lcores_def)
  then show ?thesis using main_launch_spec [OF s(1,2)] s(3,4) by (simp add: zero_resource_def)
qed

section \<open>Properties\<close>

text \<open>
  C22: What the setup leaves for the loop. When the setup of \<open>main\<close> succeeds, every table has the size
  with which the other operations index it; exactly the cores of the slaves are enabled; each of them
  has both rings, the callback for its end and its start function; no core number is mapped, and
  processes float.
\<close>

theorem main_setup_ready:
  assumes "main_setup ops me e m = Some (Return (), m')"
    "length (proc_config (common m)) = RTE_MAX_LCORE e"
  shows "sys_wf e (common m') \<and>
    mapping_id (common m') = replicate (RTE_MAX_LCORE e) INVALID_MAPPING_ID \<and>
    float_proc (main_information (common m')) = 1 \<and>
    (\<forall>i<RTE_MAX_LCORE e. lr_enabled (lcore_resource (common m') ! i) = (if i \<in> set (slave_lcores e) then 1 else 0)) \<and>
    (\<forall>i\<in>set (slave_lcores e). slave_ready (common m') i \<and>
       ls_f (core_cfg (common m') ! i) = Some fn_bridge_launch_one_lcore)"
  by (rule main_setup_tables [OF assms])

text \<open>A machine with one port, four cores of which two are used, and no options.\<close>

definition demo_boot :: "list_dpdk master" where
  "demo_boot = \<lparr>common = (demo_sys \<lparr>free_bufs = [1, 2, 3], ring_queues = (\<lambda>_. []), ring_names = [], launched = []\<rparr>)
       \<lparr>main_information := (main_information (common demo_master))\<lparr>mi_port_mask := 1\<rparr>\<rparr>,
     port_queue_conf = [\<lparr>queue_rx_nb = 0, queue_tx_nb = 0, default_txq_flags = 0\<rparr>], timer_file = [], timer_period = 0, timer_stats = 0\<rparr>"

definition demo_env :: main_env where
  "demo_env = \<lparr>sched_getaffinity = (\<lambda>_. (0, {0, 1})), sched_setaffinity = (\<lambda>_ _. 0), rte_eal_init_r = 0, me_fopen = (\<lambda>_. None),
     me_opts = [], me_optind = 1, flib_zmalloc1 = True, flib_zmalloc2 = True, stats_zmalloc = True,
     mapping_malloc = True, rte_eth_dev_count = 1, RTE_MAX_ETHPORTS = 32, pool_create_ok = (\<lambda>_. True),
     message_pool_ok = True, dev_info_txq_flags = (\<lambda>_. 1), port_call_r = (\<lambda>_. 0), port_link = (\<lambda>_ _. True), fdir_main_r = 0, rte_lcore_id = 0\<rparr>"

lemma demo_ports:
  assumes "mi_port_mask (main_information (common m)) = 1" "mi_fdir (main_information (common m)) = 0"
    "port_queue_conf m = [\<lparr>queue_rx_nb = 0, queue_tx_nb = 0, default_txq_flags = 0\<rparr>]"
  shows "\<exists>l rp m'. main_ports demo_env 1 m = Some (Return (), l, rp, m') \<and>
    mi_port_nb (main_information (common m')) = mi_port_nb (main_information (common m))"
proof -
  have "port_enabled 1 0 = Some True" by (simp add: port_enabled_eq)
  then show ?thesis
    using assms
    by (simp add: main_ports_def demo_env_def arr_get_def port_init_def min_queues_def set_main_def
        check_all_ports_link_status_def check_rounds.simps MAX_CHECK_TIME_def)
qed

lemma demo_slaves: "slave_lcores demo_eal = [1]"
  by (simp add: slave_lcores_def demo_eal_def upt_rec)

lemma demo_launch:
  assumes "lcore_resource s = [zero_resource 0, (zero_resource 1)\<lparr>lr_enabled := 1\<rparr>, zero_resource 2, zero_resource 3]"
    "length (core_cfg s) = 4" "ring_names (dpdk s) = []"
  shows "\<exists>s'. main_launch list_ops demo_env demo_eal s = Some (Return (), s') \<and>
    proc_config_nb (main_information s') = proc_config_nb (main_information s) \<and>
    mi_port_nb (main_information s') = mi_port_nb (main_information s)"
proof -
  let ?n = "[ring_name_of RING_MASTER_NAME 1, ring_name_of RING_SLAVE_NAME 1]"
  have ne: "ring_name_of RING_SLAVE_NAME 1 \<noteq> ring_name_of RING_MASTER_NAME 1"
    using ring_names_differ(1) [of 1 1] by simp
  have "\<exists>s1. create_ms_ring list_ops 1 s = Some (0, s1) \<and> main_information s1 = main_information s \<and> length (core_cfg s1) = 4 \<and>
      length (lcore_resource s1) = 4 \<and> lr_enabled (lcore_resource s1 ! 2) = 0 \<and> lr_enabled (lcore_resource s1 ! 3) = 0"
    using assms ne
    by (simp add: create_ms_ring_def create_one_ring_def create_ring_def list_ops_def zero_resource_def
        arr_get_def arr_set_def set_lcore_res_def)
  then obtain s1 where s1: "create_ms_ring list_ops 1 s = Some (0, s1)" "length (core_cfg s1) = 4"
    "length (lcore_resource s1) = 4" "lr_enabled (lcore_resource s1 ! 2) = 0" "lr_enabled (lcore_resource s1 ! 3) = 0"
    "main_information s1 = main_information s"
    by blast
  have "create_rings list_ops demo_eal [0..<RTE_MAX_LCORE demo_eal] s = Some (Return (),
      s1\<lparr>core_cfg := (core_cfg s1)[1 := (core_cfg s1 ! 1)\<lparr>ls_cb_fn := Some fn_slave_exit_cb\<rparr>]\<rparr>)"
    using assms(1) s1
    by (simp add: demo_eal_def upt_rec arr_get_def zero_resource_def flib_register_slave_exit_notify_def
        upd_core_def arr_set_def numeral_2_eq_2 numeral_3_eq_3)
  then show ?thesis
    using s1(2,6)
    by (simp add: main_launch_def flib_mp_remote_launch_def demo_slaves upd_core_def arr_get_def arr_set_def
        list_ops_def)
qed

lemma demo_setup:
  "\<exists>m'. main_setup list_ops demo_env demo_eal demo_boot = Some (Return (), m') \<and>
     proc_config_nb (main_information (common m')) = 0 \<and> mi_port_nb (main_information (common m')) = 1"
proof -
  let ?m1 = "demo_boot\<lparr>timer_period := 10 * TIMER_MILLISECOND * 1000, timer_stats := 0\<rparr>"
  have r1: "main_args demo_env demo_boot = Some (Return (), ?m1)"
    by (simp add: main_args_def demo_env_def get_cpu_affinity_def clear_cpu_affinity_def)
  obtain s2 where r2: "main_tables demo_env demo_eal (common ?m1) = (Return (), s2)"
    "main_information s2 = main_information (common ?m1)" "length (core_cfg s2) = 4" "dpdk s2 = dpdk (common ?m1)"
    "lcore_resource s2 = map zero_resource [0..<4]"
    by (simp add: main_tables_def demo_env_def flib_init_def lcore_id_init_def bridge_malloc_shared_struct_def
        demo_eal_def)
  let ?m3 = "set_main (\<lambda>i. i\<lparr>mi_port_nb := 1\<rparr>) (?m1\<lparr>common := s2\<rparr>)"
  have info: "main_information s2 = main_information (common demo_boot)" using r2(2) by simp
  have r3: "main_pools demo_env (?m1\<lparr>common := s2\<rparr>) = Some (Return 1, ?m3)"
    using port_enabled_eq [of 0 1] info
    by (simp add: main_pools_def demo_env_def set_main_def demo_boot_def)
  have rd: "dev_defaults demo_env [0..<unat (1 :: u8)] 0 ?m3 = Some (1, ?m3)"
    using port_enabled_eq [of 0 1] info
    by (simp add: demo_env_def set_main_def demo_boot_def arr_get_def ETH_TXQ_FLAGS_NOMULTSEGS_def)
  define s4 where "s4 = (common ?m3)\<lparr>lcore_resource :=
    [zero_resource 0, (zero_resource 1)\<lparr>lr_enabled := 1\<rparr>, zero_resource 2, zero_resource 3]\<rparr>"
  have r4: "enable_lcores (slave_lcores demo_eal) (common ?m3) = Some s4"
    using r2(5) by (simp add: demo_slaves set_main_def arr_get_def set_lcore_res_def arr_set_def s4_def upt_rec
        numeral_2_eq_2 numeral_3_eq_3)
  obtain l rp m5 where r5: "main_ports demo_env 1 (?m3\<lparr>common := s4\<rparr>) = Some (Return (), l, rp, m5)"
    "mi_port_nb (main_information (common m5)) = mi_port_nb (main_information s4)"
    using demo_ports [of "?m3\<lparr>common := s4\<rparr>"] info by (auto simp: s4_def set_main_def demo_boot_def demo_master_def)
  have "same_tables s4 (common m5)" using main_ports_tables [OF r5(1)] by simp
  then obtain i where m5: "common m5 = s4\<lparr>main_information := i\<rparr>" "proc_config_nb i = proc_config_nb (main_information s4)"
    by (auto simp: same_tables_def)
  obtain s6 where r6: "main_launch list_ops demo_env demo_eal (common m5) = Some (Return (), s6)"
    "proc_config_nb (main_information s6) = proc_config_nb i" "mi_port_nb (main_information s6) = mi_port_nb i"
    using demo_launch [of "common m5"] r2(3,4) by (auto simp: m5 s4_def set_main_def demo_boot_def demo_sys_def)
  have "proc_config_nb i = 0" "mi_port_nb i = 1"
    using m5 r5(2) info by (simp_all add: s4_def set_main_def demo_boot_def demo_master_def)
  then show ?thesis
    using r1 r2(1) r3 rd r4 r5(1) r6 by (simp add: main_setup_def del: dev_defaults.simps)
qed

theorem main_setup_ready_witness:
  "\<exists>m'. main_setup list_ops demo_env demo_eal demo_boot = Some (Return (), m') \<and>
     sys_wf demo_eal (common m') \<and> slave_ready (common m') 1"
proof -
  obtain m' where m': "main_setup list_ops demo_env demo_eal demo_boot = Some (Return (), m')"
    using demo_setup by blast
  have "length (proc_config (common demo_boot)) = RTE_MAX_LCORE demo_eal"
    by (simp add: demo_boot_def demo_sys_def demo_eal_def)
  from main_setup_ready [OF m' this] m' show ?thesis by (simp add: demo_slaves)
qed



end
