(* ===== verification/Hash_Key.thy ===== *)
theory Hash_Key
  imports Dpdk_Ethdev
begin

text \<open>
  The keys of the hash engine (\<^verbatim>\<open>src/engine_hash.c\<close>): the 5-tuples of the program, their
  layout as the 16 or 48 bytes that a hash table sees, and the keys cut out of a packet with
  vector loads and masks. Keys are byte lists in memory order; the machine is little-endian, as
  the vector instructions the code uses require. The main facts: a packet's masked bytes are the
  key of a 5-tuple exactly when the packet's headers carry that 5-tuple.
\<close>

unbundle bit_operations_syntax

section \<open>Memory layout\<close>

definition le16 :: "u16 \<Rightarrow> u8 list" where
  "le16 w = [ucast w, ucast (drop_bit 8 w)]"

definition le32 :: "u32 \<Rightarrow> u8 list" where
  "le32 w = [ucast w, ucast (drop_bit 8 w), ucast (drop_bit 16 w), ucast (drop_bit 24 w)]"

definition le64 :: "u64 \<Rightarrow> u8 list" where
  "le64 w = le32 (ucast w) @ le32 (ucast (drop_bit 32 w))"

text \<open>Four bytes of memory read as a 32-bit integer.\<close>

definition rd32 :: "u8 list \<Rightarrow> nat \<Rightarrow> u32" where
  "rd32 mem i = word_rcat (rev (take 4 (drop i mem)))"

definition rte_cpu_to_be_16 :: "u16 \<Rightarrow> u16" where
  "rte_cpu_to_be_16 w = push_bit 8 w OR drop_bit 8 w"

definition IPv4 :: "u8 \<Rightarrow> u8 \<Rightarrow> u8 \<Rightarrow> u8 \<Rightarrow> u32" where
  "IPv4 a b c d = push_bit 24 (ucast a) OR push_bit 16 (ucast b) OR push_bit 8 (ucast c) OR ucast d"

definition rte_cpu_to_be_32 :: "u32 \<Rightarrow> u32" where
  "rte_cpu_to_be_32 w =
     IPv4 (ucast w) (ucast (drop_bit 8 w)) (ucast (drop_bit 16 w)) (ucast (drop_bit 24 w))"

text \<open>Vector registers as 16 bytes, in memory order.\<close>

definition mm_set_epi32 :: "u32 \<Rightarrow> u32 \<Rightarrow> u32 \<Rightarrow> u32 \<Rightarrow> u8 list" where
  "mm_set_epi32 e3 e2 e1 e0 = le32 e0 @ le32 e1 @ le32 e2 @ le32 e3"

definition mm_and :: "u8 list \<Rightarrow> u8 list \<Rightarrow> u8 list" where
  "mm_and a b = map2 (AND) a b"

definition mm_loadu :: "u8 list \<Rightarrow> nat \<Rightarrow> u8 list option" where
  "mm_loadu mem off = (if off + 16 \<le> length mem then Some (take 16 (drop off mem)) else None)"

section \<open>Tuples and keys\<close>

definition ALL_32_BITS :: u32 where "ALL_32_BITS = 0xffffffff"
definition BIT_8_TO_15 :: u32 where "BIT_8_TO_15 = 0x0000ff00"
definition BIT_16_TO_23 :: u32 where "BIT_16_TO_23 = 0x00ff0000"
definition IPV6_ADDR_LEN :: nat where "IPV6_ADDR_LEN = 16"
definition IPPROTO_TCP :: u8 where "IPPROTO_TCP = 6"
definition IPPROTO_UDP :: u8 where "IPPROTO_UDP = 17"

record ipv4_5tuple =
  t4_ip_dst :: u32
  t4_ip_src :: u32
  t4_port_dst :: u16
  t4_port_src :: u16
  t4_proto :: u8

record ipv4_5tuple_host =
  h4_pad0 :: u8
  h4_proto :: u8
  h4_pad1 :: u16
  h4_ip_src :: u32
  h4_ip_dst :: u32
  h4_port_src :: u16
  h4_port_dst :: u16

text \<open>The other view of the union: the 16 bytes.\<close>

definition xmm4 :: "ipv4_5tuple_host \<Rightarrow> u8 list" where
  "xmm4 k = [h4_pad0 k, h4_proto k] @ le16 (h4_pad1 k) @ le32 (h4_ip_src k) @ le32 (h4_ip_dst k)
     @ le16 (h4_port_src k) @ le16 (h4_port_dst k)"

record ipv6_5tuple =
  t6_ip_dst :: "u8 list"
  t6_ip_src :: "u8 list"
  t6_port_dst :: u16
  t6_port_src :: u16
  t6_proto :: u8

record ipv6_5tuple_host =
  h6_pad0 :: u16
  h6_proto :: u8
  h6_pad1 :: u8
  h6_ip_src :: "u8 list"
  h6_ip_dst :: "u8 list"
  h6_port_src :: u16
  h6_port_dst :: u16
  h6_reserve :: u64

definition xmm6 :: "ipv6_5tuple_host \<Rightarrow> u8 list" where
  "xmm6 k = le16 (h6_pad0 k) @ [h6_proto k, h6_pad1 k] @ h6_ip_src k @ h6_ip_dst k
     @ le16 (h6_port_src k) @ le16 (h6_port_dst k) @ le64 (h6_reserve k)"

definition convert_ipv4_5tuple :: "ipv4_5tuple \<Rightarrow> ipv4_5tuple_host" where
  "convert_ipv4_5tuple key1 =
     \<lparr>h4_pad0 = 0, h4_proto = t4_proto key1, h4_pad1 = 0,
      h4_ip_src = rte_cpu_to_be_32 (t4_ip_src key1), h4_ip_dst = rte_cpu_to_be_32 (t4_ip_dst key1),
      h4_port_src = rte_cpu_to_be_16 (t4_port_src key1),
      h4_port_dst = rte_cpu_to_be_16 (t4_port_dst key1)\<rparr>"

text \<open>The loop that copies the addresses reads their first 16 bytes.\<close>

definition convert_ipv6_5tuple :: "ipv6_5tuple \<Rightarrow> ipv6_5tuple_host" where
  "convert_ipv6_5tuple key1 =
     \<lparr>h6_pad0 = 0, h6_proto = t6_proto key1, h6_pad1 = 0,
      h6_ip_src = map (\<lambda>i. t6_ip_src key1 ! i) [0..<16],
      h6_ip_dst = map (\<lambda>i. t6_ip_dst key1 ! i) [0..<16],
      h6_port_src = rte_cpu_to_be_16 (t6_port_src key1),
      h6_port_dst = rte_cpu_to_be_16 (t6_port_dst key1), h6_reserve = 0\<rparr>"

section \<open>Hash functions\<close>

text \<open>\<open>crc\<close> stands for \<^verbatim>\<open>rte_hash_crc_4byte\<close>; the build is the one with SSE4.2.\<close>

definition ipv4_hash_crc :: "(u32 \<Rightarrow> u32 \<Rightarrow> u32) \<Rightarrow> u8 list \<Rightarrow> u32 \<Rightarrow> u32 \<Rightarrow> u32" where
  "ipv4_hash_crc crc k dlen init_val =
     (let init_val = crc (ucast (k ! 1)) init_val;
          init_val = crc (rd32 k 4) init_val;
          init_val = crc (rd32 k 8) init_val
      in crc (rd32 k 12) init_val)"

definition ipv6_hash_crc :: "(u32 \<Rightarrow> u32 \<Rightarrow> u32) \<Rightarrow> u8 list \<Rightarrow> u32 \<Rightarrow> u32 \<Rightarrow> u32" where
  "ipv6_hash_crc crc k dlen init_val =
     (let init_val = crc (ucast (k ! 2)) init_val;
          init_val = crc (rd32 k 4) init_val;
          init_val = crc (rd32 k 8) init_val;
          init_val = crc (rd32 k 12) init_val;
          init_val = crc (rd32 k 16) init_val;
          init_val = crc (rd32 k 20) init_val;
          init_val = crc (rd32 k 24) init_val;
          init_val = crc (rd32 k 28) init_val;
          init_val = crc (rd32 k 32) init_val
      in crc (rd32 k 36) init_val)"

section \<open>Keys of packets\<close>

definition sizeof_ether_hdr :: nat where "sizeof_ether_hdr = 14"
definition offsetof_time_to_live :: nat where "offsetof_time_to_live = 8"
definition offsetof_payload_len :: nat where "offsetof_payload_len = 4"

text \<open>The key of an IPv4 packet under a mask.\<close>

definition ipv4_key :: "u8 list \<Rightarrow> rte_mbuf \<Rightarrow> u8 list option" where
  "ipv4_key mask0 m = do {
     data \<leftarrow> mm_loadu (mtod m) (sizeof_ether_hdr + offsetof_time_to_live);
     Some (mm_and data mask0)
   }"

definition get_ipv6_5tuple :: "rte_mbuf \<Rightarrow> u8 list \<Rightarrow> u8 list \<Rightarrow> u8 list option" where
  "get_ipv6_5tuple m0 mask0 mask1 = do {
     tmpdata0 \<leftarrow> mm_loadu (mtod m0) (sizeof_ether_hdr + offsetof_payload_len);
     tmpdata1 \<leftarrow> mm_loadu (mtod m0) (sizeof_ether_hdr + offsetof_payload_len + 16);
     tmpdata2 \<leftarrow> mm_loadu (mtod m0) (sizeof_ether_hdr + offsetof_payload_len + 16 + 16);
     Some (mm_and tmpdata0 mask0 @ tmpdata1 @ mm_and tmpdata2 mask1)
   }"

text \<open>The masks the program sets.\<close>

definition ipv4_mask0 :: "u8 list" where
  "ipv4_mask0 = mm_set_epi32 ALL_32_BITS ALL_32_BITS ALL_32_BITS BIT_8_TO_15"

definition ipv6_mask1 :: "u8 list" where
  "ipv6_mask1 = mm_set_epi32 ALL_32_BITS ALL_32_BITS ALL_32_BITS BIT_16_TO_23"

definition ipv6_mask2 :: "u8 list" where
  "ipv6_mask2 = mm_set_epi32 0 0 ALL_32_BITS ALL_32_BITS"

section \<open>What the headers of a packet say\<close>

text \<open>
  The 5-tuple of an Ethernet frame with an IPv4 header without options, read field by field in
  network byte order: the reference the keys are compared with.
\<close>

definition be16 :: "u8 list \<Rightarrow> nat \<Rightarrow> u16" where
  "be16 p i = push_bit 8 (ucast (p ! i)) OR ucast (p ! (i + 1))"

definition be32 :: "u8 list \<Rightarrow> nat \<Rightarrow> u32" where
  "be32 p i = IPv4 (p ! i) (p ! (i + 1)) (p ! (i + 2)) (p ! (i + 3))"

definition packet_5tuple :: "u8 list \<Rightarrow> ipv4_5tuple" where
  "packet_5tuple p =
     \<lparr>t4_ip_dst = be32 p 30, t4_ip_src = be32 p 26, t4_port_dst = be16 p 36,
      t4_port_src = be16 p 34, t4_proto = p ! 23\<rparr>"

definition packet_6_5tuple :: "u8 list \<Rightarrow> ipv6_5tuple" where
  "packet_6_5tuple p =
     \<lparr>t6_ip_dst = take 16 (drop 38 p), t6_ip_src = take 16 (drop 22 p), t6_port_dst = be16 p 56,
      t6_port_src = be16 p 54, t6_proto = p ! 20\<rparr>"

section \<open>Facts\<close>

lemma le16_be [simp]: "le16 (rte_cpu_to_be_16 w) = [ucast (drop_bit 8 w), ucast w]"
  unfolding le16_def rte_cpu_to_be_16_def
  by (simp, intro conjI; rule bit_word_eqI) (auto simp: bit_simps)

lemma bit_u8_beyond [simp]: "8 \<le> n \<Longrightarrow> \<not> bit (b :: u8) n"
  using bit_imp_le_length [of b n] by auto

lemma be16_eq_iff: "push_bit 8 (ucast a) OR ucast b = w \<longleftrightarrow> a = ucast (drop_bit 8 w) \<and> b = ucast w"
  for w :: u16 and a b :: u8
proof
  assume "push_bit 8 (ucast a) OR ucast b = w"
  then show "a = ucast (drop_bit 8 w) \<and> b = ucast w"
    by (intro conjI; hypsubst; intro bit_word_eqI)
      (auto simp: bit_simps)
next
  assume "a = ucast (drop_bit 8 w) \<and> b = ucast w"
  then show "push_bit 8 (ucast a) OR ucast b = w"
    by (intro bit_word_eqI)
      (auto simp: bit_simps)
qed

lemma nat_quarters:
  fixes n :: nat
  obtains "n < 8" | "8 \<le> n" "n < 16" | "16 \<le> n" "n < 24" | "24 \<le> n"
  by linarith

lemma IPv4_eq_iff: "IPv4 a b c d = w \<longleftrightarrow>
    a = ucast (drop_bit 24 w) \<and> b = ucast (drop_bit 16 w) \<and> c = ucast (drop_bit 8 w) \<and> d = ucast w"
  (is "_ \<longleftrightarrow> ?R")
proof
  assume "IPv4 a b c d = w"
  then show ?R
    unfolding IPv4_def by (intro conjI; hypsubst; intro bit_word_eqI)
      (auto simp: bit_simps)
next
  assume ?R
  then have "bit (IPv4 a b c d) n = bit w n" if "n < 32" for n
    using that unfolding IPv4_def by (cases n rule: nat_quarters) (auto simp: bit_simps)
  then show "IPv4 a b c d = w" by (intro bit_word_eqI) simp
qed

lemma le32_be [simp]:
  "le32 (rte_cpu_to_be_32 w) =
     [ucast (drop_bit 24 w), ucast (drop_bit 16 w), ucast (drop_bit 8 w), ucast w]"
  using IPv4_eq_iff [THEN iffD1, OF refl, of "ucast w" "ucast (drop_bit 8 w)" "ucast (drop_bit 16 w)"
      "ucast (drop_bit 24 w)"]
  by (simp add: rte_cpu_to_be_32_def le32_def)

lemma le32_consts [simp]:
  "le32 ALL_32_BITS = [0xFF, 0xFF, 0xFF, 0xFF]" "le32 BIT_8_TO_15 = [0, 0xFF, 0, 0]"
  "le32 BIT_16_TO_23 = [0, 0, 0xFF, 0]" "le32 0 = [0, 0, 0, 0]"
  by (simp_all add: le32_def ALL_32_BITS_def BIT_8_TO_15_def BIT_16_TO_23_def drop_bit_eq_div)

lemmas mask_defs = ipv4_mask0_def ipv6_mask1_def ipv6_mask2_def mm_set_epi32_def

lemma and_0xFF [simp]: "(b :: u8) AND 0xFF = b"
proof -
  have "(0xFF :: u8) = mask 8" by (simp add: mask_eq_exp_minus_1)
  moreover have "b AND mask 8 = take_bit 8 b" by (rule take_bit_eq_mask [symmetric])
  moreover have "take_bit 8 b = b" by (rule bit_word_eqI) (simp add: bit_simps)
  ultimately show ?thesis by metis
qed

text \<open>A window of a list, element by element.\<close>

lemma take_drop_nths: "i + n \<le> length p \<Longrightarrow> take n (drop i p) = map (\<lambda>j. p ! (i + j)) [0..<n]"
  by (auto intro: nth_equalityI)

lemma upt_16: "[0..<16] = [0, 1, 2, 3, 4, 5, 6, 7, 8, 9, 10, 11, 12, 13, 14, 15 :: nat]"
  by (simp add: upt_rec)

lemma ipv4_key_bytes:
  assumes "38 \<le> length (mtod m)"
  shows "ipv4_key ipv4_mask0 m = Some (let p = mtod m in
    [0, p ! 23, 0, 0, p ! 26, p ! 27, p ! 28, p ! 29, p ! 30, p ! 31, p ! 32, p ! 33,
     p ! 34, p ! 35, p ! 36, p ! 37])"
  using assms
  by (simp add: ipv4_key_def mm_loadu_def sizeof_ether_hdr_def offsetof_time_to_live_def
      take_drop_nths upt_16 mm_and_def mask_defs Let_def)

lemma ipv4_key_short: "length (mtod m) < 38 \<Longrightarrow> ipv4_key msk m = None"
  by (simp add: ipv4_key_def mm_loadu_def sizeof_ether_hdr_def offsetof_time_to_live_def)

lemma xmm4_convert: "xmm4 (convert_ipv4_5tuple t) =
    [0, t4_proto t, 0, 0] @ le32 (rte_cpu_to_be_32 (t4_ip_src t)) @ le32 (rte_cpu_to_be_32 (t4_ip_dst t))
      @ le16 (rte_cpu_to_be_16 (t4_port_src t)) @ le16 (rte_cpu_to_be_16 (t4_port_dst t))"
  by (simp add: xmm4_def convert_ipv4_5tuple_def le16_def [of 0])

lemma xmm6_convert: "xmm6 (convert_ipv6_5tuple t) =
    [0, 0, t6_proto t, 0] @ map (\<lambda>i. t6_ip_src t ! i) [0..<16] @ map (\<lambda>i. t6_ip_dst t ! i) [0..<16]
      @ le16 (rte_cpu_to_be_16 (t6_port_src t)) @ le16 (rte_cpu_to_be_16 (t6_port_dst t))
      @ [0, 0, 0, 0, 0, 0, 0, 0]"
  by (simp add: xmm6_def convert_ipv6_5tuple_def le16_def [of 0] le64_def del: upt_conv_Cons)

lemma get_ipv6_5tuple_bytes:
  assumes "66 \<le> length (mtod m)"
  shows "get_ipv6_5tuple m ipv6_mask1 ipv6_mask2 = Some (let p = mtod m in
    [0, 0, p ! 20, 0] @ take 16 (drop 22 p) @ take 16 (drop 38 p) @
    [p ! 54, p ! 55, p ! 56, p ! 57, 0, 0, 0, 0, 0, 0, 0, 0])"
  using assms
  by (simp add: get_ipv6_5tuple_def mm_loadu_def sizeof_ether_hdr_def offsetof_payload_len_def
      take_drop_nths upt_16 mm_and_def mask_defs Let_def)

lemma map_nth_16 [simp]: "length a = 16 \<Longrightarrow> map ((!) a) [0..<16] = a"
  by (metis map_nth)

lemma ipv4_key_iff:
  assumes "38 \<le> length (mtod m)"
  shows "ipv4_key ipv4_mask0 m = Some (xmm4 (convert_ipv4_5tuple t)) \<longleftrightarrow> packet_5tuple (mtod m) = t"
  unfolding ipv4_key_bytes [OF assms] xmm4_convert
  by (cases t) (auto simp: packet_5tuple_def be32_def be16_def IPv4_eq_iff be16_eq_iff Let_def)

lemma ipv4_key_of_packet:
  "38 \<le> length (mtod m) \<Longrightarrow>
     ipv4_key ipv4_mask0 m = Some (xmm4 (convert_ipv4_5tuple (packet_5tuple (mtod m))))"
  by (simp add: ipv4_key_iff)

section \<open>Properties\<close>

text \<open>
  C29: The key that the engine computes from a packet is the key of a 5-tuple exactly when the
  headers of the packet carry that 5-tuple: the mask, the byte order and the layout of the key
  fit together, so the table is asked for protocol, addresses and ports and for nothing else.
\<close>

theorem ipv4_key_exact:
  assumes "38 \<le> length (mtod m)"
  shows "ipv4_key ipv4_mask0 m = Some (xmm4 (convert_ipv4_5tuple t)) \<longleftrightarrow> packet_5tuple (mtod m) = t"
  using assms by (rule ipv4_key_iff)

theorem ipv4_key_exact_witness:
  "ipv4_key ipv4_mask0 \<lparr>mbuf_addr = 0, mtod = map of_nat [0..<64], data_len = 64, ol_flags = 0\<rparr> =
     Some (xmm4 (convert_ipv4_5tuple \<lparr>t4_ip_dst = 0x1E1F2021, t4_ip_src = 0x1A1B1C1D,
       t4_port_dst = 0x2425, t4_port_src = 0x2223, t4_proto = 23\<rparr>))"
  by (subst ipv4_key_exact)
    (simp_all add: packet_5tuple_def be32_def be16_def IPv4_def push_bit_eq_mult)

text \<open>
  C30: The same for IPv6: the 48 bytes assembled from three loads are the key of a 5-tuple
  exactly when the packet carries that 5-tuple.
\<close>

theorem ipv6_key_exact:
  assumes "66 \<le> length (mtod m)" "length (t6_ip_src t) = 16" "length (t6_ip_dst t) = 16"
  shows "get_ipv6_5tuple m ipv6_mask1 ipv6_mask2 = Some (xmm6 (convert_ipv6_5tuple t)) \<longleftrightarrow>
    packet_6_5tuple (mtod m) = t"
  unfolding get_ipv6_5tuple_bytes [OF assms(1)] xmm6_convert
  using assms
  by (cases t)
    (auto simp: packet_6_5tuple_def be16_def be16_eq_iff Let_def simp del: upt_conv_Cons)

theorem ipv6_key_exact_witness:
  "get_ipv6_5tuple \<lparr>mbuf_addr = 0, mtod = map of_nat [0..<66], data_len = 66, ol_flags = 0\<rparr>
       ipv6_mask1 ipv6_mask2 =
     Some (xmm6 (convert_ipv6_5tuple \<lparr>t6_ip_dst = map of_nat [38..<54], t6_ip_src = map of_nat [22..<38],
       t6_port_dst = 0x3839, t6_port_src = 0x3637, t6_proto = 20\<rparr>))"
  by (subst ipv6_key_exact)
    (simp_all add: packet_6_5tuple_def be16_def push_bit_eq_mult take_map drop_map upt_rec)

end
