(* ===== verification/Bridge_Datapath.thy ===== *)
theory Bridge_Datapath
  imports Bridge_State
begin

text \<open>
  The forwarding loop of \<^verbatim>\<open>src/bridge.c\<close>: the transmit table, the filter decision on one
  packet, one round of the loop and a number of rounds. The relation \<open>flow\<close> is the account
  of what happened to packets between two states: which were sent, which were dropped by
  the device, which were filtered and which wait. The locale \<open>tx_path\<close> is the contract
  of a transmit table against which forwarding loops are verified.
\<close>

section \<open>The operations\<close>

text \<open>The loop that gives back the packets the device did not take.\<close>

function send_burst_drop ::
  "nat \<Rightarrow> nat \<Rightarrow> ('nic, 'e) bridge_state \<Rightarrow> ('nic, 'e) bridge_state option" where
  "send_burst_drop i n s =
     (if i < n then do {
        m \<leftarrow> ptr_get (mbufs (mbuf_tx (slave_conf s))) i;
        s \<leftarrow> stat_upd (\<lambda>st. st\<lparr>dropped_b := dropped_b st + ucast (data_len m)\<rparr>) s;
        send_burst_drop (Suc i) n (rte_pktmbuf_free m s)
      } else Some s)"
  by pat_completeness auto
termination
  by (relation "measure (\<lambda>(i, n, s). n - i)") auto

definition bridge_send_burst ::
  "'nic eth_ops \<Rightarrow> nat \<Rightarrow> ('nic, 'e) bridge_state \<Rightarrow> (int \<times> ('nic, 'e) bridge_state) option" where
  "bridge_send_burst ops pkts_nb s = do {
     ms \<leftarrow> those (take (pkts_nb mod 2 ^ 16) (mbufs (mbuf_tx (slave_conf s))));
     let (return_value, nic') =
       rte_eth_tx_burst ops (nic s) (port_tx (slave_conf s)) (queue_tx (slave_conf s)) ms;
     s \<leftarrow> stat_upd (\<lambda>st. st\<lparr>tx := tx st + of_nat return_value\<rparr>) (s\<lparr>nic := nic'\<rparr>);
     s \<leftarrow> (if return_value < pkts_nb then do {
             s \<leftarrow> stat_upd (\<lambda>st. st\<lparr>dropped := dropped st + of_nat (pkts_nb - return_value)\<rparr>) s;
             send_burst_drop return_value pkts_nb s
           } else Some s);
     Some (0, s)
   }"

definition bridge_add_packet ::
  "'nic eth_ops \<Rightarrow> rte_mbuf \<Rightarrow> ('nic, 'e) bridge_state \<Rightarrow> (int \<times> ('nic, 'e) bridge_state) option" where
  "bridge_add_packet ops mbuf s = do {
     let pkts_nb = tbl_length (mbuf_tx (slave_conf s));
     a \<leftarrow> arr_set (mbufs (mbuf_tx (slave_conf s))) pkts_nb (Some mbuf);
     let s = s\<lparr>slave_conf := (slave_conf s)\<lparr>mbuf_tx := (mbuf_tx (slave_conf s))\<lparr>mbufs := a\<rparr>\<rparr>\<rparr>;
     let pkts_nb = pkts_nb + 1;
     (s, pkts_nb) \<leftarrow> (if pkts_nb = MAX_PKT_BURST then do {
             (_, s) \<leftarrow> bridge_send_burst ops MAX_PKT_BURST s;
             Some (s, 0)
           } else Some (s, pkts_nb));
     Some (0, set_tx_length pkts_nb s)
   }"

definition bridge_filter ::
  "'nic eth_ops \<Rightarrow> 'e engine \<Rightarrow> rte_mbuf \<Rightarrow> ('nic, 'e) bridge_state \<Rightarrow>
   (int \<times> ('nic, 'e) bridge_state) option" where
  "bridge_filter ops filter_engine mbuf s = do {
     (r, e) \<leftarrow> filter_engine (eng s) (mtod mbuf) (ucast (data_len mbuf));
     if r = 0 then bridge_add_packet ops mbuf (s\<lparr>eng := e\<rparr>)
     else Some (- 1, s\<lparr>eng := e\<rparr>)
   }"

text \<open>The loop over the packets of one burst.\<close>

fun bridge_rx_packets ::
  "'nic eth_ops \<Rightarrow> 'e engine \<Rightarrow> rte_mbuf list \<Rightarrow> ('nic, 'e) bridge_state \<Rightarrow>
   ('nic, 'e) bridge_state option" where
  "bridge_rx_packets ops engine [] s = Some s"
| "bridge_rx_packets ops engine (mbuf # ms) s = do {
     s \<leftarrow> stat_upd (\<lambda>st. st\<lparr>rx_b := rx_b st + ucast (data_len mbuf)\<rparr>) s;
     (r, s) \<leftarrow> bridge_filter ops engine mbuf s;
     s \<leftarrow> (if r \<noteq> 0 then do {
             s \<leftarrow> stat_upd (\<lambda>st. st\<lparr>filtered := filtered st + 1\<rparr>) s;
             s \<leftarrow> stat_upd (\<lambda>st. st\<lparr>filtered_b := filtered_b st + ucast (data_len mbuf)\<rparr>) s;
             Some (rte_pktmbuf_free mbuf s)
           } else Some s);
     bridge_rx_packets ops engine ms s
   }"

text \<open>Sending what waits when the drain timer has expired.\<close>

definition bridge_drain ::
  "'nic eth_ops \<Rightarrow> ('nic, 'e) bridge_state \<Rightarrow> ('nic, 'e) bridge_state option" where
  "bridge_drain ops s =
     (if tbl_length (mbuf_tx (slave_conf s)) \<noteq> 0 then do {
        (_, s) \<leftarrow> bridge_send_burst ops (tbl_length (mbuf_tx (slave_conf s))) s;
        Some (set_tx_length 0 s)
      } else Some s)"

text \<open>One round of the loop, with the value of \<open>prev_tsc\<close> and \<open>drain_tsc\<close> in it.\<close>

definition bridge_loop_body ::
  "'nic eth_ops \<Rightarrow> 'e engine \<Rightarrow> u64 \<Rightarrow> u64 \<Rightarrow> ('nic, 'e) bridge_state \<Rightarrow>
   ('nic, 'e) bridge_state option" where
  "bridge_loop_body ops engine drain_tsc prev_tsc s = do {
     let (cur_tsc, nic') = rte_rdtsc ops (nic s);
     let s = s\<lparr>nic := nic'\<rparr>;
     let diff_tsc = cur_tsc - prev_tsc;
     s \<leftarrow> (if diff_tsc > drain_tsc then bridge_drain ops s else Some s);
     let (packets_burst, nic') =
       rte_eth_rx_burst ops (nic s) (port_rx (slave_conf s)) (queue_rx (slave_conf s)) MAX_PKT_BURST;
     let s = s\<lparr>nic := nic'\<rparr>;
     if length packets_burst = 0 then Some s
     else do {
       s \<leftarrow> stat_upd (\<lambda>st. st\<lparr>rx := rx st + of_nat (length packets_burst)\<rparr>) s;
       bridge_rx_packets ops engine packets_burst s
     }
   }"

definition US_PER_S :: u64 where
  "US_PER_S = 1000000"

definition drain_period :: "'nic eth_ops \<Rightarrow> u64" where
  "drain_period ops = (rte_get_tsc_hz ops + US_PER_S - 1) div US_PER_S * BURST_TX_DRAIN_US"

text \<open>The first \<open>n\<close> rounds of the endless loop; \<open>prev_tsc\<close> is set once, to 0.\<close>

definition bridge_main_loop ::
  "'nic eth_ops \<Rightarrow> u32 \<Rightarrow> u8 \<Rightarrow> nat \<Rightarrow> 'e engine \<Rightarrow> nat \<Rightarrow> ('nic, 'e) bridge_state \<Rightarrow>
   ('nic, 'e) bridge_state option" where
  "bridge_main_loop ops port_mask nb_ports lcore_id engine n s =
     repeat_step n (bridge_loop_body ops engine (drain_period ops) 0)
       (s\<lparr>main_enabled_port_mask := port_mask, port_nb := nb_ports, my_core_id := lcore_id\<rparr>)"

section \<open>What a loop does to packets\<close>

text \<open>The decisions of an engine on packets taken in order (\<open>True\<close>: the packet is filtered).\<close>

fun engine_run ::
  "'e engine \<Rightarrow> 'e \<Rightarrow> rte_mbuf list \<Rightarrow> ((rte_mbuf \<times> bool) list \<times> 'e) option" where
  "engine_run engine e [] = Some ([], e)"
| "engine_run engine e (m # ms) = do {
     (r, e) \<leftarrow> engine e (mtod m) (ucast (data_len m));
     (ds, e) \<leftarrow> engine_run engine e ms;
     Some ((m, r \<noteq> 0) # ds, e)
   }"

text \<open>
  An engine that, from its states that satisfy \<open>I\<close>, never runs into undefined behaviour on
  packets that satisfy \<open>P\<close>, and keeps \<open>I\<close>.
\<close>

definition engine_safe :: "('e \<Rightarrow> bool) \<Rightarrow> (rte_mbuf \<Rightarrow> bool) \<Rightarrow> 'e engine \<Rightarrow> bool" where
  "engine_safe I P engine \<longleftrightarrow>
     (\<forall>e m. I e \<and> P m \<longrightarrow> (\<exists>r e'. engine e (mtod m) (ucast (data_len m)) = Some (r, e') \<and> I e'))"

definition blocked :: "(rte_mbuf \<times> bool) list \<Rightarrow> rte_mbuf list" where
  "blocked ds = map fst (filter snd ds)"

definition passed :: "(rte_mbuf \<times> bool) list \<Rightarrow> rte_mbuf list" where
  "passed ds = map fst (filter (\<lambda>d. \<not> snd d) ds)"

text \<open>
  \<open>flow_gen rx_log tx_log s r rb ds s'\<close>: between the states \<open>s\<close> and \<open>s'\<close> the packets \<open>r\<close> came
  in and the decisions \<open>ds\<close> were carried out, with \<open>rb\<close> bytes counted as received; \<open>snt\<close> went to the device, \<open>drp\<close> was
  refused by it, \<open>frd\<close> was given back. Statistics other than the slave's own, and the
  configuration of the slave, stay.
\<close>

definition flow_gen ::
  "('nic \<Rightarrow> rte_mbuf list) \<Rightarrow> ('nic \<Rightarrow> rte_mbuf list) \<Rightarrow> ('nic, 'e) bridge_state \<Rightarrow>
   rte_mbuf list \<Rightarrow> u64 \<Rightarrow> (rte_mbuf \<times> bool) list \<Rightarrow> ('nic, 'e) bridge_state \<Rightarrow> bool" where
  "flow_gen rx_log tx_log s r rb ds s' \<longleftrightarrow>
     (\<exists>snt drp frd.
        rx_log (nic s') = rx_log (nic s) @ r \<and>
        tx_log (nic s') = tx_log (nic s) @ snt \<and>
        freed s' = freed s @ frd \<and>
        mset frd = mset drp + mset (blocked ds) \<and>
        mset (pending s) + mset (passed ds) = mset snt + mset drp + mset (pending s') \<and>
        subseq (snt @ pending s') (pending s @ passed ds) \<and>
        my_stats s' = (my_stats s)
          \<lparr>tx := tx (my_stats s) + of_nat (length snt),
           rx := rx (my_stats s) + of_nat (length r),
           filtered := filtered (my_stats s) + of_nat (length (blocked ds)),
           dropped := dropped (my_stats s) + of_nat (length drp),
           rx_b := rx_b (my_stats s) + rb,
           filtered_b := filtered_b (my_stats s) + pkt_bytes (blocked ds),
           dropped_b := dropped_b (my_stats s) + pkt_bytes drp\<rparr> \<and>
        length (port_statistics s') = length (port_statistics s) \<and>
        (\<forall>i. i \<noteq> unat (conf_id (slave_conf s)) \<longrightarrow>
           port_statistics s' ! i = port_statistics s ! i) \<and>
        same_conf (slave_conf s) (slave_conf s'))"

text \<open>With the bytes of exactly the packets decided on counted as received.\<close>

definition flow ::
  "('nic \<Rightarrow> rte_mbuf list) \<Rightarrow> ('nic \<Rightarrow> rte_mbuf list) \<Rightarrow> ('nic, 'e) bridge_state \<Rightarrow>
   rte_mbuf list \<Rightarrow> (rte_mbuf \<times> bool) list \<Rightarrow> ('nic, 'e) bridge_state \<Rightarrow> bool" where
  "flow rx_log tx_log s r ds s' \<longleftrightarrow> flow_gen rx_log tx_log s r (pkt_bytes (map fst ds)) ds s'"

text \<open>The part of it that a transmit table is responsible for: the packets \<open>ms\<close> are added.\<close>

definition tx_step ::
  "('nic \<Rightarrow> rte_mbuf list) \<Rightarrow> ('nic \<Rightarrow> rte_mbuf list) \<Rightarrow> ('nic, 'e) bridge_state \<Rightarrow>
   rte_mbuf list \<Rightarrow> ('nic, 'e) bridge_state \<Rightarrow> bool" where
  "tx_step rx_log tx_log s ms s' \<longleftrightarrow>
     (\<exists>snt drp.
        rx_log (nic s') = rx_log (nic s) \<and>
        tx_log (nic s') = tx_log (nic s) @ snt \<and>
        freed s' = freed s @ drp \<and>
        mset (pending s) + mset ms = mset snt + mset drp + mset (pending s') \<and>
        subseq (snt @ pending s') (pending s @ ms) \<and>
        my_stats s' = (my_stats s)
          \<lparr>tx := tx (my_stats s) + of_nat (length snt),
           dropped := dropped (my_stats s) + of_nat (length drp),
           dropped_b := dropped_b (my_stats s) + pkt_bytes drp\<rparr> \<and>
        length (port_statistics s') = length (port_statistics s) \<and>
        (\<forall>i. i \<noteq> unat (conf_id (slave_conf s)) \<longrightarrow>
           port_statistics s' ! i = port_statistics s ! i) \<and>
        same_conf (slave_conf s) (slave_conf s') \<and>
        eng s' = eng s)"

section \<open>The transmit table\<close>

declare send_burst_drop.simps [simp del]

lemma send_burst_drop_eq:
  assumes "stats_ok s" "n \<le> length (mbufs (mbuf_tx (slave_conf s)))"
    "None \<notin> set (take n (mbufs (mbuf_tx (slave_conf s))))"
  defines "ms \<equiv> map the (take n (mbufs (mbuf_tx (slave_conf s))))"
  shows "send_burst_drop i n s =
    Some (put_stats ((my_stats s)\<lparr>dropped_b := dropped_b (my_stats s) + pkt_bytes (drop i ms)\<rparr>)
      (s\<lparr>freed := freed s @ drop i ms\<rparr>))"
  using assms(1-3) unfolding ms_def
proof (induction i n s rule: send_burst_drop.induct)
  case (1 i n s)
  let ?a = "mbufs (mbuf_tx (slave_conf s))"
  show ?case
  proof (cases "i < n")
    case True
    have i: "i < length ?a" using True "1.prems"(2) by simp
    then have "?a ! i \<in> set (take n ?a)" using True "1.prems"(2) by (auto simp: in_set_conv_nth)
    then obtain m where m: "?a ! i = Some m" using "1.prems"(3) by (metis option.exhaust)
    have drop: "drop i (map the (take n ?a)) = m # drop (Suc i) (map the (take n ?a))"
      using True i m by (subst Cons_nth_drop_Suc [symmetric]) simp_all
    have get: "ptr_get ?a i = Some m" using i m by (simp add: ptr_get_def)
    let ?f = "\<lambda>st. st\<lparr>dropped_b := dropped_b st + ucast (data_len m)\<rparr>"
    let ?s = "put_stats (?f (my_stats s)) s"
    have upd: "stat_upd ?f s = Some ?s" using "1.prems"(1) by simp
    show ?thesis
      unfolding drop send_burst_drop.simps [of i n s]
      using True "1.prems" get "1.IH" [OF True get upd]
      by (simp add: rte_pktmbuf_free_def add.assoc)
  next
    case False
    then show ?thesis
      using "1.prems" by (subst send_burst_drop.simps) simp
  qed
qed

text \<open>Sending the first \<open>n\<close> entries of the table, when the device takes \<open>k\<close> of them.\<close>

lemma bridge_send_burst_eq:
  assumes "stats_ok s" "n \<le> length (mbufs (mbuf_tx (slave_conf s)))" "n \<le> MAX_PKT_BURST"
    "None \<notin> set (take n (mbufs (mbuf_tx (slave_conf s))))"
  defines "ms \<equiv> map the (take n (mbufs (mbuf_tx (slave_conf s))))"
  assumes "rte_eth_tx_burst ops (nic s) (port_tx (slave_conf s)) (queue_tx (slave_conf s)) ms = (k, x)"
    "k \<le> length ms"
  shows "bridge_send_burst ops n s =
    Some (0, put_stats ((my_stats s)
        \<lparr>tx := tx (my_stats s) + of_nat k,
         dropped := dropped (my_stats s) + of_nat (n - k),
         dropped_b := dropped_b (my_stats s) + pkt_bytes (drop k ms)\<rparr>)
      (s\<lparr>nic := x, freed := freed s @ drop k ms\<rparr>))"
proof -
  have n: "n mod 2 ^ 16 = n" using assms(3) by (simp add: MAX_PKT_BURST_def)
  have len: "length ms = n" using assms(2) by (simp add: ms_def)
  have those: "those (take n (mbufs (mbuf_tx (slave_conf s)))) = Some ms"
    using assms(4) unfolding ms_def by (rule those_map_the)
  show ?thesis
  proof (cases "k < n")
    case True
    then show ?thesis
      using assms(1-4,6,7) n those
      by (simp add: bridge_send_burst_def send_burst_drop_eq flip: ms_def)
  next
    case False
    then have "drop k ms = []" "n - k = 0" using len by auto
    then show ?thesis
      using False assms(1-4,6,7) n those by (simp add: bridge_send_burst_def flip: ms_def)
  qed
qed

lemma tx_stepI:
  assumes "nic s' = nic s" "freed s' = freed s" "pending s' = pending s @ ms"
    "my_stats s' = my_stats s" "port_statistics s' = port_statistics s"
    "same_conf (slave_conf s) (slave_conf s')" "eng s' = eng s"
  shows "tx_step rx_log tx_log s ms s'"
  unfolding tx_step_def
  by (rule exI [where x = "[]"], rule exI [where x = "[]"]) (use assms in simp)

lemma tx_step_nic:
  "rx_log x = rx_log (nic s) \<Longrightarrow> tx_log x = tx_log (nic s) \<Longrightarrow>
     tx_step rx_log tx_log s [] (s\<lparr>nic := x\<rparr>)"
  unfolding tx_step_def by (intro exI [where x = "[]"]) simp

context nic_contract
begin

lemma bridge_send_burst_step:
  assumes "stats_ok s" "n \<le> length (mbufs (mbuf_tx (slave_conf s)))" "n \<le> MAX_PKT_BURST"
    "None \<notin> set (take n (mbufs (mbuf_tx (slave_conf s))))"
    "map the (take n (mbufs (mbuf_tx (slave_conf s)))) = pending s0 @ ms"
    "nic s0 = nic s" "freed s0 = freed s" "my_stats s0 = my_stats s"
    "port_statistics s0 = port_statistics s" "eng s0 = eng s"
    "same_conf (slave_conf s0) (slave_conf s)"
  shows "\<exists>s'. bridge_send_burst ops n s = Some (0, s') \<and>
    slave_conf s' = slave_conf s \<and> stats_ok s' \<and>
    tx_step rx_log tx_log s0 ms (set_tx_length 0 s')"
proof -
  let ?ms = "map the (take n (mbufs (mbuf_tx (slave_conf s))))"
  obtain k x where tx:
    "rte_eth_tx_burst ops (nic s) (port_tx (slave_conf s)) (queue_tx (slave_conf s)) ?ms = (k, x)"
    by fastforce
  have k: "k \<le> length ?ms" using tx by (rule tx_bound)
  define s' where "s' = put_stats ((my_stats s)
        \<lparr>tx := tx (my_stats s) + of_nat k,
         dropped := dropped (my_stats s) + of_nat (n - k),
         dropped_b := dropped_b (my_stats s) + pkt_bytes (drop k ?ms)\<rparr>)
      (s\<lparr>nic := x, freed := freed s @ drop k ?ms\<rparr>)"
  have "bridge_send_burst ops n s = Some (0, s')"
    unfolding s'_def using assms(1-4) tx k by (rule bridge_send_burst_eq)
  moreover have "slave_conf s' = slave_conf s" "stats_ok s'"
    using assms(1) by (simp_all add: s'_def)
  moreover have "tx_step rx_log tx_log s0 ms (set_tx_length 0 s')"
    unfolding tx_step_def
  proof (intro exI conjI)
    show "rx_log (nic (set_tx_length 0 s')) = rx_log (nic s0)"
      using tx_frame [OF tx] assms(6) by (simp add: s'_def)
    show "tx_log (nic (set_tx_length 0 s')) = tx_log (nic s0) @ take k ?ms"
      using tx_sent [OF tx] assms(6) by (simp add: s'_def)
    show "freed (set_tx_length 0 s') = freed s0 @ drop k ?ms"
      using assms(7) by (simp add: s'_def)
    show "mset (pending s0) + mset ms =
        mset (take k ?ms) + mset (drop k ?ms) + mset (pending (set_tx_length 0 s'))"
      by (simp only: mset_take_drop pending_set_tx_length_0 assms(5) mset_append) simp
    show "subseq (take k ?ms @ pending (set_tx_length 0 s')) (pending s0 @ ms)"
      by (simp only: pending_set_tx_length_0 append_Nil2 subseq_take flip: assms(5))
    have "length ?ms = n" using assms(2) by simp
    then show "my_stats (set_tx_length 0 s') = (my_stats s0)
          \<lparr>tx := tx (my_stats s0) + of_nat (length (take k ?ms)),
           dropped := dropped (my_stats s0) + of_nat (length (drop k ?ms)),
           dropped_b := dropped_b (my_stats s0) + pkt_bytes (drop k ?ms)\<rparr>"
      using assms(1,8) k by (simp add: s'_def min_def)
    show "\<forall>i. i \<noteq> unat (conf_id (slave_conf s0)) \<longrightarrow>
        port_statistics (set_tx_length 0 s') ! i = port_statistics s0 ! i"
      using assms(9) same_conf_id [OF assms(11)] by (simp add: s'_def)
    show "same_conf (slave_conf s0) (slave_conf (set_tx_length 0 s'))"
      using assms(11) by (simp add: s'_def same_conf_def)
  qed (use assms(9,10) in \<open>simp_all add: s'_def\<close>)
  ultimately show ?thesis by blast
qed

lemma bridge_add_packet_step:
  assumes wf: "bridge_wf s"
  shows "\<exists>s'. bridge_add_packet ops m s = Some (0, s') \<and> bridge_wf s' \<and>
    tx_step rx_log tx_log s [m] s'"
proof -
  let ?t = "mbuf_tx (slave_conf s)"
  let ?n = "tbl_length ?t"
  define a where "a = (mbufs ?t)[?n := Some m]"
  define s1 where "s1 = s\<lparr>slave_conf := (slave_conf s)\<lparr>mbuf_tx := ?t\<lparr>mbufs := a\<rparr>\<rparr>\<rparr>"
  have n: "?n < MAX_PKT_BURST" and len: "length (mbufs ?t) = MAX_PKT_BURST"
    and nn: "None \<notin> set (take ?n (mbufs ?t))"
    using wf by (simp_all add: bridge_wf_def)
  have set: "arr_set (mbufs ?t) ?n (Some m) = Some a"
    using n len by (simp add: a_def array_simps)
  have take_a: "take (Suc ?n) a = take ?n (mbufs ?t) @ [Some m]"
    unfolding a_def using n len by (simp add: take_Suc_list_update)
  have ms: "map the (take (Suc ?n) a) = pending s @ [m]"
    by (simp add: take_a pending_def)
  have nn': "None \<notin> set (take (Suc ?n) a)" using nn by (simp add: take_a)
  have len_a: "length a = MAX_PKT_BURST" using len by (simp add: a_def)
  have s1: "mbufs (mbuf_tx (slave_conf s1)) = a" "nic s1 = nic s" "freed s1 = freed s"
    "my_stats s1 = my_stats s" "port_statistics s1 = port_statistics s" "eng s1 = eng s"
    "stats_ok s1" "same_conf (slave_conf s) (slave_conf s1)"
    using wf by (simp_all add: s1_def my_stats_def stats_ok_def bridge_wf_def)
  show ?thesis
  proof (cases "Suc ?n = MAX_PKT_BURST")
    case True
    have "\<exists>s'. bridge_send_burst ops MAX_PKT_BURST s1 = Some (0, s') \<and>
        slave_conf s' = slave_conf s1 \<and> stats_ok s' \<and>
        tx_step rx_log tx_log s [m] (set_tx_length 0 s')"
      by (rule bridge_send_burst_step) (use s1 len_a nn' ms in \<open>simp_all flip: True\<close>)
    then obtain s' where s': "bridge_send_burst ops MAX_PKT_BURST s1 = Some (0, s')"
      "slave_conf s' = slave_conf s1" "stats_ok s'" "tx_step rx_log tx_log s [m] (set_tx_length 0 s')"
      by blast
    have "bridge_add_packet ops m s = Some (0, set_tx_length 0 s')"
      using set s'(1) True by (simp add: bridge_add_packet_def flip: s1_def)
    moreover have "bridge_wf (set_tx_length 0 s')"
      using s'(2,3) s1(1) len_a by (simp add: bridge_wf_def stats_ok_def MAX_PKT_BURST_def)
    ultimately show ?thesis using s'(4) by blast
  next
    case False
    let ?s = "set_tx_length (Suc ?n) s1"
    have "bridge_add_packet ops m s = Some (0, ?s)"
      using set False by (simp add: bridge_add_packet_def flip: s1_def)
    moreover have "pending ?s = pending s @ [m]"
      using ms s1(1) by (simp add: pending_def)
    moreover have "bridge_wf ?s"
      using s1(1,7) len_a nn' n False by (simp add: bridge_wf_def stats_ok_def)
    moreover have "tx_step rx_log tx_log s [m] ?s"
      by (rule tx_stepI) (use s1 calculation in \<open>simp_all add: same_conf_def\<close>)
    ultimately show ?thesis by blast
  qed
qed

lemma bridge_drain_step:
  assumes wf: "bridge_wf s"
  shows "\<exists>s'. bridge_drain ops s = Some s' \<and> bridge_wf s' \<and> tx_step rx_log tx_log s [] s'"
proof (cases "tbl_length (mbuf_tx (slave_conf s)) = 0")
  case True
  then have "bridge_drain ops s = Some s" by (simp add: bridge_drain_def)
  moreover have "tx_step rx_log tx_log s [] s" by (rule tx_stepI) simp_all
  ultimately show ?thesis using wf by blast
next
  case False
  have "\<exists>s'. bridge_send_burst ops (tbl_length (mbuf_tx (slave_conf s))) s = Some (0, s') \<and>
      slave_conf s' = slave_conf s \<and> stats_ok s' \<and>
      tx_step rx_log tx_log s [] (set_tx_length 0 s')"
    by (rule bridge_send_burst_step) (use wf in \<open>simp_all add: bridge_wf_def pending_def stats_ok_def\<close>)
  then obtain s' where s': "bridge_send_burst ops (tbl_length (mbuf_tx (slave_conf s))) s = Some (0, s')"
    "slave_conf s' = slave_conf s" "stats_ok s'" "tx_step rx_log tx_log s [] (set_tx_length 0 s')"
    by blast
  have "bridge_drain ops s = Some (set_tx_length 0 s')"
    using False s'(1) by (simp add: bridge_drain_def)
  moreover have "bridge_wf (set_tx_length 0 s')"
    using wf s'(2,3) by (simp add: bridge_wf_def stats_ok_def MAX_PKT_BURST_def)
  ultimately show ?thesis using s'(4) by blast
qed

end

section \<open>Composing accounts\<close>

lemma blocked_append [simp]: "blocked (xs @ ys) = blocked xs @ blocked ys"
  by (simp add: blocked_def)

lemma passed_append [simp]: "passed (xs @ ys) = passed xs @ passed ys"
  by (simp add: passed_def)

lemma blocked_simps [simp]:
  "blocked [] = []" "blocked ((m, True) # ds) = m # blocked ds" "blocked ((m, False) # ds) = blocked ds"
  by (simp_all add: blocked_def)

lemma passed_simps [simp]:
  "passed [] = []" "passed ((m, True) # ds) = passed ds" "passed ((m, False) # ds) = m # passed ds"
  by (simp_all add: passed_def)

lemma mset_blocked_passed: "mset (blocked ds) + mset (passed ds) = mset (map fst ds)"
  by (induction ds) (auto simp: blocked_def passed_def)

lemma flow_refl: "flow rx_log tx_log s [] [] s"
  unfolding flow_def flow_gen_def
  by (rule exI [where x = "[]"], rule exI [where x = "[]"], rule exI [where x = "[]"]) simp

lemma flow_gen_trans:
  assumes "flow_gen rx_log tx_log s r rb ds s1" "flow_gen rx_log tx_log s1 r' rb' ds' s2"
  shows "flow_gen rx_log tx_log s (r @ r') (rb + rb') (ds @ ds') s2"
proof -
  obtain snt drp frd where a:
    "rx_log (nic s1) = rx_log (nic s) @ r" "tx_log (nic s1) = tx_log (nic s) @ snt"
    "freed s1 = freed s @ frd" "mset frd = mset drp + mset (blocked ds)"
    "mset (pending s) + mset (passed ds) = mset snt + mset drp + mset (pending s1)"
    "subseq (snt @ pending s1) (pending s @ passed ds)"
    "my_stats s1 = (my_stats s)
          \<lparr>tx := tx (my_stats s) + of_nat (length snt),
           rx := rx (my_stats s) + of_nat (length r),
           filtered := filtered (my_stats s) + of_nat (length (blocked ds)),
           dropped := dropped (my_stats s) + of_nat (length drp),
           rx_b := rx_b (my_stats s) + rb,
           filtered_b := filtered_b (my_stats s) + pkt_bytes (blocked ds),
           dropped_b := dropped_b (my_stats s) + pkt_bytes drp\<rparr>"
    "length (port_statistics s1) = length (port_statistics s)"
    "\<forall>i. i \<noteq> unat (conf_id (slave_conf s)) \<longrightarrow> port_statistics s1 ! i = port_statistics s ! i"
    "same_conf (slave_conf s) (slave_conf s1)"
    using assms(1) unfolding flow_gen_def by blast
  obtain snt' drp' frd' where b:
    "rx_log (nic s2) = rx_log (nic s1) @ r'" "tx_log (nic s2) = tx_log (nic s1) @ snt'"
    "freed s2 = freed s1 @ frd'" "mset frd' = mset drp' + mset (blocked ds')"
    "mset (pending s1) + mset (passed ds') = mset snt' + mset drp' + mset (pending s2)"
    "subseq (snt' @ pending s2) (pending s1 @ passed ds')"
    "my_stats s2 = (my_stats s1)
          \<lparr>tx := tx (my_stats s1) + of_nat (length snt'),
           rx := rx (my_stats s1) + of_nat (length r'),
           filtered := filtered (my_stats s1) + of_nat (length (blocked ds')),
           dropped := dropped (my_stats s1) + of_nat (length drp'),
           rx_b := rx_b (my_stats s1) + rb',
           filtered_b := filtered_b (my_stats s1) + pkt_bytes (blocked ds'),
           dropped_b := dropped_b (my_stats s1) + pkt_bytes drp'\<rparr>"
    "length (port_statistics s2) = length (port_statistics s1)"
    "\<forall>i. i \<noteq> unat (conf_id (slave_conf s1)) \<longrightarrow> port_statistics s2 ! i = port_statistics s1 ! i"
    "same_conf (slave_conf s1) (slave_conf s2)"
    using assms(2) unfolding flow_gen_def by blast
  have "subseq (snt @ snt' @ pending s2) (snt @ pending s1 @ passed ds')"
    using b(6) by (simp add: subseq_append')
  also have "subseq \<dots> ((pending s @ passed ds) @ passed ds')"
    using a(6) by (simp flip: append_assoc)
  finally have sub: "subseq ((snt @ snt') @ pending s2) (pending s @ passed (ds @ ds'))"
    by simp
  have bal: "mset (pending s) + mset (passed (ds @ ds')) =
      mset (snt @ snt') + mset (drp @ drp') + mset (pending s2)"
    using a(5) b(5) by (simp add: add.assoc [symmetric])
  show ?thesis
    unfolding flow_gen_def
    by (rule exI [where x = "snt @ snt'"], rule exI [where x = "drp @ drp'"],
        rule exI [where x = "frd @ frd'"])
      (use a(1-4,7-10) b(1-4,7-10) sub bal same_conf_id [OF a(10)]
        same_conf_trans [OF a(10) b(10)] in \<open>simp add: ac_simps\<close>)
qed

lemma flow_trans:
  assumes "flow rx_log tx_log s r ds s1" "flow rx_log tx_log s1 r' ds' s2"
  shows "flow rx_log tx_log s (r @ r') (ds @ ds') s2"
  using flow_gen_trans [OF assms [unfolded flow_def]] by (simp add: flow_def)

text \<open>The parts of a step taken one by one: a decision, and a count of received bytes.\<close>

lemma flow_gen_pass:
  "tx_step rx_log tx_log s [m] s' \<Longrightarrow> flow_gen rx_log tx_log s [] 0 [(m, False)] s'"
  unfolding tx_step_def flow_gen_def by (elim exE) (intro exI, auto)

lemma flow_gen_block:
  assumes "stats_ok s"
  shows "flow_gen rx_log tx_log s [] 0 [(m, True)]
    (put_stats ((my_stats s)
        \<lparr>filtered := filtered (my_stats s) + 1,
         filtered_b := filtered_b (my_stats s) + ucast (data_len m)\<rparr>)
      (s\<lparr>freed := freed s @ [m]\<rparr>))"
  unfolding flow_gen_def
  by (rule exI [where x = "[]"], rule exI [where x = "[]"], rule exI [where x = "[m]"])
    (use assms in simp)

lemma flow_gen_bytes:
  assumes "stats_ok s"
  shows "flow_gen rx_log tx_log s [] b []
    (put_stats ((my_stats s)\<lparr>rx_b := rx_b (my_stats s) + b\<rparr>) s)"
  unfolding flow_gen_def
  by (rule exI [where x = "[]"], rule exI [where x = "[]"], rule exI [where x = "[]"])
    (use assms in simp)

lemma flow_tx_step:
  "tx_step rx_log tx_log s [] s' \<Longrightarrow> flow rx_log tx_log s [] [] s'"
  unfolding tx_step_def flow_def flow_gen_def by fastforce

lemma flow_pass:
  assumes "stats_ok s"
    "tx_step rx_log tx_log
       (put_stats ((my_stats s)\<lparr>rx_b := rx_b (my_stats s) + ucast (data_len m)\<rparr>) (s\<lparr>eng := e\<rparr>)) [m] s'"
  shows "flow rx_log tx_log s [] [(m, False)] s'"
  using assms unfolding tx_step_def flow_def flow_gen_def by (elim exE) (intro exI, auto)

lemma flow_block:
  assumes "stats_ok s"
  shows "flow rx_log tx_log s [] [(m, True)]
    (put_stats ((my_stats s)
        \<lparr>rx_b := rx_b (my_stats s) + ucast (data_len m),
         filtered := filtered (my_stats s) + 1,
         filtered_b := filtered_b (my_stats s) + ucast (data_len m)\<rparr>)
      (s\<lparr>eng := e, freed := freed s @ [m]\<rparr>))"
  unfolding flow_def flow_gen_def
  by (rule exI [where x = "[]"], rule exI [where x = "[]"], rule exI [where x = "[m]"])
    (use assms in simp)

lemma flow_receive:
  assumes "stats_ok s" "rx_log x = rx_log (nic s) @ r" "tx_log x = tx_log (nic s)"
  shows "flow rx_log tx_log s r []
    (put_stats ((my_stats s)\<lparr>rx := rx (my_stats s) + of_nat (length r)\<rparr>) (s\<lparr>nic := x\<rparr>))"
  unfolding flow_def flow_gen_def
  by (rule exI [where x = "[]"], rule exI [where x = "[]"], rule exI [where x = "[]"])
    (use assms in simp)

section \<open>The contract of a transmit table\<close>

text \<open>
  What a forwarding loop needs of its transmit table: adding a packet and draining the table
  succeed on a well-formed state, keep it well-formed and account for every packet.
\<close>

locale tx_path = nic_contract ops rx_log tx_log
  for ops :: "'nic eth_ops" and rx_log tx_log :: "'nic \<Rightarrow> rte_mbuf list" +
  fixes add_packet :: "rte_mbuf \<Rightarrow> ('nic, 'e) bridge_state \<Rightarrow> (int \<times> ('nic, 'e) bridge_state) option"
    and drain :: "('nic, 'e) bridge_state \<Rightarrow> ('nic, 'e) bridge_state option"
  assumes add_packet_step: "bridge_wf s \<Longrightarrow>
      \<exists>s'. add_packet m s = Some (0, s') \<and> bridge_wf s' \<and> tx_step rx_log tx_log s [m] s'"
    and drain_step: "bridge_wf s \<Longrightarrow>
      \<exists>s'. drain s = Some s' \<and> bridge_wf s' \<and> tx_step rx_log tx_log s [] s'"
begin

lemma add_packet_flow:
  assumes wf: "bridge_wf s"
  obtains s' where
    "add_packet m (put_stats ((my_stats s)\<lparr>rx_b := rx_b (my_stats s) + ucast (data_len m)\<rparr>)
       (s\<lparr>eng := e\<rparr>)) = Some (0, s')"
    "bridge_wf s'" "flow rx_log tx_log s [] [(m, False)] s'" "eng s' = e"
proof -
  let ?s = "put_stats ((my_stats s)\<lparr>rx_b := rx_b (my_stats s) + ucast (data_len m)\<rparr>) (s\<lparr>eng := e\<rparr>)"
  have "bridge_wf ?s" using wf by simp
  then obtain s' where s': "add_packet m ?s = Some (0, s')" "bridge_wf s'"
    "tx_step rx_log tx_log ?s [m] s'"
    using add_packet_step by blast
  have "eng s' = e" using s'(3) by (auto simp: tx_step_def)
  with s'(1,2) flow_pass [OF bridge_wf_stats_ok [OF wf] s'(3)] show ?thesis
    by (rule that)
qed

lemma drain_flow:
  assumes "bridge_wf s"
  obtains s' where "drain s = Some s'" "bridge_wf s'" "flow rx_log tx_log s [] [] s'" "eng s' = eng s"
proof -
  obtain s' where s': "drain s = Some s'" "bridge_wf s'" "tx_step rx_log tx_log s [] s'"
    using drain_step [OF assms] by blast
  have "eng s' = eng s" using s'(3) by (auto simp: tx_step_def)
  with s'(1,2) flow_tx_step [OF s'(3)] show ?thesis by (rule that)
qed

lemma receive_flow:
  assumes "bridge_wf s" "rte_eth_rx_burst ops (nic s) p q b = (ms, x)"
  shows "flow rx_log tx_log s ms []
      (put_stats ((my_stats s)\<lparr>rx := rx (my_stats s) + of_nat (length ms)\<rparr>) (s\<lparr>nic := x\<rparr>))"
  using assms rx_received rx_frame by (intro flow_receive) auto

end

sublocale nic_contract \<subseteq> plain: tx_path ops rx_log tx_log "bridge_add_packet ops" "bridge_drain ops"
  by unfold_locales (rule bridge_add_packet_step bridge_drain_step; assumption)+

section \<open>The loop runs the engine over the packets it receives\<close>

lemma engine_run_append:
  "engine_run engine e xs = Some (ds, e1) \<Longrightarrow> engine_run engine e1 ys = Some (ds', e2) \<Longrightarrow>
     engine_run engine e (xs @ ys) = Some (ds @ ds', e2)"
  by (induction xs arbitrary: e ds) (auto split: bind_splits)

lemma engine_run_packets: "engine_run engine e ms = Some (ds, e') \<Longrightarrow> map fst ds = ms"
  by (induction ms arbitrary: e ds) (auto split: bind_splits)

lemma engine_run_total:
  assumes "engine_safe I P engine" "I e" "list_all P ms"
  shows "\<exists>ds e'. engine_run engine e ms = Some (ds, e') \<and> I e'"
  using assms(2,3)
proof (induction ms arbitrary: e)
  case Nil
  then show ?case by simp
next
  case (Cons m ms)
  obtain r e1 where "engine e (mtod m) (ucast (data_len m)) = Some (r, e1)" "I e1"
    using assms(1) Cons.prems unfolding engine_safe_def list.pred_inject by blast
  moreover from this obtain ds e' where "engine_run engine e1 ms = Some (ds, e')" "I e'"
    using Cons.IH [of e1] Cons.prems by auto
  ultimately show ?case by simp
qed

context nic_contract
begin

lemma bridge_rx_packets_flow:
  assumes "bridge_wf s" "engine_run engine (eng s) ms = Some (ds, e')"
  shows "\<exists>s'. bridge_rx_packets ops engine ms s = Some s' \<and> bridge_wf s' \<and>
    flow rx_log tx_log s [] ds s' \<and> eng s' = e'"
  using assms
proof (induction ms arbitrary: s ds)
  case Nil
  then show ?case by (auto intro: flow_refl)
next
  case (Cons m ms)
  from Cons.prems(2) obtain r e1 ds1 where r: "engine (eng s) (mtod m) (ucast (data_len m)) = Some (r, e1)"
    and rest: "engine_run engine e1 ms = Some (ds1, e')" and ds: "ds = (m, r \<noteq> 0) # ds1"
    by (auto split: bind_splits)
  have ok: "stats_ok s" using Cons.prems(1) by simp
  show ?case
  proof (cases "r = 0")
    case True
    obtain s1 where s1: "bridge_add_packet ops m
        (put_stats ((my_stats s)\<lparr>rx_b := rx_b (my_stats s) + ucast (data_len m)\<rparr>) (s\<lparr>eng := e1\<rparr>))
        = Some (0, s1)" "bridge_wf s1" "flow rx_log tx_log s [] [(m, False)] s1" "eng s1 = e1"
      using Cons.prems(1) by (rule plain.add_packet_flow)
    obtain s' where s': "bridge_rx_packets ops engine ms s1 = Some s'" "bridge_wf s'"
      "flow rx_log tx_log s1 [] ds1 s'" "eng s' = e'"
      using Cons.IH [of s1 ds1] s1(2,4) rest by blast
    have "bridge_rx_packets ops engine (m # ms) s = Some s'"
      using ok r True s1(1) s'(1) by (simp add: bridge_filter_def)
    moreover have "flow rx_log tx_log s [] ds s'"
      using flow_trans [OF s1(3) s'(3)] ds True by simp
    ultimately show ?thesis using s'(2,4) by blast
  next
    case False
    define s1 where "s1 = put_stats ((my_stats s)
        \<lparr>rx_b := rx_b (my_stats s) + ucast (data_len m),
         filtered := filtered (my_stats s) + 1,
         filtered_b := filtered_b (my_stats s) + ucast (data_len m)\<rparr>)
      (s\<lparr>eng := e1, freed := freed s @ [m]\<rparr>)"
    have s1: "bridge_wf s1" "eng s1 = e1" using Cons.prems(1) by (simp_all add: s1_def)
    have fl: "flow rx_log tx_log s [] [(m, True)] s1"
      unfolding s1_def using ok by (rule flow_block)
    obtain s' where s': "bridge_rx_packets ops engine ms s1 = Some s'" "bridge_wf s'"
      "flow rx_log tx_log s1 [] ds1 s'" "eng s' = e'"
      using Cons.IH [of s1 ds1] s1 rest by blast
    have "bridge_rx_packets ops engine (m # ms) s = Some s'"
      using ok r False s'(1) by (simp add: bridge_filter_def rte_pktmbuf_free_def s1_def)
    moreover have "flow rx_log tx_log s [] ds s'"
      using flow_trans [OF fl s'(3)] ds False by simp
    ultimately show ?thesis using s'(2,4) by blast
  qed
qed

lemma bridge_loop_body_flow:
  assumes wf: "bridge_wf s" and total: "engine_safe I P engine" "I (eng s)" and del: "delivers P ops"
  shows "\<exists>s' r ds. bridge_loop_body ops engine d p s = Some s' \<and> bridge_wf s' \<and> I (eng s') \<and>
    list_all P r \<and> engine_run engine (eng s) r = Some (ds, eng s') \<and> flow rx_log tx_log s r ds s'"
proof -
  obtain t x where tsc: "rte_rdtsc ops (nic s) = (t, x)" by fastforce
  let ?s0 = "s\<lparr>nic := x\<rparr>"
  have fl0: "flow rx_log tx_log s [] [] ?s0"
    by (rule flow_tx_step, rule tx_step_nic) (use tsc_frame [OF tsc] in simp_all)
  obtain s1 where s1: "(if t - p > d then bridge_drain ops ?s0 else Some ?s0) = Some s1"
    "bridge_wf s1" "flow rx_log tx_log ?s0 [] [] s1" "eng s1 = eng s"
  proof (cases "t - p > d")
    case True
    obtain s1 where "bridge_drain ops ?s0 = Some s1" "bridge_wf s1"
      "flow rx_log tx_log ?s0 [] [] s1" "eng s1 = eng ?s0"
      using wf by (auto intro: plain.drain_flow [of ?s0])
    with True that show ?thesis by simp
  next
    case False
    with wf flow_refl that show ?thesis by fastforce
  qed
  obtain ms y where rx: "rte_eth_rx_burst ops (nic s1) (port_rx (slave_conf s1))
      (queue_rx (slave_conf s1)) MAX_PKT_BURST = (ms, y)"
    by fastforce
  obtain s' ds where s': "bridge_loop_body ops engine d p s = Some s'" "bridge_wf s'"
    "engine_run engine (eng s1) ms = Some (ds, eng s')" "flow rx_log tx_log s1 ms ds s'" "I (eng s')"
  proof (cases "ms = []")
    case True
    have "flow rx_log tx_log s1 [] [] (s1\<lparr>nic := y\<rparr>)"
      by (rule flow_tx_step, rule tx_step_nic)
        (use True rx_received [OF rx] rx_frame [OF rx] in simp_all)
    moreover have "bridge_loop_body ops engine d p s = Some (s1\<lparr>nic := y\<rparr>)"
      using tsc s1(1) rx True by (simp add: bridge_loop_body_def Let_def)
    ultimately show ?thesis using that [of "s1\<lparr>nic := y\<rparr>" "[]"] True s1(2,4) total(2) by simp
  next
    case False
    let ?s2 = "put_stats ((my_stats s1)\<lparr>rx := rx (my_stats s1) + of_nat (length ms)\<rparr>) (s1\<lparr>nic := y\<rparr>)"
    have fl2: "flow rx_log tx_log s1 ms [] ?s2" using s1(2) rx by (rule plain.receive_flow)
    obtain ds e' where run: "engine_run engine (eng ?s2) ms = Some (ds, e')" "I e'"
      using engine_run_total [OF total(1) _ delivers_burst [OF del rx], of "eng ?s2"] total(2) s1(4)
      by auto
    obtain s' where s': "bridge_rx_packets ops engine ms ?s2 = Some s'" "bridge_wf s'"
      "flow rx_log tx_log ?s2 [] ds s'" "eng s' = e'"
      using bridge_rx_packets_flow [OF _ run(1)] s1(2) by auto
    have "bridge_loop_body ops engine d p s = Some s'"
      using tsc s1(1,2) rx False s'(1) by (simp add: bridge_loop_body_def Let_def)
    moreover have "flow rx_log tx_log s1 ms ds s'"
      using flow_trans [OF fl2 s'(3)] by simp
    ultimately show ?thesis using that s'(2,4) run by simp
  qed
  have "flow rx_log tx_log s ms ds s'"
    using flow_trans [OF flow_trans [OF fl0 s1(3)] s'(4)] by simp
  with s' s1(4) delivers_burst [OF del rx] show ?thesis by auto
qed

lemma bridge_rounds_flow:
  assumes "bridge_wf s" and total: "engine_safe I P engine" and "I (eng s)" and del: "delivers P ops"
  shows "\<exists>s' r ds. repeat_step n (bridge_loop_body ops engine d p) s = Some s' \<and> bridge_wf s' \<and> list_all P r \<and>
    engine_run engine (eng s) r = Some (ds, eng s') \<and> flow rx_log tx_log s r ds s'"
  using assms(1,3)
proof (induction n arbitrary: s)
  case 0
  then show ?case by (intro exI [where x = s] exI [where x = "[]"]) (simp add: flow_refl)
next
  case (Suc n)
  obtain s1 r ds where s1: "bridge_loop_body ops engine d p s = Some s1" "bridge_wf s1"
    "engine_run engine (eng s) r = Some (ds, eng s1)" "flow rx_log tx_log s r ds s1" "I (eng s1)"
    "list_all P r"
    using bridge_loop_body_flow [OF Suc.prems(1) total Suc.prems(2) del] by blast
  obtain s' r' ds' where s': "repeat_step n (bridge_loop_body ops engine d p) s1 = Some s'"
    "bridge_wf s'" "engine_run engine (eng s1) r' = Some (ds', eng s')"
    "flow rx_log tx_log s1 r' ds' s'" "list_all P r'"
    using Suc.IH [OF s1(2,5)] by blast
  have "repeat_step (Suc n) (bridge_loop_body ops engine d p) s = Some s'"
    using s1(1) s'(1) by simp
  moreover have "list_all P (r @ r')" using s1(6) s'(5) by simp
  ultimately show ?case
    using s'(2) engine_run_append [OF s1(3) s'(3)] flow_trans [OF s1(4) s'(4)] by blast
qed

lemma bridge_main_loop_flow:
  assumes "bridge_wf s" and total: "engine_safe I P engine" "I (eng s)" "delivers P ops"
  shows "\<exists>s' r ds. bridge_main_loop ops pm nb lc engine n s = Some s' \<and> bridge_wf s' \<and> list_all P r \<and>
    engine_run engine (eng s) r = Some (ds, eng s') \<and> flow rx_log tx_log s r ds s'"
proof -
  let ?s = "s\<lparr>main_enabled_port_mask := pm, port_nb := nb, my_core_id := lc\<rparr>"
  have "bridge_wf ?s" using assms(1) by (simp add: bridge_wf_def)
  moreover have "flow rx_log tx_log s r ds s' = flow rx_log tx_log ?s r ds s'" for r ds s'
    by (simp add: flow_def flow_gen_def pending_def my_stats_def)
  ultimately show ?thesis
    using bridge_rounds_flow [of ?s I P engine, OF _ total(1) _ total(3)] total(2)
    by (simp add: bridge_main_loop_def)
qed

end

end
