(* ===== verification/Engine_Simple.thy ===== *)
theory Engine_Simple
  imports Bridge_Datapath C_Library
begin

text \<open>
  The two engines that do not look at packets: forwarding everything (\<^verbatim>\<open>l2fwd\<close> in
  \<^verbatim>\<open>src/bridge.c\<close>) and letting one packet in \<open>m\<close> through (\<^verbatim>\<open>src/engine_misc.c\<close>).
\<close>

section \<open>Definitions\<close>

definition l2fwd :: "'e engine" where
  "l2fwd e pkt pkt_length = Some (0, e)"

definition l2fwd_init :: "string \<Rightarrow> int" where
  "l2fwd_init dummy = 0"

text \<open>The static variables \<open>modulo\<close> and \<open>n\<close>.\<close>

record modulo_state =
  modulo :: int
  modulo_n :: int

text \<open>
  \<open>n++\<close> beyond the range of \<^verbatim>\<open>int\<close> and \<open>n % 0\<close> are undefined; otherwise \<open>%\<close> truncates
  towards zero.
\<close>

definition modulo_engine :: "modulo_state engine" where
  "modulo_engine e pkt pkt_length =
     (let n = modulo_n e + 1
      in if n > INT_MAX \<or> modulo e = 0 then None
         else if n smod modulo e = 0 then Some (0, e\<lparr>modulo_n := n\<rparr>)
         else Some (- 1, e\<lparr>modulo_n := n\<rparr>))"

definition modulo_init :: "string \<Rightarrow> modulo_state \<Rightarrow> int \<times> modulo_state" where
  "modulo_init args e =
     (let e = e\<lparr>modulo := atoi args\<rparr>
      in if modulo e < 0 then (- 1, e) else (0, e))"

section \<open>Facts\<close>

lemma l2fwd_safe [simp]: "engine_safe (\<lambda>_. True) (\<lambda>_. True) l2fwd"
  by (simp add: engine_safe_def l2fwd_def)

lemma engine_run_l2fwd [simp]: "engine_run l2fwd e ms = Some (map (\<lambda>m. (m, False)) ms, e)"
  by (induction ms) (simp_all add: l2fwd_def)

lemma smod_eq_0_iff [simp]: "(n :: int) smod m = 0 \<longleftrightarrow> m dvd n"
  by (auto simp: signed_modulo_int_def sgn_eq_0_iff simp flip: dvd_eq_mod_eq_0)

text \<open>The packets are numbered from \<open>n + 1\<close>; those whose number is a multiple of \<open>m\<close> pass.\<close>

fun every_mth :: "int \<Rightarrow> int \<Rightarrow> rte_mbuf list \<Rightarrow> (rte_mbuf \<times> bool) list" where
  "every_mth m n [] = []"
| "every_mth m n (p # ps) = (p, \<not> m dvd (n + 1)) # every_mth m (n + 1) ps"

lemma engine_run_modulo:
  assumes "m \<noteq> 0" "n + int (length ms) \<le> INT_MAX"
  shows "engine_run modulo_engine \<lparr>modulo = m, modulo_n = n\<rparr> ms =
    Some (every_mth m n ms, \<lparr>modulo = m, modulo_n = n + int (length ms)\<rparr>)"
  using assms(2)
  by (induction ms arbitrary: n) (use assms(1) in \<open>auto simp: modulo_engine_def Let_def\<close>)

lemma div_Suc_dvd:
  fixes n m :: int
  assumes "0 < m"
  shows "(n + 1) div m = n div m + (if m dvd n + 1 then 1 else 0)"
proof (cases "m dvd n + 1")
  case True
  then obtain k where k: "n + 1 = m * k" by (auto simp: dvd_def)
  have "n div m = k - 1"
    by (rule int_div_pos_eq [where r = "m - 1"]) (use assms k in \<open>simp_all add: algebra_simps\<close>)
  then show ?thesis using True k assms by simp
next
  case False
  define q r where "q = (n + 1) div m" and "r = (n + 1) mod m"
  have "r \<noteq> 0" "0 \<le> r" "r < m" "n + 1 = m * q + r"
    using False assms by (simp_all add: q_def r_def dvd_eq_mod_eq_0)
  then have "n div m = q" by (intro int_div_pos_eq [where r = "r - 1"]) simp_all
  then show ?thesis using False by (simp add: q_def)
qed

lemma length_passed_every_mth:
  "0 < m \<Longrightarrow> int (length (passed (every_mth m n ms))) = (n + int (length ms)) div m - n div m"
proof (induction ms arbitrary: n)
  case Nil
  then show ?case by simp
next
  case (Cons p ms)
  have "int (length (passed (every_mth m n (p # ms)))) =
      (if m dvd n + 1 then 1 else 0) + int (length (passed (every_mth m (n + 1) ms)))"
    by (simp add: passed_def)
  also have "\<dots> = (if m dvd n + 1 then 1 else 0) + ((n + 1 + int (length ms)) div m - (n + 1) div m)"
    using Cons by simp
  also have "\<dots> = (n + int (length (p # ms))) div m - n div m"
    using div_Suc_dvd [OF Cons.prems, of n] by (simp add: algebra_simps)
  finally show ?case .
qed

lemma map_snd_every_mth:
  "map snd (every_mth (int m) (int k) ms) = map (\<lambda>i. \<not> m dvd Suc i) [k..<k + length ms]"
proof (induction ms arbitrary: k)
  case Nil
  then show ?case by simp
next
  case (Cons p ms)
  have "int m dvd int k + 1 \<longleftrightarrow> m dvd Suc k"
    by (metis int_dvd_int_iff of_nat_Suc add.commute)
  moreover have "every_mth (int m) (int k + 1) ms = every_mth (int m) (int (Suc k)) ms"
    by (simp add: add.commute)
  moreover have "[k..<k + length (p # ms)] = k # [Suc k..<Suc k + length ms]"
    by (simp add: upt_conv_Cons del: upt_Suc)
  ultimately show ?case
    using Cons.IH [of "Suc k"] by (simp del: upt_Suc of_nat_Suc)
qed

end
