(* ===== verification/Bridge_Properties.thy ===== *)
theory Bridge_Properties
  imports Engine_Simple
begin

text \<open>
  What the forwarding loop of \<^verbatim>\<open>src/bridge.c\<close> guarantees, for every device that keeps the
  DPDK contract and every engine without undefined behaviour on the packets it is given, and for the
  two simple engines.
  The witnesses run a scripted device of three packets.
\<close>

section \<open>A concrete run\<close>

definition zero_stats :: bridge_port_statistics where
  "zero_stats = \<lparr>tx = 0, rx = 0, filtered = 0, dropped = 0, rx_b = 0, filtered_b = 0,
                 dropped_b = 0, pid = 0\<rparr>"

definition start_conf :: slave_conf_s where
  "start_conf = \<lparr>conf_id = 1, port_rx = 0, port_tx = 1, queue_rx = 0, queue_tx = 0,
                 mbuf_tx = \<lparr>tbl_length = 0, mbufs = replicate MAX_PKT_BURST None\<rparr>\<rparr>"

definition start_state :: "'nic \<Rightarrow> 'e \<Rightarrow> ('nic, 'e) bridge_state" where
  "start_state x e =
     \<lparr>slave_conf = start_conf, main_enabled_port_mask = 0, port_nb = 0, my_core_id = 0,
      port_statistics = [zero_stats, zero_stats, zero_stats], nic = x, eng = e, freed = []\<rparr>"

definition demo_pkt :: "nat \<Rightarrow> rte_mbuf" where
  "demo_pkt a = \<lparr>mbuf_addr = a, mtod = replicate 60 0, data_len = 60, ol_flags = 0\<rparr>"

definition demo_nic :: script_nic where
  "demo_nic = \<lparr>rx_script = [[demo_pkt 1, demo_pkt 2], [demo_pkt 3]], tx_script = [1],
               clock = 0, received = [], sent = []\<rparr>"

lemma start_state_wf [simp]: "bridge_wf (start_state x e)"
  by (simp add: bridge_wf_def start_state_def start_conf_def MAX_PKT_BURST_def)

lemma start_state_sel [simp]:
  "nic (start_state x e) = x" "eng (start_state x e) = e" "freed (start_state x e) = []"
  "pending (start_state x e) = []" "my_stats (start_state x e) = zero_stats"
  "conf_id (slave_conf (start_state x e)) = 1"
  "port_statistics (start_state x e) = [zero_stats, zero_stats, zero_stats]"
  by (simp_all add: start_state_def start_conf_def pending_def my_stats_def)

lemma demo_nic_sel [simp]: "received demo_nic = []" "sent demo_nic = []"
  by (simp_all add: demo_nic_def)

section \<open>Every device, every engine\<close>

text \<open>Runs of the loop, for any device that keeps the contract.\<close>

lemma bridge_main_loop_run:
  assumes "nic_contract ops rx_log tx_log" "engine_safe I P engine" "I (eng s)" "delivers P ops" "bridge_wf s"
  obtains s' r ds where "bridge_main_loop ops pm nb lc engine n s = Some s'" "bridge_wf s'"
    "engine_run engine (eng s) r = Some (ds, eng s')" "map fst ds = r"
    "flow rx_log tx_log s r ds s'" "list_all P r"
proof -
  obtain s' r ds where run: "bridge_main_loop ops pm nb lc engine n s = Some s'" "bridge_wf s'"
    "engine_run engine (eng s) r = Some (ds, eng s')" and fl: "flow rx_log tx_log s r ds s'" "list_all P r"
    using nic_contract.bridge_main_loop_flow [OF assms(1,5,2-4)] by blast
  show ?thesis
    using run engine_run_packets [OF run(3)] fl by (rule that)
qed

lemma pkt_bytes_mset: "pkt_bytes xs = (\<Sum>m\<in>#mset xs. ucast (data_len m))"
  by (induction xs) simp_all

lemma flow_conservation:
  assumes "flow rx_log tx_log s r ds s'" "map fst ds = r"
  shows "mset (rx_log (nic s')) + mset (pending s) + mset (tx_log (nic s)) + mset (freed s) =
    mset (rx_log (nic s)) + mset (pending s') + mset (tx_log (nic s')) + mset (freed s')"
proof -
  have "mset r = mset (blocked ds) + mset (passed ds)"
    using mset_blocked_passed [of ds] assms(2) by simp
  with assms(1) show ?thesis unfolding flow_def flow_gen_def by (auto simp: ac_simps)
qed

lemma flow_packet_balance:
  assumes "flow rx_log tx_log s r ds s'" "map fst ds = r"
  shows "rx (my_stats s') - tx (my_stats s') - filtered (my_stats s') - dropped (my_stats s')
      - of_nat (length (pending s')) =
    rx (my_stats s) - tx (my_stats s) - filtered (my_stats s) - dropped (my_stats s)
      - of_nat (length (pending s))"
proof -
  obtain snt drp where
    "mset (pending s) + mset (passed ds) = mset snt + mset drp + mset (pending s')"
    and st: "tx (my_stats s') = tx (my_stats s) + of_nat (length snt)"
    "rx (my_stats s') = rx (my_stats s) + of_nat (length r)"
    "filtered (my_stats s') = filtered (my_stats s) + of_nat (length (blocked ds))"
    "dropped (my_stats s') = dropped (my_stats s) + of_nat (length drp)"
    using assms(1) unfolding flow_def flow_gen_def by auto
  then have "length (pending s) + length (passed ds) = length snt + length drp + length (pending s')"
    by (metis size_mset size_union)
  then have p: "of_nat (length (pending s)) + of_nat (length (passed ds)) =
      (of_nat (length snt) + of_nat (length drp) + of_nat (length (pending s')) :: u64)"
    by (metis of_nat_add)
  have "length r = length (blocked ds) + length (passed ds)"
    using mset_blocked_passed [of ds] assms(2) by (metis size_mset size_union)
  with st p show ?thesis by (simp add: algebra_simps)
qed

lemma flow_byte_balance:
  assumes "flow rx_log tx_log s r ds s'" "map fst ds = r"
  shows "rx_b (my_stats s') - filtered_b (my_stats s') - dropped_b (my_stats s')
      - pkt_bytes (tx_log (nic s')) - pkt_bytes (pending s') =
    rx_b (my_stats s) - filtered_b (my_stats s) - dropped_b (my_stats s)
      - pkt_bytes (tx_log (nic s)) - pkt_bytes (pending s)"
proof -
  obtain snt drp where
    m: "mset (pending s) + mset (passed ds) = mset snt + mset drp + mset (pending s')"
    and st: "tx_log (nic s') = tx_log (nic s) @ snt"
    "rx_b (my_stats s') = rx_b (my_stats s) + pkt_bytes (map fst ds)"
    "filtered_b (my_stats s') = filtered_b (my_stats s) + pkt_bytes (blocked ds)"
    "dropped_b (my_stats s') = dropped_b (my_stats s) + pkt_bytes drp"
    using assms(1) unfolding flow_def flow_gen_def by auto
  have p: "pkt_bytes (pending s) + pkt_bytes (passed ds) =
      pkt_bytes snt + pkt_bytes drp + pkt_bytes (pending s')"
    using arg_cong [OF m, of "\<lambda>M. \<Sum>m\<in>#M. ucast (data_len m) :: u64"]
    by (simp add: pkt_bytes_mset)
  have "pkt_bytes (map fst ds) = pkt_bytes (blocked ds) + pkt_bytes (passed ds)"
    using arg_cong [OF mset_blocked_passed [of ds], of "\<lambda>M. \<Sum>m\<in>#M. ucast (data_len m) :: u64"]
    by (simp add: pkt_bytes_mset)
  with st p show ?thesis by (simp add: algebra_simps)
qed

lemma flow_sent_count:
  "flow rx_log tx_log s r ds s' \<Longrightarrow>
     tx (my_stats s') - of_nat (length (tx_log (nic s'))) =
     tx (my_stats s) - of_nat (length (tx_log (nic s)))"
  unfolding flow_def flow_gen_def by (auto simp: algebra_simps)

text \<open>
  C1: No packet is lost or duplicated. Whatever the device does within its contract and
  whatever the engine decides, any number of rounds of the forwarding loop ends in a
  well-formed state, and the packets taken from the receive queue together with those that
  waited at the start are exactly those handed to the transmit queue, those given back to the
  pool (filtered or refused by the device) and those that still wait.
\<close>

theorem packet_conservation:
  assumes "nic_contract ops rx_log tx_log" "engine_safe I P engine" "I (eng s)" "delivers P ops" "bridge_wf s"
  shows "\<exists>s'. bridge_main_loop ops pm nb lc engine n s = Some s' \<and> bridge_wf s' \<and>
    mset (rx_log (nic s')) + mset (pending s) + mset (tx_log (nic s)) + mset (freed s) =
    mset (rx_log (nic s)) + mset (pending s') + mset (tx_log (nic s')) + mset (freed s')"
  using assms by (rule bridge_main_loop_run) (use flow_conservation in blast)

theorem packet_conservation_witness:
  "\<exists>s'. bridge_main_loop script_ops 3 2 1 l2fwd 5 (start_state demo_nic ()) = Some s' \<and>
     bridge_wf s' \<and>
     mset (received (nic s')) = mset (pending s') + mset (sent (nic s')) + mset (freed s')"
  using packet_conservation [OF script.nic_contract_axioms l2fwd_safe _ delivers_all start_state_wf,
      of 3 2 1 5 demo_nic "()"]
  by simp

text \<open>
  C2: The statistics of a slave are a balanced account. Over any number of rounds the packets
  counted as received, less those counted as sent, filtered and dropped and less those that
  wait, do not change (the counters are 64-bit words); the same holds for the bytes, where
  the sent bytes are those of the packets handed to the device.
\<close>

theorem statistics_balance:
  assumes "nic_contract ops rx_log tx_log" "engine_safe I P engine" "I (eng s)" "delivers P ops" "bridge_wf s"
  shows "\<exists>s'. bridge_main_loop ops pm nb lc engine n s = Some s' \<and>
    rx (my_stats s') - tx (my_stats s') - filtered (my_stats s') - dropped (my_stats s')
      - of_nat (length (pending s')) =
    rx (my_stats s) - tx (my_stats s) - filtered (my_stats s) - dropped (my_stats s)
      - of_nat (length (pending s)) \<and>
    rx_b (my_stats s') - filtered_b (my_stats s') - dropped_b (my_stats s')
      - pkt_bytes (tx_log (nic s')) - pkt_bytes (pending s') =
    rx_b (my_stats s) - filtered_b (my_stats s) - dropped_b (my_stats s)
      - pkt_bytes (tx_log (nic s)) - pkt_bytes (pending s) \<and>
    tx (my_stats s') - of_nat (length (tx_log (nic s'))) =
    tx (my_stats s) - of_nat (length (tx_log (nic s)))"
  using assms
  by (rule bridge_main_loop_run)
    (use flow_packet_balance flow_byte_balance flow_sent_count in blast)

theorem statistics_balance_witness:
  "\<exists>s'. bridge_main_loop script_ops 3 2 1 l2fwd 5 (start_state demo_nic ()) = Some s' \<and>
     rx (my_stats s') = tx (my_stats s') + filtered (my_stats s') + dropped (my_stats s')
       + of_nat (length (pending s'))"
  using statistics_balance [OF script.nic_contract_axioms l2fwd_safe _ delivers_all start_state_wf,
      of 3 2 1 5 demo_nic "()"]
  by (auto simp: zero_stats_def algebra_simps)

text \<open>
  C3: Only packets the engine let through are transmitted, and in the order of arrival. The
  engine is run once on every received packet, in order; what the loop hands to the device,
  followed by what waits, is a subsequence of what waited followed by the packets that
  passed, and every packet the engine blocked is given back to the pool.
\<close>

theorem filtered_and_in_order:
  assumes "nic_contract ops rx_log tx_log" "engine_safe I P engine" "I (eng s)" "delivers P ops" "bridge_wf s"
  shows "\<exists>s' r ds snt frd. bridge_main_loop ops pm nb lc engine n s = Some s' \<and>
    rx_log (nic s') = rx_log (nic s) @ r \<and> engine_run engine (eng s) r = Some (ds, eng s') \<and>
    tx_log (nic s') = tx_log (nic s) @ snt \<and>
    subseq (snt @ pending s') (pending s @ passed ds) \<and>
    freed s' = freed s @ frd \<and> mset (blocked ds) \<subseteq># mset frd"
  using assms
proof (rule bridge_main_loop_run)
  fix s' r ds
  assume run: "bridge_main_loop ops pm nb lc engine n s = Some s'"
    "engine_run engine (eng s) r = Some (ds, eng s')" and fl: "flow rx_log tx_log s r ds s'"
  obtain snt frd drp where "rx_log (nic s') = rx_log (nic s) @ r"
    "tx_log (nic s') = tx_log (nic s) @ snt" "freed s' = freed s @ frd"
    "mset frd = mset drp + mset (blocked ds)" "subseq (snt @ pending s') (pending s @ passed ds)"
    using fl unfolding flow_def flow_gen_def by auto
  with run show ?thesis by auto
qed

theorem filtered_and_in_order_witness:
  "\<exists>s' ds frd. bridge_main_loop script_ops 3 2 1 l2fwd 5 (start_state demo_nic ()) = Some s' \<and>
     subseq (sent (nic s') @ pending s') (passed ds) \<and> freed s' = frd \<and>
     mset (blocked ds) \<subseteq># mset frd"
  using filtered_and_in_order [OF script.nic_contract_axioms l2fwd_safe _ delivers_all start_state_wf,
      of 3 2 1 5 demo_nic "()"]
  by auto

text \<open>
  C4: A slave writes only its own entry of the shared statistics array and never changes its
  port and queue configuration, nor the size of the array or the process id in its entry.
\<close>

theorem statistics_frame:
  assumes "nic_contract ops rx_log tx_log" "engine_safe I P engine" "I (eng s)" "delivers P ops" "bridge_wf s"
  shows "\<exists>s'. bridge_main_loop ops pm nb lc engine n s = Some s' \<and>
    length (port_statistics s') = length (port_statistics s) \<and>
    (\<forall>i. i \<noteq> unat (conf_id (slave_conf s)) \<longrightarrow> port_statistics s' ! i = port_statistics s ! i) \<and>
    pid (my_stats s') = pid (my_stats s) \<and> same_conf (slave_conf s) (slave_conf s')"
  using assms
proof (rule bridge_main_loop_run)
  fix s' r ds
  assume run: "bridge_main_loop ops pm nb lc engine n s = Some s'"
    and fl: "flow rx_log tx_log s r ds s'"
  from fl have "length (port_statistics s') = length (port_statistics s) \<and>
    (\<forall>i. i \<noteq> unat (conf_id (slave_conf s)) \<longrightarrow> port_statistics s' ! i = port_statistics s ! i) \<and>
    pid (my_stats s') = pid (my_stats s) \<and> same_conf (slave_conf s) (slave_conf s')"
    unfolding flow_def flow_gen_def by auto
  with run show ?thesis by simp
qed

theorem statistics_frame_witness:
  "\<exists>s'. bridge_main_loop script_ops 3 2 1 l2fwd 5 (start_state demo_nic ()) = Some s' \<and>
     port_statistics s' ! 0 = zero_stats \<and> port_statistics s' ! 2 = zero_stats"
proof -
  obtain s' where "bridge_main_loop script_ops 3 2 1 l2fwd 5 (start_state demo_nic ()) = Some s'"
    and other: "\<forall>i. i \<noteq> 1 \<longrightarrow> port_statistics s' ! i = [zero_stats, zero_stats, zero_stats] ! i"
    using statistics_frame [OF script.nic_contract_axioms l2fwd_safe _ delivers_all start_state_wf,
        of 3 2 1 5 demo_nic "()"]
    by auto
  moreover have "port_statistics s' ! 0 = zero_stats" "port_statistics s' ! 2 = zero_stats"
    using other [rule_format, of 0] other [rule_format, of 2] by simp_all
  ultimately show ?thesis by blast
qed

section \<open>The simple engines\<close>

text \<open>
  With the engine \<open>l2fwd\<close> the loop is a plain bridge: nothing is counted as filtered, and
  the packets sent, those that wait and those the device refused are all the packets received.
\<close>

lemma l2fwd_forwards_all:
  assumes "nic_contract ops rx_log tx_log" "bridge_wf s"
  shows "\<exists>s' r snt drp. bridge_main_loop ops pm nb lc l2fwd n s = Some s' \<and>
    rx_log (nic s') = rx_log (nic s) @ r \<and> tx_log (nic s') = tx_log (nic s) @ snt \<and>
    mset (freed s') = mset (freed s) + mset drp \<and>
    filtered (my_stats s') = filtered (my_stats s) \<and>
    dropped (my_stats s') = dropped (my_stats s) + of_nat (length drp) \<and>
    subseq (snt @ pending s') (pending s @ r) \<and>
    mset snt + mset drp + mset (pending s') = mset (pending s) + mset r"
  using assms(1) l2fwd_safe TrueI delivers_all assms(2)
proof (rule bridge_main_loop_run)
  fix s' r ds
  assume run: "bridge_main_loop ops pm nb lc l2fwd n s = Some s'"
    "engine_run l2fwd (eng s) r = Some (ds, eng s')" and fl: "flow rx_log tx_log s r ds s'"
  have ds: "passed ds = r" "blocked ds = []"
    using run(2) by (auto simp: passed_def blocked_def comp_def filter_map)
  obtain snt frd drp where "rx_log (nic s') = rx_log (nic s) @ r"
    "tx_log (nic s') = tx_log (nic s) @ snt" "freed s' = freed s @ frd"
    "mset frd = mset drp + mset (blocked ds)" "subseq (snt @ pending s') (pending s @ passed ds)"
    "mset (pending s) + mset (passed ds) = mset snt + mset drp + mset (pending s')"
    "filtered (my_stats s') = filtered (my_stats s) + of_nat (length (blocked ds))"
    "dropped (my_stats s') = dropped (my_stats s) + of_nat (length drp)"
    using fl unfolding flow_def flow_gen_def by auto
  with run(1) show ?thesis unfolding ds by (intro exI [of _ s'] exI [of _ r] exI [of _ snt] exI [of _ drp]) simp
qed

lemma l2fwd_forwards_all_witness:
  "\<exists>s'. bridge_main_loop script_ops 3 2 1 l2fwd 5 (start_state demo_nic ()) = Some s' \<and>
     filtered (my_stats s') = 0"
  using l2fwd_forwards_all [OF script.nic_contract_axioms start_state_wf, of 3 2 1 5 demo_nic "()"]
  by (auto simp: zero_stats_def)

text \<open>
  C5: The engine \<open>modulo\<close> lets one packet in \<open>m\<close> through. After \<open>modulo_init\<close> has read a
  positive decimal number \<open>m\<close> in the range of \<^verbatim>\<open>int\<close>, and as long as the packet counter stays in
  that range too, of any \<open>k\<close> packets exactly \<open>k div m\<close> pass, and the packet
  number \<open>i\<close> (from 1) passes if and only if \<open>m\<close> divides \<open>i\<close>.
\<close>

theorem modulo_passes_one_in_m:
  assumes "0 < m" "int m \<le> INT_MAX" "int (length ms) \<le> INT_MAX"
  shows "\<exists>e ds e'. modulo_init (show_nat m) \<lparr>modulo = 0, modulo_n = 0\<rparr> = (0, e) \<and>
    engine_run modulo_engine e ms = Some (ds, e') \<and>
    length (passed ds) = length ms div m \<and>
    map snd ds = map (\<lambda>i. \<not> m dvd Suc i) [0..<length ms]"
proof -
  have init: "modulo_init (show_nat m) \<lparr>modulo = 0, modulo_n = 0\<rparr> =
      (0, \<lparr>modulo = int m, modulo_n = 0\<rparr>)"
    using assms(1,2) atoi_show_nat [of m "[]"] by (simp add: modulo_init_def Let_def)
  have run: "engine_run modulo_engine \<lparr>modulo = int m, modulo_n = 0\<rparr> ms =
      Some (every_mth (int m) 0 ms, \<lparr>modulo = int m, modulo_n = int (length ms)\<rparr>)"
    using engine_run_modulo [of "int m" 0 ms] assms by simp
  have "int (length (passed (every_mth (int m) 0 ms))) = int (length ms div m)"
    using length_passed_every_mth [of "int m" 0 ms] assms(1) by (simp add: zdiv_int)
  moreover have "map snd (every_mth (int m) 0 ms) = map (\<lambda>i. \<not> m dvd Suc i) [0..<length ms]"
    using map_snd_every_mth [of m 0 ms] by simp
  ultimately show ?thesis using init run by auto
qed

theorem modulo_passes_one_in_m_witness:
  "\<exists>e ds e'. modulo_init (show_nat 2) \<lparr>modulo = 0, modulo_n = 0\<rparr> = (0, e) \<and>
     engine_run modulo_engine e [demo_pkt 1, demo_pkt 2, demo_pkt 3] = Some (ds, e') \<and>
     length (passed ds) = 1 \<and> map snd ds = [True, False, True]"
  using modulo_passes_one_in_m [of 2 "[demo_pkt 1, demo_pkt 2, demo_pkt 3]"]
  by (simp add: INT_MAX_def upt_rec)

end
