(* ===== verification/Bridge_Optimized.thy ===== *)
theory Bridge_Optimized
  imports Bridge_Properties Ipc
begin

text \<open>
  The forwarding loop of \<^verbatim>\<open>src/bridge_optimized.c\<close>, used with the hash engine: packets are
  decided in groups of four, and the loop polls the slave's ring for commands. The file has its
  own copies of the transmit functions; they are shown to keep the contract \<open>tx_path\<close>, so the
  account of packets of the plain loop holds for this loop too.
\<close>

unbundle bit_operations_syntax

section \<open>Operations\<close>

definition bridge_send_burst_opt ::
  "'nic eth_ops \<Rightarrow> nat \<Rightarrow> ('nic, 'e) bridge_state \<Rightarrow> (int \<times> ('nic, 'e) bridge_state) option" where
  "bridge_send_burst_opt ops pkts_nb s = do {
     ms \<leftarrow> those (take (pkts_nb mod 2 ^ 16) (mbufs (mbuf_tx (slave_conf s))));
     let (return_value, nic') =
       rte_eth_tx_burst ops (nic s) (port_tx (slave_conf s)) (queue_tx (slave_conf s)) ms;
     s \<leftarrow> stat_upd (\<lambda>st. st\<lparr>tx := tx st + of_nat return_value\<rparr>) (s\<lparr>nic := nic'\<rparr>);
     s \<leftarrow> (if return_value < pkts_nb then do {
             s \<leftarrow> stat_upd (\<lambda>st. st\<lparr>dropped := dropped st + of_nat (pkts_nb - return_value)\<rparr>) s;
             send_burst_drop return_value pkts_nb s
           } else Some s);
     Some (0, s)
   }"

definition bridge_add_packet_opt ::
  "'nic eth_ops \<Rightarrow> rte_mbuf \<Rightarrow> ('nic, 'e) bridge_state \<Rightarrow> (int \<times> ('nic, 'e) bridge_state) option" where
  "bridge_add_packet_opt ops mbuf s = do {
     let pkts_nb = tbl_length (mbuf_tx (slave_conf s));
     a \<leftarrow> arr_set (mbufs (mbuf_tx (slave_conf s))) pkts_nb (Some mbuf);
     let s = s\<lparr>slave_conf := (slave_conf s)\<lparr>mbuf_tx := (mbuf_tx (slave_conf s))\<lparr>mbufs := a\<rparr>\<rparr>\<rparr>;
     let pkts_nb = pkts_nb + 1;
     (s, pkts_nb) \<leftarrow> (if pkts_nb = MAX_PKT_BURST then do {
             (_, s) \<leftarrow> bridge_send_burst_opt ops MAX_PKT_BURST s;
             Some (s, 0)
           } else Some (s, pkts_nb));
     Some (0, set_tx_length pkts_nb s)
   }"

definition bridge_drain_opt ::
  "'nic eth_ops \<Rightarrow> ('nic, 'e) bridge_state \<Rightarrow> ('nic, 'e) bridge_state option" where
  "bridge_drain_opt ops s =
     (if tbl_length (mbuf_tx (slave_conf s)) \<noteq> 0 then do {
        (_, s) \<leftarrow> bridge_send_burst_opt ops (tbl_length (mbuf_tx (slave_conf s))) s;
        Some (set_tx_length 0 s)
      } else Some s)"

text \<open>What is done with a packet for which the engine has stored \<open>ret\<close>.\<close>

definition opt_verdict ::
  "'nic eth_ops \<Rightarrow> rte_mbuf \<Rightarrow> int \<Rightarrow> ('nic, 'e) bridge_state \<Rightarrow> ('nic, 'e) bridge_state option" where
  "opt_verdict ops m ret s =
     (if ret > 0 then do {
        s \<leftarrow> stat_upd (\<lambda>st. st\<lparr>filtered := filtered st + 1\<rparr>) s;
        s \<leftarrow> stat_upd (\<lambda>st. st\<lparr>filtered_b := filtered_b st + ucast (data_len m)\<rparr>) s;
        Some (rte_pktmbuf_free m s)
      } else do {
        (_, s) \<leftarrow> bridge_add_packet_opt ops m s;
        Some s
      })"

text \<open>
  The engines read their tables and do not change them: the result stored for one packet, and
  for four.
\<close>

type_synonym engine1 = "rte_mbuf \<Rightarrow> int option"
type_synonym engine4 = "rte_mbuf list \<Rightarrow> int list option"

definition bridge_filter_opt ::
  "'nic eth_ops \<Rightarrow> engine1 \<Rightarrow> rte_mbuf \<Rightarrow> ('nic, 'e) bridge_state \<Rightarrow> ('nic, 'e) bridge_state option" where
  "bridge_filter_opt ops engine m s = do {
     ret \<leftarrow> engine m;
     opt_verdict ops m ret s
   }"

fun verdicts ::
  "'nic eth_ops \<Rightarrow> (rte_mbuf \<times> int) list \<Rightarrow> ('nic, 'e) bridge_state \<Rightarrow> ('nic, 'e) bridge_state option" where
  "verdicts ops [] s = Some s"
| "verdicts ops ((m, ret) # rs) s = do {
     s \<leftarrow> opt_verdict ops m ret s;
     verdicts ops rs s
   }"

definition ipv4_bridge_filter_4pkts ::
  "'nic eth_ops \<Rightarrow> engine4 \<Rightarrow> rte_mbuf list \<Rightarrow> ('nic, 'e) bridge_state \<Rightarrow> ('nic, 'e) bridge_state option" where
  "ipv4_bridge_filter_4pkts ops filter_engine4 m s = do {
     ret \<leftarrow> filter_engine4 m;
     verdicts ops (zip m ret) s
   }"

text \<open>The IPv6 version calls the same engine.\<close>

definition ipv6_bridge_filter_4pkts ::
  "'nic eth_ops \<Rightarrow> engine4 \<Rightarrow> rte_mbuf list \<Rightarrow> ('nic, 'e) bridge_state \<Rightarrow> ('nic, 'e) bridge_state option" where
  "ipv6_bridge_filter_4pkts ops filter_engine4 m s = do {
     ret \<leftarrow> filter_engine4 m;
     verdicts ops (zip m ret) s
   }"

definition PKT_RX_IPV4_HDR :: u32 where "PKT_RX_IPV4_HDR = push_bit 5 1"
definition PKT_RX_IPV6_HDR :: u32 where "PKT_RX_IPV6_HDR = push_bit 7 1"

definition group_flags :: "rte_mbuf \<Rightarrow> rte_mbuf \<Rightarrow> rte_mbuf \<Rightarrow> rte_mbuf \<Rightarrow> u32" where
  "group_flags a b c d = ucast (ol_flags a AND ol_flags b AND ol_flags c AND ol_flags d)"

definition count_rx_b :: "rte_mbuf \<Rightarrow> ('nic, 'e) bridge_state \<Rightarrow> ('nic, 'e) bridge_state option" where
  "count_rx_b m s = stat_upd (\<lambda>st. st\<lparr>rx_b := rx_b st + ucast (data_len m)\<rparr>) s"

text \<open>One group of four packets.\<close>

definition opt_filter_group ::
  "'nic eth_ops \<Rightarrow> engine4 \<Rightarrow> engine1 \<Rightarrow> rte_mbuf \<Rightarrow> rte_mbuf \<Rightarrow> rte_mbuf \<Rightarrow> rte_mbuf \<Rightarrow>
   ('nic, 'e) bridge_state \<Rightarrow> ('nic, 'e) bridge_state option" where
  "opt_filter_group ops engine4 engine a b c d s =
     (if group_flags a b c d AND PKT_RX_IPV4_HDR \<noteq> 0
      then ipv4_bridge_filter_4pkts ops engine4 [a, b, c, d] s
      else if group_flags a b c d AND PKT_RX_IPV6_HDR \<noteq> 0
      then ipv6_bridge_filter_4pkts ops engine4 [a, b, c, d] s
      else do {
        s \<leftarrow> bridge_filter_opt ops engine a s;
        s \<leftarrow> bridge_filter_opt ops engine b s;
        s \<leftarrow> bridge_filter_opt ops engine c s;
        bridge_filter_opt ops engine d s
      })"

definition opt_group ::
  "'nic eth_ops \<Rightarrow> engine4 \<Rightarrow> engine1 \<Rightarrow> rte_mbuf \<Rightarrow> rte_mbuf \<Rightarrow> rte_mbuf \<Rightarrow> rte_mbuf \<Rightarrow>
   ('nic, 'e) bridge_state \<Rightarrow> ('nic, 'e) bridge_state option" where
  "opt_group ops engine4 engine a b c d s = do {
     s \<leftarrow> count_rx_b a s;
     s \<leftarrow> count_rx_b b s;
     s \<leftarrow> count_rx_b c s;
     s \<leftarrow> count_rx_b d s;
     opt_filter_group ops engine4 engine a b c d s
   }"

text \<open>The packets of a burst: groups of four, then the last ones.\<close>

fun opt_tail ::
  "'nic eth_ops \<Rightarrow> engine1 \<Rightarrow> rte_mbuf list \<Rightarrow> ('nic, 'e) bridge_state \<Rightarrow>
   ('nic, 'e) bridge_state option" where
  "opt_tail ops engine [] s = Some s"
| "opt_tail ops engine (m # ms) s = do {
     s \<leftarrow> count_rx_b m s;
     s \<leftarrow> bridge_filter_opt ops engine m s;
     opt_tail ops engine ms s
   }"

fun opt_packets ::
  "'nic eth_ops \<Rightarrow> engine4 \<Rightarrow> engine1 \<Rightarrow> rte_mbuf list \<Rightarrow> ('nic, 'e) bridge_state \<Rightarrow>
   ('nic, 'e) bridge_state option" where
  "opt_packets ops engine4 engine (a # b # c # d # ms) s = do {
     s \<leftarrow> opt_group ops engine4 engine a b c d s;
     opt_packets ops engine4 engine ms s
   }"
| "opt_packets ops engine4 engine ms s = opt_tail ops engine ms s"

text \<open>The poll for a command: the message is sent back, and a \<open>STOP\<close> ends the loop.\<close>

definition opt_poll ::
  "'d dpdk_ops \<Rightarrow> nat \<Rightarrow> 'd sys \<Rightarrow> (bool \<times> 'd sys) option" where
  "opt_poll dops lcore_id g = do {
     (r, m, g) \<leftarrow> get_cmd dops lcore_id \<lparr>cmd = START, msg = []\<rparr> False g;
     if r = 0 then do {
       (_, g) \<leftarrow> send_cmd dops lcore_id m False g;
       Some (cmd m = STOP, g)
     } else Some (False, g)
   }"

text \<open>One round: the result says whether the loop ends.\<close>

definition opt_loop_body ::
  "'nic eth_ops \<Rightarrow> 'd dpdk_ops \<Rightarrow> engine4 \<Rightarrow> engine1 \<Rightarrow> nat \<Rightarrow> u64 \<Rightarrow> u64 \<Rightarrow>
   ('nic, 'e) bridge_state \<Rightarrow> 'd sys \<Rightarrow> (bool \<times> ('nic, 'e) bridge_state \<times> 'd sys) option" where
  "opt_loop_body ops dops engine4 engine lcore_id drain_tsc prev_tsc s g = do {
     let (cur_tsc, nic') = rte_rdtsc ops (nic s);
     let s = s\<lparr>nic := nic'\<rparr>;
     (stop, g) \<leftarrow> opt_poll dops lcore_id g;
     if stop then Some (True, s, g)
     else do {
       let diff_tsc = cur_tsc - prev_tsc;
       s \<leftarrow> (if diff_tsc > drain_tsc then bridge_drain_opt ops s else Some s);
       let (packets_burst, nic') =
         rte_eth_rx_burst ops (nic s) (port_rx (slave_conf s)) (queue_rx (slave_conf s)) MAX_PKT_BURST;
       let s = s\<lparr>nic := nic'\<rparr>;
       if length packets_burst = 0 then Some (False, s, g)
       else do {
         s \<leftarrow> stat_upd (\<lambda>st. st\<lparr>rx := rx st + of_nat (length packets_burst)\<rparr>) s;
         s \<leftarrow> opt_packets ops engine4 engine packets_burst s;
         Some (False, s, g)
       }
     }
   }"

text \<open>At most \<open>n\<close> rounds; \<open>others\<close> is what other processes do to the shared state before a round.\<close>

fun opt_rounds ::
  "'nic eth_ops \<Rightarrow> 'd dpdk_ops \<Rightarrow> ('d sys \<Rightarrow> 'd sys) \<Rightarrow> engine4 \<Rightarrow> engine1 \<Rightarrow> nat \<Rightarrow> nat \<Rightarrow>
   ('nic, 'e) bridge_state \<Rightarrow> 'd sys \<Rightarrow> (bool \<times> ('nic, 'e) bridge_state \<times> 'd sys) option" where
  "opt_rounds ops dops others engine4 engine lcore_id 0 s g = Some (False, s, g)"
| "opt_rounds ops dops others engine4 engine lcore_id (Suc n) s g = do {
     (stop, s, g) \<leftarrow> opt_loop_body ops dops engine4 engine lcore_id (drain_period ops) 0 s (others g);
     if stop then Some (True, s, g)
     else opt_rounds ops dops others engine4 engine lcore_id n s g
   }"

text \<open>The static variables at the start of the loop, with the configuration handed over.\<close>

definition opt_start ::
  "slave_conf_s \<Rightarrow> u32 \<Rightarrow> u8 \<Rightarrow> nat \<Rightarrow> ('nic, 'e) bridge_state \<Rightarrow> ('nic, 'e) bridge_state" where
  "opt_start slave_conf_t port_mask nb_ports lcore_id s =
     s\<lparr>main_enabled_port_mask := port_mask, port_nb := nb_ports, my_core_id := lcore_id,
       slave_conf := (slave_conf s)
         \<lparr>conf_id := conf_id slave_conf_t, port_rx := port_rx slave_conf_t,
          port_tx := port_tx slave_conf_t, queue_rx := queue_rx slave_conf_t,
          queue_tx := queue_tx slave_conf_t\<rparr>\<rparr>"

definition bridge_loop_optimized ::
  "'nic eth_ops \<Rightarrow> 'd dpdk_ops \<Rightarrow> ('d sys \<Rightarrow> 'd sys) \<Rightarrow> engine4 \<Rightarrow> engine1 \<Rightarrow> slave_conf_s \<Rightarrow>
   u32 \<Rightarrow> u8 \<Rightarrow> nat \<Rightarrow> nat \<Rightarrow> ('nic, 'e) bridge_state \<Rightarrow> 'd sys \<Rightarrow>
   (bool \<times> ('nic, 'e) bridge_state \<times> 'd sys) option" where
  "bridge_loop_optimized ops dops others engine4 engine slave_conf_t port_mask nb_ports lcore_id n s g =
     opt_rounds ops dops others engine4 engine lcore_id n
       (opt_start slave_conf_t port_mask nb_ports lcore_id s) g"

section \<open>The transmit table\<close>

lemma bridge_send_burst_opt_eq: "bridge_send_burst_opt = bridge_send_burst"
  by (simp add: fun_eq_iff bridge_send_burst_opt_def bridge_send_burst_def)

lemma bridge_add_packet_opt_eq: "bridge_add_packet_opt = bridge_add_packet"
  by (intro ext) (simp only: bridge_add_packet_opt_def bridge_add_packet_def bridge_send_burst_opt_eq)

lemma bridge_drain_opt_eq: "bridge_drain_opt = bridge_drain"
  by (intro ext) (simp only: bridge_drain_opt_def bridge_drain_def bridge_send_burst_opt_eq)

sublocale nic_contract \<subseteq> optimized:
  tx_path ops rx_log tx_log "bridge_add_packet_opt ops" "bridge_drain_opt ops"
  unfolding bridge_add_packet_opt_eq bridge_drain_opt_eq by (rule plain.tx_path_axioms)

section \<open>The decisions on a burst\<close>

text \<open>Four results for a group whose flags say that all are IPv4 or all IPv6, else one by one.\<close>

definition group_results :: "engine4 \<Rightarrow> engine1 \<Rightarrow> rte_mbuf \<Rightarrow> rte_mbuf \<Rightarrow> rte_mbuf \<Rightarrow> rte_mbuf \<Rightarrow> int list option" where
  "group_results engine4 engine a b c d =
     (if group_flags a b c d AND PKT_RX_IPV4_HDR \<noteq> 0 \<or> group_flags a b c d AND PKT_RX_IPV6_HDR \<noteq> 0
      then engine4 [a, b, c, d] else those (map engine [a, b, c, d]))"

definition decisions :: "rte_mbuf list \<Rightarrow> int list \<Rightarrow> (rte_mbuf \<times> bool) list" where
  "decisions ms rs = zip ms (map (\<lambda>r. r > 0) rs)"

fun decide_singly :: "engine1 \<Rightarrow> rte_mbuf list \<Rightarrow> (rte_mbuf \<times> bool) list option" where
  "decide_singly engine [] = Some []"
| "decide_singly engine (m # ms) = do {
     r \<leftarrow> engine m;
     ds \<leftarrow> decide_singly engine ms;
     Some ((m, r > 0) # ds)
   }"

fun opt_decide :: "engine4 \<Rightarrow> engine1 \<Rightarrow> rte_mbuf list \<Rightarrow> (rte_mbuf \<times> bool) list option" where
  "opt_decide engine4 engine (a # b # c # d # ms) = do {
     rs \<leftarrow> group_results engine4 engine a b c d;
     ds \<leftarrow> opt_decide engine4 engine ms;
     Some (decisions [a, b, c, d] rs @ ds)
   }"
| "opt_decide engine4 engine ms = decide_singly engine ms"

text \<open>
  Engines without undefined behaviour, and engines that agree on one packet and on four, on the
  packets that satisfy \<open>P\<close>.
\<close>

definition engines_total :: "(rte_mbuf \<Rightarrow> bool) \<Rightarrow> engine4 \<Rightarrow> engine1 \<Rightarrow> bool" where
  "engines_total P engine4 engine \<longleftrightarrow>
     (\<forall>m. P m \<longrightarrow> engine m \<noteq> None) \<and>
     (\<forall>ms. length ms = 4 \<and> list_all P ms \<longrightarrow> (\<exists>rs. engine4 ms = Some rs \<and> length rs = 4))"

definition engines_agree :: "(rte_mbuf \<Rightarrow> bool) \<Rightarrow> engine4 \<Rightarrow> engine1 \<Rightarrow> bool" where
  "engines_agree P engine4 engine \<longleftrightarrow>
     (\<forall>a b c d. list_all P [a, b, c, d] \<longrightarrow> engine4 [a, b, c, d] = those (map engine [a, b, c, d]))"

lemma those_length: "those xs = Some ys \<Longrightarrow> length ys = length xs"
  by (induction xs arbitrary: ys) (auto split: option.splits)

lemma those_total:
  "list_all (\<lambda>m. engine m \<noteq> None) ms \<Longrightarrow> \<exists>rs. those (map engine ms) = Some rs"
  by (induction ms) auto

lemma engines_total_list:
  "engines_total P engine4 engine \<Longrightarrow> list_all P ms \<Longrightarrow> list_all (\<lambda>m. engine m \<noteq> None) ms"
  by (auto simp: engines_total_def list_all_iff)

lemma group_results_total:
  assumes "engines_total P engine4 engine" "list_all P [a, b, c, d]"
  obtains rs where "group_results engine4 engine a b c d = Some rs" "length rs = 4"
proof -
  have "\<exists>rs. engine4 [a, b, c, d] = Some rs \<and> length rs = 4"
    using assms by (simp add: engines_total_def)
  moreover have "\<exists>rs. those (map engine [a, b, c, d]) = Some rs \<and> length rs = 4"
  proof -
    obtain rs where rs: "those (map engine [a, b, c, d]) = Some rs"
      using those_total [OF engines_total_list [OF assms]] by blast
    with those_length [OF rs] show ?thesis by simp
  qed
  ultimately show ?thesis using that unfolding group_results_def by metis
qed

lemma map_fst_decisions: "length rs = length ms \<Longrightarrow> map fst (decisions ms rs) = ms"
  by (simp add: decisions_def)

text \<open>The four packets of a group without common flags: the results of the engine one by one.\<close>

lemma verdicts_abs:
  "verdicts ops [] = Some"
  "verdicts ops ((m, r) # rs) = (\<lambda>s. opt_verdict ops m r s \<bind> verdicts ops rs)"
  by (simp_all add: fun_eq_iff)

lemma verdicts_singly:
  assumes "those (map engine [a, b, c, d]) = Some rs"
  shows "do {
      s \<leftarrow> bridge_filter_opt ops engine a s;
      s \<leftarrow> bridge_filter_opt ops engine b s;
      s \<leftarrow> bridge_filter_opt ops engine c s;
      bridge_filter_opt ops engine d s } = verdicts ops (zip [a, b, c, d] rs) s"
  using assms
  by (auto simp: bridge_filter_opt_def verdicts_abs simp del: verdicts.simps split: option.splits)

section \<open>The account of packets\<close>

context nic_contract
begin

lemma opt_verdict_flow:
  assumes "bridge_wf s"
  shows "\<exists>s'. opt_verdict ops m r s = Some s' \<and> bridge_wf s' \<and>
    flow_gen rx_log tx_log s [] 0 [(m, r > 0)] s' \<and> eng s' = eng s"
proof (cases "r > 0")
  case True
  let ?s = "put_stats ((my_stats s)
        \<lparr>filtered := filtered (my_stats s) + 1,
         filtered_b := filtered_b (my_stats s) + ucast (data_len m)\<rparr>)
      (s\<lparr>freed := freed s @ [m]\<rparr>)"
  have "opt_verdict ops m r s = Some ?s"
    using assms True by (simp add: opt_verdict_def rte_pktmbuf_free_def)
  then show ?thesis using flow_gen_block [of s rx_log tx_log m] assms True by simp
next
  case False
  obtain s' where s': "bridge_add_packet_opt ops m s = Some (0, s')" "bridge_wf s'"
    "tx_step rx_log tx_log s [m] s'"
    using optimized.add_packet_step [OF assms] by blast
  have "eng s' = eng s" using s'(3) by (auto simp: tx_step_def)
  then show ?thesis using s' flow_gen_pass [OF s'(3)] False by (simp add: opt_verdict_def)
qed

lemma verdicts_flow:
  assumes "bridge_wf s" "length rs = length ms"
  shows "\<exists>s'. verdicts ops (zip ms rs) s = Some s' \<and> bridge_wf s' \<and>
    flow_gen rx_log tx_log s [] 0 (decisions ms rs) s' \<and> eng s' = eng s"
  using assms
proof (induction ms arbitrary: rs s)
  case Nil
  then show ?case using flow_refl by (simp add: decisions_def flow_def)
next
  case (Cons m ms)
  then obtain r rs' where rs: "rs = r # rs'" "length rs' = length ms" by (cases rs) auto
  obtain s1 where s1: "opt_verdict ops m r s = Some s1" "bridge_wf s1"
    "flow_gen rx_log tx_log s [] 0 [(m, r > 0)] s1" "eng s1 = eng s"
    using opt_verdict_flow [OF Cons.prems(1)] by blast
  obtain s' where s': "verdicts ops (zip ms rs') s1 = Some s'" "bridge_wf s'"
    "flow_gen rx_log tx_log s1 [] 0 (decisions ms rs') s'" "eng s' = eng s1"
    using Cons.IH [OF s1(2) rs(2)] by blast
  show ?case
    using s1(1,4) s'(1,2,4) flow_gen_trans [OF s1(3) s'(3)] rs(1) by (simp add: decisions_def)
qed

lemma count_rx_b_flow:
  assumes "bridge_wf s"
  obtains s' where "count_rx_b m s = Some s'" "bridge_wf s'"
    "flow_gen rx_log tx_log s [] (ucast (data_len m)) [] s'" "eng s' = eng s"
proof -
  let ?s = "put_stats ((my_stats s)\<lparr>rx_b := rx_b (my_stats s) + ucast (data_len m)\<rparr>) s"
  have "count_rx_b m s = Some ?s" using assms by (simp add: count_rx_b_def)
  then show ?thesis
    by (rule that) (use assms flow_gen_bytes [of s rx_log tx_log "ucast (data_len m)"] in simp_all)
qed

lemma opt_filter_group_flow:
  assumes wf: "bridge_wf s" and res: "group_results engine4 engine a b c d = Some rs" "length rs = 4"
  shows "\<exists>s'. opt_filter_group ops engine4 engine a b c d s = Some s' \<and> bridge_wf s' \<and>
    flow_gen rx_log tx_log s [] 0 (decisions [a, b, c, d] rs) s' \<and> eng s' = eng s"
proof -
  have "opt_filter_group ops engine4 engine a b c d s = verdicts ops (zip [a, b, c, d] rs) s"
  proof (cases "group_flags a b c d AND PKT_RX_IPV4_HDR \<noteq> 0 \<or> group_flags a b c d AND PKT_RX_IPV6_HDR \<noteq> 0")
    case True
    then have "engine4 [a, b, c, d] = Some rs" using res(1) by (simp add: group_results_def)
    then show ?thesis
      using True by (auto simp: opt_filter_group_def ipv4_bridge_filter_4pkts_def ipv6_bridge_filter_4pkts_def)
  next
    case False
    then have those: "those (map engine [a, b, c, d]) = Some rs"
      using res(1) unfolding group_results_def by simp
    show ?thesis
      using False verdicts_singly [OF those, of ops s] unfolding opt_filter_group_def by simp
  qed
  then show ?thesis using verdicts_flow [OF wf, of rs "[a, b, c, d]"] res(2) by simp
qed

lemma opt_group_flow:
  assumes wf: "bridge_wf s" and res: "group_results engine4 engine a b c d = Some rs" "length rs = 4"
  shows "\<exists>s'. opt_group ops engine4 engine a b c d s = Some s' \<and> bridge_wf s' \<and>
    flow rx_log tx_log s [] (decisions [a, b, c, d] rs) s' \<and> eng s' = eng s"
proof -
  obtain s1 where s1: "count_rx_b a s = Some s1" "bridge_wf s1"
    "flow_gen rx_log tx_log s [] (ucast (data_len a)) [] s1" "eng s1 = eng s"
    using wf by (rule count_rx_b_flow)
  obtain s2 where s2: "count_rx_b b s1 = Some s2" "bridge_wf s2"
    "flow_gen rx_log tx_log s1 [] (ucast (data_len b)) [] s2" "eng s2 = eng s1"
    using s1(2) by (rule count_rx_b_flow)
  obtain s3 where s3: "count_rx_b c s2 = Some s3" "bridge_wf s3"
    "flow_gen rx_log tx_log s2 [] (ucast (data_len c)) [] s3" "eng s3 = eng s2"
    using s2(2) by (rule count_rx_b_flow)
  obtain s4 where s4: "count_rx_b d s3 = Some s4" "bridge_wf s4"
    "flow_gen rx_log tx_log s3 [] (ucast (data_len d)) [] s4" "eng s4 = eng s3"
    using s3(2) by (rule count_rx_b_flow)
  obtain s5 where s5: "opt_filter_group ops engine4 engine a b c d s4 = Some s5" "bridge_wf s5"
    "flow_gen rx_log tx_log s4 [] 0 (decisions [a, b, c, d] rs) s5" "eng s5 = eng s4"
    using opt_filter_group_flow [OF s4(2) res] by blast
  have "map fst (decisions [a, b, c, d] rs) = [a, b, c, d]"
    using res(2) by (intro map_fst_decisions) simp
  then have "flow rx_log tx_log s [] (decisions [a, b, c, d] rs) s5"
    using flow_gen_trans [OF s1(3) flow_gen_trans [OF s2(3) flow_gen_trans [OF s3(3)
          flow_gen_trans [OF s4(3) s5(3)]]]]
    by (simp add: flow_def)
  then show ?thesis
    using s1(1,4) s2(1,4) s3(1,4) s4(1,4) s5(1,2,4) by (simp add: opt_group_def)
qed

lemma opt_tail_flow:
  assumes "bridge_wf s" "engines_total P engine4 engine" "list_all P ms"
  shows "\<exists>s' ds. opt_tail ops engine ms s = Some s' \<and> bridge_wf s' \<and>
    decide_singly engine ms = Some ds \<and> map fst ds = ms \<and> flow rx_log tx_log s [] ds s' \<and> eng s' = eng s"
  using assms(1,3)
proof (induction ms arbitrary: s)
  case Nil
  then show ?case using flow_refl by auto
next
  case (Cons m ms)
  obtain s1 where s1: "count_rx_b m s = Some s1" "bridge_wf s1"
    "flow_gen rx_log tx_log s [] (ucast (data_len m)) [] s1" "eng s1 = eng s"
    using Cons.prems(1) by (rule count_rx_b_flow)
  obtain r where r: "engine m = Some r" using assms(2) Cons.prems(2) by (auto simp: engines_total_def)
  obtain s2 where s2: "opt_verdict ops m r s1 = Some s2" "bridge_wf s2"
    "flow_gen rx_log tx_log s1 [] 0 [(m, r > 0)] s2" "eng s2 = eng s1"
    using opt_verdict_flow [OF s1(2)] by blast
  have fl: "flow rx_log tx_log s [] [(m, r > 0)] s2"
    using flow_gen_trans [OF s1(3) s2(3)] by (simp add: flow_def)
  obtain s' ds where s': "opt_tail ops engine ms s2 = Some s'" "bridge_wf s'"
    "decide_singly engine ms = Some ds" "map fst ds = ms" "flow rx_log tx_log s2 [] ds s'" "eng s' = eng s2"
    using Cons.IH [OF s2(2)] Cons.prems(2) by auto
  have "opt_tail ops engine (m # ms) s = Some s'"
    using s1(1) r s2(1) s'(1) by (simp add: bridge_filter_opt_def)
  moreover have "decide_singly engine (m # ms) = Some ((m, r > 0) # ds)" using r s'(3) by simp
  moreover have "map fst ((m, r > 0) # ds) = m # ms" using s'(4) by simp
  moreover have "flow rx_log tx_log s [] ((m, r > 0) # ds) s'" using flow_trans [OF fl s'(5)] by simp
  moreover have "eng s' = eng s" using s'(6) s2(4) s1(4) by simp
  ultimately show ?case
    using s'(2) by (intro exI [of _ s'] exI [of _ "(m, r > 0) # ds"] conjI)
qed

lemma opt_packets_flow:
  assumes "bridge_wf s" "engines_total P engine4 engine" "list_all P ms"
  shows "\<exists>s' ds. opt_packets ops engine4 engine ms s = Some s' \<and> bridge_wf s' \<and>
    opt_decide engine4 engine ms = Some ds \<and> map fst ds = ms \<and>
    flow rx_log tx_log s [] ds s' \<and> eng s' = eng s"
  using assms
proof (induction engine4 engine ms arbitrary: s rule: opt_decide.induct)
  case (1 engine4 engine a b c d ms)
  obtain rs where rs: "group_results engine4 engine a b c d = Some rs" "length rs = 4"
    by (rule group_results_total [OF "1.prems"(2), of a b c d]) (use "1.prems"(3) in simp)
  obtain s1 where s1: "opt_group ops engine4 engine a b c d s = Some s1" "bridge_wf s1"
    "flow rx_log tx_log s [] (decisions [a, b, c, d] rs) s1" "eng s1 = eng s"
    using opt_group_flow [OF "1.prems"(1) rs] by blast
  obtain s' ds where s': "opt_packets ops engine4 engine ms s1 = Some s'" "bridge_wf s'"
    "opt_decide engine4 engine ms = Some ds" "map fst ds = ms" "flow rx_log tx_log s1 [] ds s'"
    "eng s' = eng s1"
    using "1.IH" [OF rs(1) s1(2) "1.prems"(2)] "1.prems"(3) by auto
  have "opt_packets ops engine4 engine (a # b # c # d # ms) s = Some s'"
    using s1(1) s'(1) by simp
  moreover have "opt_decide engine4 engine (a # b # c # d # ms) =
      Some (decisions [a, b, c, d] rs @ ds)"
    using rs(1) s'(3) by simp
  moreover have "map fst (decisions [a, b, c, d] rs @ ds) = a # b # c # d # ms"
    using map_fst_decisions [of rs "[a, b, c, d]"] rs(2) s'(4) by simp
  moreover have "flow rx_log tx_log s [] (decisions [a, b, c, d] rs @ ds) s'"
    using flow_trans [OF s1(3) s'(5)] by simp
  moreover have "eng s' = eng s" using s'(6) s1(4) by simp
  ultimately show ?case
    using s'(2) by (intro exI [of _ s'] exI [of _ "decisions [a, b, c, d] rs @ ds"] conjI)
qed (unfold opt_packets.simps opt_decide.simps, (erule (2) opt_tail_flow)+)

end

section \<open>Grouping does not change the decisions\<close>

lemma decide_singly_append:
  "decide_singly engine xs = Some ds \<Longrightarrow> decide_singly engine ys = Some ds' \<Longrightarrow>
     decide_singly engine (xs @ ys) = Some (ds @ ds')"
  by (induction xs arbitrary: ds) (auto split: bind_splits)

lemma decide_singly_those:
  "those (map engine ms) = Some rs \<Longrightarrow> decide_singly engine ms = Some (decisions ms rs)"
  by (induction ms arbitrary: rs) (auto simp: decisions_def split: option.splits)

lemma opt_decide_singly:
  assumes "engines_agree P engine4 engine" "engines_total P engine4 engine" "list_all P ms"
  shows "opt_decide engine4 engine ms = decide_singly engine ms"
  using assms
proof (induction engine4 engine ms rule: opt_decide.induct)
  case (1 engine4 engine a b c d ms)
  obtain rs where rs: "those (map engine [a, b, c, d]) = Some rs"
    using those_total [OF engines_total_list [OF "1.prems"(2), of "[a, b, c, d]"]] "1.prems"(3) by auto
  have res: "group_results engine4 engine a b c d = Some rs"
    using rs "1.prems"(1,3) unfolding group_results_def engines_agree_def by simp
  obtain ds where ds: "decide_singly engine ms = Some ds"
    using those_total [OF engines_total_list [OF "1.prems"(2), of ms]] "1.prems"(3) decide_singly_those
    by fastforce
  have "decide_singly engine ([a, b, c, d] @ ms) = Some (decisions [a, b, c, d] rs @ ds)"
    using decide_singly_those [OF rs] ds by (rule decide_singly_append)
  then show ?case using res ds "1.IH" [OF res "1.prems"(1,2)] "1.prems"(3) by simp
qed simp_all

section \<open>Rounds of the loop\<close>

text \<open>What the other processes may do to the shared state between two rounds.\<close>

definition others_ok ::
  "('d \<Rightarrow> msg_ptr multiset) \<Rightarrow> ('d \<Rightarrow> ring_ptr \<Rightarrow> msg_ptr list) \<Rightarrow> ('d sys \<Rightarrow> 'd sys) \<Rightarrow> bool" where
  "others_ok pool que others \<longleftrightarrow>
     (\<forall>g. ipc_ok pool que g \<longrightarrow>
        ipc_ok pool que (others g) \<and> lcore_resource (others g) = lcore_resource g)"

context ring_contract
begin

lemma opt_poll_spec:
  assumes "ipc_ok pool que g" "valid_slave g i"
  obtains stop g' where "opt_poll ops i g = Some (stop, g')" "ipc_ok pool que g'"
    "lcore_resource g' = lcore_resource g"
proof -
  obtain r m g1 where g1: "get_cmd ops i \<lparr>cmd = START, msg = []\<rparr> False g = Some (r, m, g1)"
    "ipc_frame g g1" "ipc_ok pool que g1"
    using get_cmd_spec [OF assms, of "\<lparr>cmd = START, msg = []\<rparr>" False] by blast
  show ?thesis
  proof (cases "r = 0")
    case True
    have "valid_slave g1 i" using assms(2) valid_slave_frame [OF g1(2)] by simp
    then obtain q g2 where g2: "send_cmd ops i m False g1 = Some (q, g2)" "ipc_frame g1 g2"
      "ipc_ok pool que g2"
      using send_cmd_spec [OF g1(3), of i m False] by blast
    have "opt_poll ops i g = Some (cmd m = STOP, g2)"
      using g1(1) g2(1) True by (simp add: opt_poll_def)
    then show ?thesis
      by (rule that) (use g2(3) ipc_frame_sel [OF g1(2)] ipc_frame_sel [OF g2(2)] in simp_all)
  next
    case False
    then have "opt_poll ops i g = Some (False, g1)" using g1(1) by (simp add: opt_poll_def)
    then show ?thesis by (rule that) (use g1(3) ipc_frame_sel [OF g1(2)] in simp_all)
  qed
qed

end

text \<open>The account of a run of the loop: what came in, what was decided and what became of it.\<close>

definition opt_account ::
  "('nic \<Rightarrow> rte_mbuf list) \<Rightarrow> ('nic \<Rightarrow> rte_mbuf list) \<Rightarrow> (rte_mbuf \<Rightarrow> bool) \<Rightarrow> engine4 \<Rightarrow> engine1 \<Rightarrow>
   ('nic, 'e) bridge_state \<Rightarrow> ('nic, 'e) bridge_state \<Rightarrow> bool" where
  "opt_account rx_log tx_log P engine4 engine s s' \<longleftrightarrow>
     bridge_wf s' \<and> (\<exists>r ds. map fst ds = r \<and> flow rx_log tx_log s r ds s' \<and>
       (engines_agree P engine4 engine \<longrightarrow> decide_singly engine r = Some ds))"

lemma opt_account_refl: "bridge_wf s \<Longrightarrow> opt_account rx_log tx_log P engine4 engine s s"
  unfolding opt_account_def using flow_refl by fastforce

lemma opt_account_trans:
  assumes "opt_account rx_log tx_log P engine4 engine s s1" "opt_account rx_log tx_log P engine4 engine s1 s2"
  shows "opt_account rx_log tx_log P engine4 engine s s2"
proof -
  obtain r ds where a: "map fst ds = r" "flow rx_log tx_log s r ds s1"
    "engines_agree P engine4 engine \<longrightarrow> decide_singly engine r = Some ds"
    using assms(1) unfolding opt_account_def by blast
  obtain r' ds' where b: "map fst ds' = r'" "flow rx_log tx_log s1 r' ds' s2" "bridge_wf s2"
    "engines_agree P engine4 engine \<longrightarrow> decide_singly engine r' = Some ds'"
    using assms(2) unfolding opt_account_def by blast
  have "map fst (ds @ ds') = r @ r'" using a(1) b(1) by simp
  moreover have "engines_agree P engine4 engine \<longrightarrow> decide_singly engine (r @ r') = Some (ds @ ds')"
    using a(3) b(4) decide_singly_append by blast
  ultimately show ?thesis
    unfolding opt_account_def using flow_trans [OF a(2) b(2)] b(3) by blast
qed

context nic_contract
begin

lemma opt_drain_account:
  assumes "bridge_wf s"
  obtains s' where "(if t > d then bridge_drain_opt ops s else Some s) = Some s'"
    "opt_account rx_log tx_log P engine4 engine s s'"
proof (cases "t > d")
  case True
  obtain s' where "bridge_drain_opt ops s = Some s'" "bridge_wf s'" "flow rx_log tx_log s [] [] s'"
    using assms by (rule optimized.drain_flow)
  with True that show ?thesis unfolding opt_account_def by fastforce
next
  case False
  with that opt_account_refl [OF assms] show ?thesis by simp
qed

text \<open>The part of a round after the poll.\<close>

lemma opt_receive_account:
  assumes wf: "bridge_wf s" and total: "engines_total P engine4 engine"
    and del: "delivers P ops"
    and rx: "rte_eth_rx_burst ops (nic s) p q b = (ms, x)" and ne: "ms \<noteq> []"
  shows "\<exists>s'. do {
      s \<leftarrow> stat_upd (\<lambda>st. st\<lparr>rx := rx st + of_nat (length ms)\<rparr>) (s\<lparr>nic := x\<rparr>);
      opt_packets ops engine4 engine ms s } = Some s' \<and>
    opt_account rx_log tx_log P engine4 engine s s'"
proof -
  have P: "list_all P ms" using del rx by (rule delivers_burst)
  let ?s = "put_stats ((my_stats s)\<lparr>rx := rx (my_stats s) + of_nat (length ms)\<rparr>) (s\<lparr>nic := x\<rparr>)"
  have fl: "flow rx_log tx_log s ms [] ?s" using wf rx by (rule optimized.receive_flow)
  have "bridge_wf ?s" using wf by simp
  then obtain s' ds where s': "opt_packets ops engine4 engine ms ?s = Some s'" "bridge_wf s'"
    "opt_decide engine4 engine ms = Some ds" "map fst ds = ms" "flow rx_log tx_log ?s [] ds s'"
    using opt_packets_flow [OF _ total P] by blast
  have "flow rx_log tx_log s ms ds s'" using flow_trans [OF fl s'(5)] by simp
  moreover have "engines_agree P engine4 engine \<longrightarrow> decide_singly engine ms = Some ds"
    using s'(3) opt_decide_singly [OF _ total P] by metis
  ultimately have "opt_account rx_log tx_log P engine4 engine s s'"
    unfolding opt_account_def using s'(2,4) by blast
  then show ?thesis using s'(1) wf by simp
qed

lemma opt_loop_body_account:
  assumes rc: "ring_contract dops pool que" and wf: "bridge_wf s"
    and total: "engines_total P engine4 engine" and del: "delivers P ops" and g: "ipc_ok pool que g" "valid_slave g i"
  shows "\<exists>stop s' g'. opt_loop_body ops dops engine4 engine i d p s g = Some (stop, s', g') \<and>
    opt_account rx_log tx_log P engine4 engine s s' \<and> ipc_ok pool que g' \<and>
    lcore_resource g' = lcore_resource g"
proof -
  obtain t x where tsc: "rte_rdtsc ops (nic s) = (t, x)" by fastforce
  let ?s0 = "s\<lparr>nic := x\<rparr>"
  have "flow rx_log tx_log s [] [] ?s0"
    by (rule flow_tx_step, rule tx_step_nic) (use tsc_frame [OF tsc] in simp_all)
  then have a0: "opt_account rx_log tx_log P engine4 engine s ?s0"
    using wf unfolding opt_account_def by fastforce
  obtain stop g' where poll: "opt_poll dops i g = Some (stop, g')" "ipc_ok pool que g'"
    "lcore_resource g' = lcore_resource g"
    using ring_contract.opt_poll_spec [OF rc g] by blast
  have wf0: "bridge_wf ?s0" using wf by simp
  obtain s1 where s1: "(if t - p > d then bridge_drain_opt ops ?s0 else Some ?s0) = Some s1"
    "opt_account rx_log tx_log P engine4 engine ?s0 s1"
    using wf0 by (rule opt_drain_account)
  have a1: "opt_account rx_log tx_log P engine4 engine s s1" using a0 s1(2) by (rule opt_account_trans)
  then have wf1: "bridge_wf s1" by (simp add: opt_account_def)
  obtain ms y where rx: "rte_eth_rx_burst ops (nic s1) (port_rx (slave_conf s1))
      (queue_rx (slave_conf s1)) MAX_PKT_BURST = (ms, y)"
    by fastforce
  consider "stop" | "\<not> stop" "ms = []" | "\<not> stop" "ms \<noteq> []" by blast
  then obtain s' where "opt_loop_body ops dops engine4 engine i d p s g = Some (stop, s', g')"
    "opt_account rx_log tx_log P engine4 engine s s'"
  proof cases
    case 1
    then have "opt_loop_body ops dops engine4 engine i d p s g = Some (stop, ?s0, g')"
      using tsc poll(1) by (simp add: opt_loop_body_def)
    then show ?thesis using a0 by (rule that)
  next
    case 2
    have "flow rx_log tx_log s1 [] [] (s1\<lparr>nic := y\<rparr>)"
      by (rule flow_tx_step, rule tx_step_nic)
        (use 2 rx_received [OF rx] rx_frame [OF rx] in simp_all)
    then have "opt_account rx_log tx_log P engine4 engine s1 (s1\<lparr>nic := y\<rparr>)"
      using wf1 unfolding opt_account_def by fastforce
    with a1 have a2: "opt_account rx_log tx_log P engine4 engine s (s1\<lparr>nic := y\<rparr>)"
      by (rule opt_account_trans)
    have "opt_loop_body ops dops engine4 engine i d p s g = Some (stop, s1\<lparr>nic := y\<rparr>, g')"
      using tsc poll(1) s1(1) rx 2 by (simp add: opt_loop_body_def Let_def)
    then show ?thesis using a2 by (rule that)
  next
    case 3
    obtain s' where s': "do {
        s \<leftarrow> stat_upd (\<lambda>st. st\<lparr>rx := rx st + of_nat (length ms)\<rparr>) (s1\<lparr>nic := y\<rparr>);
        opt_packets ops engine4 engine ms s } = Some s'"
      "opt_account rx_log tx_log P engine4 engine s1 s'"
      using opt_receive_account [OF wf1 total del rx 3(2)] by blast
    have "opt_loop_body ops dops engine4 engine i d p s g = Some (stop, s', g')"
      using tsc poll(1) s1(1) rx 3 s'(1) wf1 by (simp add: opt_loop_body_def Let_def)
    then show ?thesis using opt_account_trans [OF a1 s'(2)] by (rule that)
  qed
  then show ?thesis using poll(2,3) by blast
qed

lemma opt_rounds_account:
  assumes rc: "ring_contract dops pool que" and total: "engines_total P engine4 engine"
    and del: "delivers P ops" and others: "others_ok pool que others"
    and "bridge_wf s" "ipc_ok pool que g" "valid_slave g i"
  shows "\<exists>stop s' g'. opt_rounds ops dops others engine4 engine i n s g = Some (stop, s', g') \<and>
    opt_account rx_log tx_log P engine4 engine s s' \<and> ipc_ok pool que g'"
  using assms(5-7)
proof (induction n arbitrary: s g)
  case 0
  then have "opt_account rx_log tx_log P engine4 engine s s" by (intro opt_account_refl)
  then show ?case using 0 by auto
next
  case (Suc n)
  have g: "ipc_ok pool que (others g)" "lcore_resource (others g) = lcore_resource g"
    using others Suc.prems(2) by (simp_all add: others_ok_def)
  then have v: "valid_slave (others g) i" using Suc.prems(3) by (simp add: valid_slave_def)
  obtain stop s1 g1 where body: "opt_loop_body ops dops engine4 engine i (drain_period ops) 0 s (others g) =
      Some (stop, s1, g1)" "opt_account rx_log tx_log P engine4 engine s s1" "ipc_ok pool que g1"
    "lcore_resource g1 = lcore_resource (others g)"
    using opt_loop_body_account [OF rc Suc.prems(1) total del g(1) v] by blast
  show ?case
  proof (cases stop)
    case True
    then have "opt_rounds ops dops others engine4 engine i (Suc n) s g = Some (True, s1, g1)"
      using body(1) by simp
    then show ?thesis using body(2,3) by blast
  next
    case False
    have "bridge_wf s1" "valid_slave g1 i"
      using body(2,4) v by (simp_all add: opt_account_def valid_slave_def)
    then obtain stop' s' g' where rest: "opt_rounds ops dops others engine4 engine i n s1 g1 =
        Some (stop', s', g')" "opt_account rx_log tx_log P engine4 engine s1 s'" "ipc_ok pool que g'"
      using Suc.IH body(3) by blast
    have "opt_rounds ops dops others engine4 engine i (Suc n) s g = Some (stop', s', g')"
      using body(1) False rest(1) by simp
    then show ?thesis using opt_account_trans [OF body(2) rest(2)] rest(3) by blast
  qed
qed

end

section \<open>Properties\<close>

text \<open>The engines of the examples: a packet is filtered when its first byte is 1.\<close>

definition demo_engine :: engine1 where
  "demo_engine m = Some (case mtod m of b # _ \<Rightarrow> if b = 1 then 1 else 0 | [] \<Rightarrow> 0)"

definition demo_engine4 :: engine4 where
  "demo_engine4 ms = those (map demo_engine ms)"

lemma demo_engines: "engines_total (\<lambda>_. True) demo_engine4 demo_engine" "engines_agree (\<lambda>_. True) demo_engine4 demo_engine"
proof -
  have "\<exists>rs. those (map demo_engine ms) = Some rs \<and> length rs = length ms" for ms
    using those_total [of demo_engine ms] those_length [of "map demo_engine ms"]
    by (fastforce simp: demo_engine_def list_all_iff)
  then show "engines_total (\<lambda>_. True) demo_engine4 demo_engine"
    unfolding engines_total_def demo_engine4_def by (simp add: demo_engine_def) metis
  show "engines_agree (\<lambda>_. True) demo_engine4 demo_engine"
    by (simp add: engines_agree_def demo_engine4_def)
qed

lemma demo_start: "bridge_wf (opt_start start_conf pm nb lc (start_state x e))"
  by (simp add: bridge_wf_def opt_start_def start_state_def start_conf_def MAX_PKT_BURST_def)

lemma demo_start_sel: "opt_start start_conf 3 2 1 (start_state x e) =
    (start_state x e)\<lparr>main_enabled_port_mask := 3, port_nb := 2, my_core_id := 1\<rparr>"
  by (simp add: opt_start_def start_state_def start_conf_def)

lemma others_ok_id: "others_ok pool que (\<lambda>g. g)"
  by (simp add: others_ok_def)

text \<open>
  C23: The optimised loop loses and duplicates no packet either, and its counters balance. For
  every device, pool and ring that keep the DPDK contracts, engines without undefined behaviour
  on the packets that the device delivers
  and other processes that keep the rings in order, any number of rounds ends, with or without
  a \<open>STOP\<close>, in a well-formed state that accounts for every packet, and the rings and the
  message pool are still in order.
\<close>

theorem optimized_conservation:
  assumes "nic_contract ops rx_log tx_log" "ring_contract dops pool que"
    "engines_total P engine4 engine" "delivers P ops" "others_ok pool que others"
    "bridge_wf (opt_start conf pm nb lc s)" "ipc_ok pool que g" "valid_slave g lc"
  shows "\<exists>stop s' g'.
    bridge_loop_optimized ops dops others engine4 engine conf pm nb lc n s g = Some (stop, s', g') \<and>
    bridge_wf s' \<and> ipc_ok pool que g' \<and>
    mset (rx_log (nic s')) + mset (pending s) + mset (tx_log (nic s)) + mset (freed s) =
      mset (rx_log (nic s)) + mset (pending s') + mset (tx_log (nic s')) + mset (freed s') \<and>
    rx (my_stats s') - tx (my_stats s') - filtered (my_stats s') - dropped (my_stats s')
      - of_nat (length (pending s')) =
    rx (my_stats (opt_start conf pm nb lc s)) - tx (my_stats (opt_start conf pm nb lc s))
      - filtered (my_stats (opt_start conf pm nb lc s)) - dropped (my_stats (opt_start conf pm nb lc s))
      - of_nat (length (pending s))"
proof -
  let ?s = "opt_start conf pm nb lc s"
  obtain stop s' g' where run: "opt_rounds ops dops others engine4 engine lc n ?s g = Some (stop, s', g')"
    "opt_account rx_log tx_log P engine4 engine ?s s'" "ipc_ok pool que g'"
    using nic_contract.opt_rounds_account [OF assms(1-8)] by blast
  obtain r ds where ds: "bridge_wf s'" "map fst ds = r" "flow rx_log tx_log ?s r ds s'"
    using run(2) unfolding opt_account_def by blast
  have same: "pending ?s = pending s" "nic ?s = nic s" "freed ?s = freed s"
    by (simp_all add: opt_start_def pending_def)
  show ?thesis
    using run(1,3) ds(1) flow_conservation [OF ds(3,2)] flow_packet_balance [OF ds(3,2)]
    unfolding bridge_loop_optimized_def same by blast
qed

theorem optimized_conservation_witness:
  "\<exists>stop s' g'. bridge_loop_optimized script_ops list_ops (\<lambda>g. g) demo_engine4 demo_engine
       start_conf 3 2 1 5 (start_state demo_nic ()) demo_ipc = Some (stop, s', g') \<and>
     mset (received (nic s')) = mset (pending s') + mset (sent (nic s')) + mset (freed s')"
  using optimized_conservation [OF script.nic_contract_axioms lists.ring_contract_axioms
      demo_engines(1) delivers_all others_ok_id demo_start [of 3 2 1 demo_nic "()"] demo_ipc_ok, where n = 5]
  by (auto simp: demo_start_sel)

text \<open>The decisions of a whole run, one packet after the other.\<close>

lemma optimized_run:
  assumes "nic_contract ops rx_log tx_log" "ring_contract dops pool que"
    "engines_total P engine4 engine" "delivers P ops" "engines_agree P engine4 engine"
    "others_ok pool que others"
    "bridge_wf (opt_start conf pm nb lc s)" "ipc_ok pool que g" "valid_slave g lc"
  shows "\<exists>stop s' g' r ds snt.
    bridge_loop_optimized ops dops others engine4 engine conf pm nb lc n s g = Some (stop, s', g') \<and>
    rx_log (nic s') = rx_log (nic s) @ r \<and> decide_singly engine r = Some ds \<and>
    tx_log (nic s') = tx_log (nic s) @ snt \<and>
    subseq (snt @ pending s') (pending s @ passed ds)"
proof -
  let ?s = "opt_start conf pm nb lc s"
  obtain stop s' g' where run: "opt_rounds ops dops others engine4 engine lc n ?s g = Some (stop, s', g')"
    "opt_account rx_log tx_log P engine4 engine ?s s'"
    using nic_contract.opt_rounds_account [OF assms(1-4,6-9)] by blast
  obtain r ds where ds: "decide_singly engine r = Some ds" "flow rx_log tx_log ?s r ds s'"
    using run(2) assms(5) unfolding opt_account_def by blast
  obtain snt where "rx_log (nic s') = rx_log (nic ?s) @ r" "tx_log (nic s') = tx_log (nic ?s) @ snt"
    "subseq (snt @ pending s') (pending ?s @ passed ds)"
    using ds(2) unfolding flow_def flow_gen_def by auto
  moreover have "pending ?s = pending s" "nic ?s = nic s" by (simp_all add: opt_start_def pending_def)
  ultimately show ?thesis using run(1) ds(1) unfolding bridge_loop_optimized_def by auto
qed



text \<open>
  C25: A \<open>STOP\<close> message ends the loop at once. If the oldest message in the slave's ring is a
  \<open>STOP\<close> when a round starts, the loop ends in that round, without receiving or sending: the
  packets that wait in the transmit table stay there, neither sent nor given back to the pool.
\<close>

theorem optimized_stop:
  assumes "nic_contract ops rx_log tx_log" "ring_contract dops pool que"
    "ipc_ok pool que (others g)" "valid_slave (others g) lc" "ring_of (others g) lc 0 = Some q"
    "msgs que (others g) q = m # rest" "cmd m = STOP"
  shows "\<exists>x g'. opt_rounds ops dops others engine4 engine lc (Suc n) s g = Some (True, s\<lparr>nic := x\<rparr>, g') \<and>
    rx_log x = rx_log (nic s) \<and> tx_log x = tx_log (nic s) \<and> ipc_ok pool que g'"
proof -
  obtain t x where tsc: "rte_rdtsc ops (nic s) = (t, x)" by fastforce
  have log: "rx_log x = rx_log (nic s)" "tx_log x = tx_log (nic s)"
    using nic_contract.tsc_frame [OF assms(1) tsc] by simp_all
  let ?m0 = "\<lparr>cmd = START, msg = []\<rparr>"
  obtain r m' g1 where get: "get_cmd dops lc ?m0 False (others g) = Some (r, m', g1)"
    "ipc_frame (others g) g1" "ipc_ok pool que g1"
    "r = 0 \<and> channel_received que (others g) (ring_of (others g) lc 0) m' g1 \<or>
     r < 0 \<and> m' = ?m0 \<and> msgs que g1 = msgs que (others g)"
    using ring_contract.get_cmd_spec [OF assms(2-4), of ?m0 False] by auto
  have "r = 0"
    using ring_contract.get_cmd_nonempty [OF assms(2-5), of ?m0] assms(6) get(1) by auto
  then have "m' = m" using get(4) assms(5,6) by (auto simp: channel_received_def)
  have "valid_slave g1 lc" using assms(4) valid_slave_frame [OF get(2)] by simp
  then obtain k g2 where send: "send_cmd dops lc m' False g1 = Some (k, g2)" "ipc_ok pool que g2"
    using ring_contract.send_cmd_spec [OF assms(2) get(3), of lc m' False] by auto
  have "opt_poll dops lc (others g) = Some (True, g2)"
    using get(1) \<open>r = 0\<close> send(1) \<open>m' = m\<close> assms(7) by (simp add: opt_poll_def)
  then have "opt_rounds ops dops others engine4 engine lc (Suc n) s g = Some (True, s\<lparr>nic := x\<rparr>, g2)"
    using tsc by (simp add: opt_loop_body_def)
  then show ?thesis using log send(2) by blast
qed

theorem optimized_stop_witness:
  "\<exists>x g'. opt_rounds script_ops list_ops (\<lambda>g. g\<lparr>msg_mem := (\<lambda>_. \<lparr>cmd = STOP, msg = []\<rparr>)\<rparr>)
       demo_engine4 demo_engine 1 1 (start_state demo_nic ()) demo_ipc =
     Some (True, (start_state demo_nic ())\<lparr>nic := x\<rparr>, g') \<and> sent x = []"
proof -
  let ?g = "demo_ipc\<lparr>msg_mem := (\<lambda>_. \<lparr>cmd = STOP, msg = []\<rparr>)\<rparr>"
  have "ipc_ok list_pool ring_queues ?g" "valid_slave ?g 1" "ring_of ?g 1 0 = Some 0"
    "msgs ring_queues ?g 0 = [\<lparr>cmd = STOP, msg = []\<rparr>]"
    using demo_ipc_ok demo_ipc_ring(1)
    by (simp_all add: ipc_ok_def valid_slave_def ring_of_def msgs_def demo_ipc_def demo_sys_def)
  then show ?thesis
    using optimized_stop [OF script.nic_contract_axioms lists.ring_contract_axioms,
        of "\<lambda>g. g\<lparr>msg_mem := (\<lambda>_. \<lparr>cmd = STOP, msg = []\<rparr>)\<rparr>" demo_ipc 1 0 _ "[]" demo_engine4
        demo_engine 0 "start_state demo_nic ()"]
    by auto
qed

end
