(* ===== verification/Engine_Hash.thy ===== *)
theory Engine_Hash
  imports Hash_Key Bridge_Optimized
begin

text \<open>
  The hash engine (\<^verbatim>\<open>src/engine_hash.c\<close>): the population of the tables, the filter for one and
  for four packets, and the initialisation. The tables are those of the library
  \<^verbatim>\<open>rte_hash\<close>, a record of functions over an abstract state; the locale \<open>hash_contract\<close> is
  their documentation: exact match on keys, with a position that is unique for each key.
\<close>

section \<open>Hash tables\<close>

definition EINVAL :: int where "EINVAL = 22"
definition ENOSPC :: int where "ENOSPC = 28"

record rte_hash_parameters =
  hp_name :: string
  hp_entries :: nat
  hp_key_len :: nat
  hp_hash_func :: "u8 list \<Rightarrow> u32 \<Rightarrow> u32 \<Rightarrow> u32"
  hp_hash_func_init_val :: u32
  hp_socket_id :: nat

text \<open>
  A table is a pointer. \<open>rte_hash_lookup_multi\<close> stores one result per key; \<^term>\<open>None\<close> means
  that it rejects its arguments and stores nothing.
\<close>

type_synonym lookup_struct_t = nat

record 'h hash_ops =
  rte_hash_create :: "'h \<Rightarrow> rte_hash_parameters \<Rightarrow> lookup_struct_t option \<times> 'h"
  rte_hash_add_key :: "'h \<Rightarrow> lookup_struct_t option \<Rightarrow> u8 list \<Rightarrow> int \<times> 'h"
  rte_hash_lookup :: "'h \<Rightarrow> lookup_struct_t option \<Rightarrow> u8 list \<Rightarrow> int"
  rte_hash_lookup_multi :: "'h \<Rightarrow> lookup_struct_t option \<Rightarrow> u8 list list \<Rightarrow> int list option"

locale hash_contract =
  fixes hops :: "'h hash_ops"
    and tab :: "'h \<Rightarrow> lookup_struct_t \<Rightarrow> u8 list \<Rightarrow> nat option"
    and cap :: "'h \<Rightarrow> lookup_struct_t \<Rightarrow> nat"
  assumes create_empty: "rte_hash_create hops h prm = (Some t, h') \<Longrightarrow> tab h' t = Map.empty"
    and create_cap: "rte_hash_create hops h prm = (Some t, h') \<Longrightarrow> cap h' t = hp_entries prm"
    and add_ok: "rte_hash_add_key hops h (Some t) k = (r, h') \<Longrightarrow> 0 \<le> r \<Longrightarrow>
      tab h' t = (tab h t)(k \<mapsto> nat r)"
    and add_unique: "rte_hash_add_key hops h (Some t) k = (r, h') \<Longrightarrow> 0 \<le> r \<Longrightarrow>
      tab h t k' = Some (nat r) \<Longrightarrow> k' = k"
    and add_cap: "rte_hash_add_key hops h (Some t) k = (r, h') \<Longrightarrow>
      cap h' t = cap h t \<and> r < int (cap h t)"
    and add_null: "rte_hash_add_key hops h None k = (r, h') \<Longrightarrow> r = - EINVAL"
    and lookup_exact: "rte_hash_lookup hops h (Some t) k =
      (case tab h t k of Some p \<Rightarrow> int p | None \<Rightarrow> - ENOENT)"
    and multi_exact: "rte_hash_lookup_multi hops h (Some t) ks =
      Some (map (rte_hash_lookup hops h (Some t)) ks)"
    and multi_null: "rte_hash_lookup_multi hops h None ks = None"

section \<open>State\<close>

definition BRIDGE_HASH_ENTRIES :: nat where "BRIDGE_HASH_ENTRIES = 1024 * 1024 * 4"
definition HASH_ENTRY_NUMBER_DEFAULT :: u32 where "HASH_ENTRY_NUMBER_DEFAULT = 4"
definition NB_SOCKETS :: nat where "NB_SOCKETS = 2"
definition CONFIG_MAX_ARGS_LEN :: nat where "CONFIG_MAX_ARGS_LEN = 128"

record ipv4_bridge_route =
  r4_key :: ipv4_5tuple
  r4_if_out :: u8

record ipv6_bridge_route =
  r6_key :: ipv6_5tuple
  r6_if_out :: u8

text \<open>
  The static variables, the pointers to the tables in \<^verbatim>\<open>proc_config\<close>, and the state of the
  hash library. The arrays of output interfaces are functions whose argument is checked.
\<close>

record 'h hash_state =
  ipv4_bridge_lookup_struct :: "lookup_struct_t option list"
  ipv6_bridge_lookup_struct :: "lookup_struct_t option list"
  lookup_struct :: "lookup_struct_t option"
  use_ipv6 :: int
  ipv4_bridge_out_if :: "nat \<Rightarrow> u8"
  ipv6_bridge_out_if :: "nat \<Rightarrow> u8"
  hash_entry_number :: u32
  mask0 :: "u8 list"
  mask1 :: "u8 list"
  mask2 :: "u8 list"
  proc_ipv4_lookup_struct :: "nat \<Rightarrow> lookup_struct_t option"
  proc_ipv6_lookup_struct :: "nat \<Rightarrow> lookup_struct_t option"
  tables :: 'h

section \<open>Population\<close>

definition ipv4_bridge_route_array :: "ipv4_bridge_route list" where
  "ipv4_bridge_route_array =
     [\<lparr>r4_key = \<lparr>t4_ip_dst = IPv4 59 1 1 18, t4_ip_src = IPv4 19 168 2 1, t4_port_dst = 53,
         t4_port_src = 54750, t4_proto = IPPROTO_UDP\<rparr>, r4_if_out = 0\<rparr>,
      \<lparr>r4_key = \<lparr>t4_ip_dst = IPv4 201 0 0 0, t4_ip_src = IPv4 200 20 0 1, t4_port_dst = 102,
         t4_port_src = 12, t4_proto = IPPROTO_TCP\<rparr>, r4_if_out = 0\<rparr>,
      \<lparr>r4_key = \<lparr>t4_ip_dst = IPv4 111 0 0 0, t4_ip_src = IPv4 100 30 0 1, t4_port_dst = 101,
         t4_port_src = 11, t4_proto = IPPROTO_TCP\<rparr>, r4_if_out = 1\<rparr>,
      \<lparr>r4_key = \<lparr>t4_ip_dst = IPv4 211 0 0 0, t4_ip_src = IPv4 200 40 0 1, t4_port_dst = 102,
         t4_port_src = 12, t4_proto = IPPROTO_TCP\<rparr>, r4_if_out = 1\<rparr>]"

definition ipv6_bridge_route_array :: "ipv6_bridge_route list" where
  "ipv6_bridge_route_array =
     [\<lparr>r6_key = \<lparr>t6_ip_dst = [0xfe, 0x80, 0, 0, 0, 0, 0, 0, 0x02, 0x1e, 0x67, 0xff, 0xfe, 0, 0, 0],
         t6_ip_src = [0xfe, 0x80, 0, 0, 0, 0, 0, 0, 0x02, 0x1b, 0x21, 0xff, 0xfe, 0x91, 0x38, 0x05],
         t6_port_dst = 101, t6_port_src = 11, t6_proto = IPPROTO_TCP\<rparr>, r6_if_out = 0\<rparr>,
      \<lparr>r6_key = \<lparr>t6_ip_dst = [0xfe, 0x90, 0, 0, 0, 0, 0, 0, 0x02, 0x1e, 0x67, 0xff, 0xfe, 0, 0, 0],
         t6_ip_src = [0xfe, 0x90, 0, 0, 0, 0, 0, 0, 0x02, 0x1b, 0x21, 0xff, 0xfe, 0x91, 0x38, 0x05],
         t6_port_dst = 102, t6_port_src = 12, t6_proto = IPPROTO_TCP\<rparr>, r6_if_out = 1\<rparr>,
      \<lparr>r6_key = \<lparr>t6_ip_dst = [0xfe, 0xa0, 0, 0, 0, 0, 0, 0, 0x02, 0x1e, 0x67, 0xff, 0xfe, 0, 0, 0],
         t6_ip_src = [0xfe, 0xa0, 0, 0, 0, 0, 0, 0, 0x02, 0x1b, 0x21, 0xff, 0xfe, 0x91, 0x38, 0x05],
         t6_port_dst = 101, t6_port_src = 11, t6_proto = IPPROTO_TCP\<rparr>, r6_if_out = 2\<rparr>,
      \<lparr>r6_key = \<lparr>t6_ip_dst = [0xfe, 0xb0, 0, 0, 0, 0, 0, 0, 0x02, 0x1e, 0x67, 0xff, 0xfe, 0, 0, 0],
         t6_ip_src = [0xfe, 0xb0, 0, 0, 0, 0, 0, 0, 0x02, 0x1b, 0x21, 0xff, 0xfe, 0x91, 0x38, 0x05],
         t6_port_dst = 102, t6_port_src = 12, t6_proto = IPPROTO_TCP\<rparr>, r6_if_out = 3\<rparr>]"

text \<open>
  The bodies of the loops: convert the tuple, add the key, leave the process when that fails,
  store the output interface at the position of the key.
\<close>

definition add_ipv4_flow ::
  "'h hash_ops \<Rightarrow> lookup_struct_t option \<Rightarrow> ipv4_bridge_route \<Rightarrow> 'h hash_state \<Rightarrow>
   (unit proc_outcome \<times> 'h hash_state) option" where
  "add_ipv4_flow hops h entry s =
     (let (ret, t) = rte_hash_add_key hops (tables s) h (xmm4 (convert_ipv4_5tuple (r4_key entry)));
          s = s\<lparr>tables := t\<rparr>
      in if ret < 0 then Some (Exit 1, s)
         else if nat ret < BRIDGE_HASH_ENTRIES
         then Some (Return (), s\<lparr>ipv4_bridge_out_if := (ipv4_bridge_out_if s)(nat ret := r4_if_out entry)\<rparr>)
         else None)"

definition add_ipv6_flow ::
  "'h hash_ops \<Rightarrow> lookup_struct_t option \<Rightarrow> ipv6_bridge_route \<Rightarrow> 'h hash_state \<Rightarrow>
   (unit proc_outcome \<times> 'h hash_state) option" where
  "add_ipv6_flow hops h entry s =
     (let (ret, t) = rte_hash_add_key hops (tables s) h (xmm6 (convert_ipv6_5tuple (r6_key entry)));
          s = s\<lparr>tables := t\<rparr>
      in if ret < 0 then Some (Exit 1, s)
         else if nat ret < BRIDGE_HASH_ENTRIES
         then Some (Return (), s\<lparr>ipv6_bridge_out_if := (ipv6_bridge_out_if s)(nat ret := r6_if_out entry)\<rparr>)
         else None)"

text \<open>A loop that ends early when its body ends the process.\<close>

fun for_each :: "('a \<Rightarrow> 's \<Rightarrow> (unit proc_outcome \<times> 's) option) \<Rightarrow> 'a list \<Rightarrow> 's \<Rightarrow>
   (unit proc_outcome \<times> 's) option" where
  "for_each f [] s = Some (Return (), s)"
| "for_each f (x # xs) s = do {
     (r, s) \<leftarrow> f x s;
     case r of Exit n \<Rightarrow> Some (Exit n, s) | Return _ \<Rightarrow> for_each f xs s
   }"

definition populate_ipv4_few_flow_into_table ::
  "'h hash_ops \<Rightarrow> lookup_struct_t option \<Rightarrow> 'h hash_state \<Rightarrow> (unit proc_outcome \<times> 'h hash_state) option" where
  "populate_ipv4_few_flow_into_table hops h s =
     for_each (add_ipv4_flow hops h) ipv4_bridge_route_array
       (s\<lparr>mask0 := mm_set_epi32 ALL_32_BITS ALL_32_BITS ALL_32_BITS BIT_8_TO_15\<rparr>)"

definition populate_ipv6_few_flow_into_table ::
  "'h hash_ops \<Rightarrow> lookup_struct_t option \<Rightarrow> 'h hash_state \<Rightarrow> (unit proc_outcome \<times> 'h hash_state) option" where
  "populate_ipv6_few_flow_into_table hops h s =
     for_each (add_ipv6_flow hops h) ipv6_bridge_route_array
       (s\<lparr>mask1 := mm_set_epi32 ALL_32_BITS ALL_32_BITS ALL_32_BITS BIT_16_TO_23,
          mask2 := mm_set_epi32 0 0 ALL_32_BITS ALL_32_BITS\<rparr>)"

definition ip_dsts :: "u32 list" where
  "ip_dsts = [IPv4 59 1 1 182, IPv4 59 1 1 97, IPv4 59 1 1 9, IPv4 59 1 1 148, IPv4 59 1 1 154,
     IPv4 59 1 1 122, IPv4 59 1 1 27, IPv4 59 1 1 235, IPv4 59 1 1 91, IPv4 59 1 1 18]"

text \<open>The entry of the inner loop for one address and one port; \<open>nr_flow\<close> is not used.\<close>

definition PORT_VALUE_MAX :: nat where "PORT_VALUE_MAX = 65536"

definition many_ipv4_entry :: "u32 \<Rightarrow> nat \<Rightarrow> ipv4_bridge_route" where
  "many_ipv4_entry ip i =
     (let entry = ipv4_bridge_route_array ! 0
      in entry\<lparr>r4_key := (r4_key entry)\<lparr>t4_ip_dst := IPv4 192 168 2 1, t4_ip_src := ip,
           t4_port_src := 53, t4_port_dst := of_nat i\<rparr>\<rparr>)"

definition populate_ipv4_many_flow_into_table ::
  "'h hash_ops \<Rightarrow> lookup_struct_t option \<Rightarrow> u32 \<Rightarrow> 'h hash_state \<Rightarrow> (unit proc_outcome \<times> 'h hash_state) option" where
  "populate_ipv4_many_flow_into_table hops h nr_flow s =
     for_each (\<lambda>ip. for_each (\<lambda>i. add_ipv4_flow hops h (many_ipv4_entry ip i)) [0..<PORT_VALUE_MAX]) ip_dsts
       (s\<lparr>mask0 := mm_set_epi32 ALL_32_BITS ALL_32_BITS ALL_32_BITS BIT_8_TO_15\<rparr>)"

text \<open>With \<^verbatim>\<open>NUMBER_PORT_USED\<close> 1 the switch always selects the first route.\<close>

definition NUMBER_PORT_USED :: nat where "NUMBER_PORT_USED = 1"
definition BYTE_VALUE_MAX :: nat where "BYTE_VALUE_MAX = 256"

definition many_ipv6_entry :: "nat \<Rightarrow> ipv6_bridge_route" where
  "many_ipv6_entry i =
     (let a = of_nat ((i div NUMBER_PORT_USED) mod BYTE_VALUE_MAX);
          b = of_nat (((i div NUMBER_PORT_USED) div BYTE_VALUE_MAX) mod BYTE_VALUE_MAX);
          c = of_nat ((i div NUMBER_PORT_USED) div (BYTE_VALUE_MAX * BYTE_VALUE_MAX));
          entry = ipv6_bridge_route_array ! (i AND (NUMBER_PORT_USED - 1))
      in entry\<lparr>r6_key := (r6_key entry)\<lparr>t6_ip_dst := (t6_ip_dst (r6_key entry))[13 := c, 14 := b, 15 := a]\<rparr>\<rparr>)"

definition populate_ipv6_many_flow_into_table ::
  "'h hash_ops \<Rightarrow> lookup_struct_t option \<Rightarrow> u32 \<Rightarrow> 'h hash_state \<Rightarrow> (unit proc_outcome \<times> 'h hash_state) option" where
  "populate_ipv6_many_flow_into_table hops h nr_flow s =
     for_each (\<lambda>i. add_ipv6_flow hops h (many_ipv6_entry i)) [0..<unat nr_flow]
       (s\<lparr>mask1 := mm_set_epi32 ALL_32_BITS ALL_32_BITS ALL_32_BITS BIT_16_TO_23,
          mask2 := mm_set_epi32 0 0 ALL_32_BITS ALL_32_BITS\<rparr>)"

section \<open>Filters\<close>

text \<open>
  The result parameters are returned beside the return value; a rejected \<open>lookup_multi\<close> leaves
  them as they were.
\<close>

definition hash_pkt_filter :: "'h hash_ops \<Rightarrow> 'h hash_state \<Rightarrow> rte_mbuf \<Rightarrow> int \<Rightarrow> (int \<times> int) option" where
  "hash_pkt_filter hops s m ret = do {
     key \<leftarrow> ipv4_key (mask0 s) m;
     Some (0, rte_hash_lookup hops (tables s) (lookup_struct s) key)
   }"

definition hash_pkt_filter4 ::
  "'h hash_ops \<Rightarrow> 'h hash_state \<Rightarrow> rte_mbuf list \<Rightarrow> int list \<Rightarrow> (int \<times> int list) option" where
  "hash_pkt_filter4 hops s m ret = do {
     keys \<leftarrow> those (map (\<lambda>i. do { mi \<leftarrow> arr_get m i; ipv4_key (mask0 s) mi }) [0, 1, 2, 3]);
     h \<leftarrow> arr_get (ipv4_bridge_lookup_struct s) 0;
     Some (0, case rte_hash_lookup_multi hops (tables s) h keys of Some rs \<Rightarrow> rs | None \<Rightarrow> ret)
   }"

definition hash_pkt_filter4_ipv6 ::
  "'h hash_ops \<Rightarrow> 'h hash_state \<Rightarrow> rte_mbuf list \<Rightarrow> int list \<Rightarrow> (int \<times> int list) option" where
  "hash_pkt_filter4_ipv6 hops s m ret = do {
     keys \<leftarrow> those (map (\<lambda>i. do { mi \<leftarrow> arr_get m i; get_ipv6_5tuple mi (mask1 s) (mask2 s) }) [0, 1, 2, 3]);
     h \<leftarrow> arr_get (ipv6_bridge_lookup_struct s) 0;
     Some (0, case rte_hash_lookup_multi hops (tables s) h keys of Some rs \<Rightarrow> rs | None \<Rightarrow> ret)
   }"

text \<open>The engines as the optimised loop calls them, with results initialised to 0.\<close>

definition hash_engine1 :: "'h hash_ops \<Rightarrow> 'h hash_state \<Rightarrow> engine1" where
  "hash_engine1 hops s m = map_option snd (hash_pkt_filter hops s m 0)"

definition hash_engine4 :: "'h hash_ops \<Rightarrow> 'h hash_state \<Rightarrow> engine4" where
  "hash_engine4 hops s m = map_option snd (hash_pkt_filter4 hops s m [0, 0, 0, 0])"

section \<open>Initialisation\<close>

definition populate_table ::
  "'h hash_ops \<Rightarrow> nat \<Rightarrow> 'h hash_state \<Rightarrow> (unit proc_outcome \<times> 'h hash_state) option" where
  "populate_table hops socket_id s = do {
     h4 \<leftarrow> arr_get (ipv4_bridge_lookup_struct s) socket_id;
     h6 \<leftarrow> arr_get (ipv6_bridge_lookup_struct s) socket_id;
     if hash_entry_number s \<noteq> HASH_ENTRY_NUMBER_DEFAULT
     then if use_ipv6 s = 0 then populate_ipv4_many_flow_into_table hops h4 (hash_entry_number s) s
          else populate_ipv6_many_flow_into_table hops h6 (hash_entry_number s) s
     else if use_ipv6 s = 0 then populate_ipv4_few_flow_into_table hops h4 s
          else populate_ipv6_few_flow_into_table hops h6 s
   }"

definition hash_params :: "(u32 \<Rightarrow> u32 \<Rightarrow> u32) \<Rightarrow> nat \<Rightarrow> nat \<Rightarrow> rte_hash_parameters" where
  "hash_params crc proc_id socket_id =
     \<lparr>hp_name = take 63 (''ipv4_bridge_hash_'' @ show_nat proc_id), hp_entries = BRIDGE_HASH_ENTRIES,
      hp_key_len = 16, hp_hash_func = ipv4_hash_crc crc, hp_hash_func_init_val = 0,
      hp_socket_id = socket_id\<rparr>"

text \<open>
  A first line without a number leaves \<open>keys_nb\<close> uninitialised, which is undefined behaviour,
  as is a socket beyond the arrays of tables.
\<close>

definition init_hash ::
  "(string \<Rightarrow> string option) \<Rightarrow> (u32 \<Rightarrow> u32 \<Rightarrow> u32) \<Rightarrow> 'h hash_ops \<Rightarrow> string \<Rightarrow> nat \<Rightarrow> nat \<Rightarrow>
   'h hash_state \<Rightarrow> (int proc_outcome \<times> 'h hash_state) option" where
  "init_hash fopen crc hops file_path proc_id socket_id s =
     (case fopen file_path of
        None \<Rightarrow> Some (Return (- 1), s)
      | Some fp \<Rightarrow>
     (case fgets CONFIG_MAX_ARGS_LEN fp of
        None \<Rightarrow> Some (Return (- 1), s)
      | Some (buff, _) \<Rightarrow>
     (case sscanf_lu (c_str buff) of
        (n, keys_nb) \<Rightarrow>
        if n = - 1 then Some (Return (- 1), s)
        else do {
          keys_nb \<leftarrow> keys_nb;
          let s = s\<lparr>hash_entry_number := ucast keys_nb\<rparr>;
          let (t, h) = rte_hash_create hops (tables s) (hash_params crc proc_id socket_id);
          a \<leftarrow> arr_set (ipv4_bridge_lookup_struct s) socket_id t;
          let s = s\<lparr>tables := h, ipv4_bridge_lookup_struct := a\<rparr>;
          if t = None then Some (Exit 1, s)
          else do {
            (r, s) \<leftarrow> populate_table hops socket_id s;
            case r of
              Exit n \<Rightarrow> Some (Exit n, s)
            | Return _ \<Rightarrow> do {
                h4 \<leftarrow> arr_get (ipv4_bridge_lookup_struct s) socket_id;
                h6 \<leftarrow> arr_get (ipv6_bridge_lookup_struct s) socket_id;
                Some (Return 0, s\<lparr>
                  proc_ipv4_lookup_struct := (proc_ipv4_lookup_struct s)(proc_id := h4),
                  proc_ipv6_lookup_struct := (proc_ipv6_lookup_struct s)(proc_id := h6),
                  lookup_struct := h4\<rparr>)
              }
          }
        })))"

section \<open>Facts on loops\<close>

lemma for_each_spec:
  assumes step: "\<And>x s K. x \<in> set xs \<Longrightarrow> I K s \<Longrightarrow>
      \<exists>r s'. f x s = Some (r, s') \<and> (r = Exit 1 \<or> r = Return () \<and> I (K \<union> G x) s')"
    and "I K s"
  shows "\<exists>r s'. for_each f xs s = Some (r, s') \<and>
    (r = Exit 1 \<or> r = Return () \<and> I (K \<union> \<Union> (G ` set xs)) s')"
  using assms
proof (induction xs arbitrary: K s)
  case Nil
  then show ?case by simp
next
  case (Cons x xs)
  then obtain r s1 where s1: "f x s = Some (r, s1)" "r = Exit 1 \<or> r = Return () \<and> I (K \<union> G x) s1"
    by (meson list.set_intros(1))
  show ?case
  proof (cases "r = Exit 1")
    case True
    then show ?thesis using s1(1) by simp
  next
    case False
    then have "r = Return ()" "I (K \<union> G x) s1" using s1(2) by simp_all
    with Cons.IH [of "K \<union> G x" s1] Cons.prems(1) s1(1) show ?thesis by (simp add: Un_assoc)
  qed
qed

section \<open>Facts on tables\<close>

abbreviation key4 :: "ipv4_5tuple \<Rightarrow> u8 list" where
  "key4 t \<equiv> xmm4 (convert_ipv4_5tuple t)"

lemma key4_inject [simp]: "key4 t = key4 t' \<longleftrightarrow> t = t'"
proof
  assume eq: "key4 t = key4 t'"
  have ip: "w = IPv4 (ucast (drop_bit 24 w)) (ucast (drop_bit 16 w)) (ucast (drop_bit 8 w)) (ucast w)" for w
    by (metis IPv4_eq_iff)
  have port: "w = push_bit 8 (ucast (ucast (drop_bit 8 w) :: u8)) OR ucast (ucast w :: u8)" for w :: u16
    by (metis be16_eq_iff)
  show "t = t'"
    using eq unfolding xmm4_convert
    by (cases t, cases t') (simp, metis ip port)
qed simp

text \<open>The flows that the table holds after the initialisation.\<close>

definition few_flows :: "ipv4_5tuple set" where
  "few_flows = set (map r4_key ipv4_bridge_route_array)"

definition many_flows :: "ipv4_5tuple set" where
  "many_flows = {t. t4_ip_dst t = IPv4 192 168 2 1 \<and> t4_ip_src t \<in> set ip_dsts \<and>
     t4_port_src t = 53 \<and> t4_proto t = IPPROTO_UDP}"

lemma r4_key_many: "r4_key (many_ipv4_entry ip i) =
    \<lparr>t4_ip_dst = IPv4 192 168 2 1, t4_ip_src = ip, t4_port_dst = of_nat i, t4_port_src = 53,
     t4_proto = IPPROTO_UDP\<rparr>"
  by (simp add: many_ipv4_entry_def ipv4_bridge_route_array_def)

lemma many_flows_eq:
  "(\<Union>ip\<in>set ip_dsts. \<Union>i\<in>set [0..<PORT_VALUE_MAX]. {r4_key (many_ipv4_entry ip i)}) = many_flows"
  (is "?L = _")
proof (intro set_eqI iffI)
  fix t assume "t \<in> ?L"
  then obtain ip i where "ip \<in> set ip_dsts" "t = r4_key (many_ipv4_entry ip i)" by blast
  then show "t \<in> many_flows" by (simp add: many_flows_def r4_key_many)
next
  fix t assume t: "t \<in> many_flows"
  let ?i = "unat (t4_port_dst t)"
  have "?i < 2 ^ 16" using unsigned_less [of "t4_port_dst t"] by simp
  then have i: "?i \<in> set [0..<PORT_VALUE_MAX]" by (simp add: PORT_VALUE_MAX_def)
  have "t = r4_key (many_ipv4_entry (t4_ip_src t) ?i)"
    using t by (cases t) (simp add: many_flows_def r4_key_many)
  with t i show "t \<in> ?L" unfolding many_flows_def by blast
qed

text \<open>A table with exactly the keys \<open>K\<close>.\<close>

definition holds_keys ::
  "('h \<Rightarrow> lookup_struct_t \<Rightarrow> u8 list \<Rightarrow> nat option) \<Rightarrow> ('h \<Rightarrow> lookup_struct_t \<Rightarrow> nat) \<Rightarrow> 'h \<Rightarrow>
   lookup_struct_t \<Rightarrow> u8 list set \<Rightarrow> bool" where
  "holds_keys tab cap h t K \<longleftrightarrow>
     dom (tab h t) = K \<and> inj_on (tab h t) K \<and> cap h t = BRIDGE_HASH_ENTRIES"

text \<open>Population changes the tables and the output interfaces only.\<close>

definition populate_frame :: "'h hash_state \<Rightarrow> 'h hash_state \<Rightarrow> bool" where
  "populate_frame s s' \<longleftrightarrow>
     s'\<lparr>tables := tables s, ipv4_bridge_out_if := ipv4_bridge_out_if s\<rparr> = s"

lemma populate_frame_sel:
  assumes "populate_frame s s'"
  shows "mask0 s' = mask0 s" "ipv4_bridge_lookup_struct s' = ipv4_bridge_lookup_struct s"
    "ipv6_bridge_lookup_struct s' = ipv6_bridge_lookup_struct s"
  using assms [unfolded populate_frame_def, THEN arg_cong, of mask0]
    assms [unfolded populate_frame_def, THEN arg_cong, of ipv4_bridge_lookup_struct]
    assms [unfolded populate_frame_def, THEN arg_cong, of ipv6_bridge_lookup_struct]
  by simp_all

text \<open>The engine is ready to filter the flows \<open>F\<close> with table \<open>t\<close>.\<close>

definition hash_ready ::
  "('h \<Rightarrow> lookup_struct_t \<Rightarrow> u8 list \<Rightarrow> nat option) \<Rightarrow> ('h \<Rightarrow> lookup_struct_t \<Rightarrow> nat) \<Rightarrow>
   'h hash_state \<Rightarrow> lookup_struct_t \<Rightarrow> ipv4_5tuple set \<Rightarrow> bool" where
  "hash_ready tab cap s t F \<longleftrightarrow>
     mask0 s = ipv4_mask0 \<and> lookup_struct s = Some t \<and> holds_keys tab cap (tables s) t (key4 ` F)"

definition flows_of :: "nat \<Rightarrow> ipv4_5tuple set" where
  "flows_of n = (if of_nat n = HASH_ENTRY_NUMBER_DEFAULT then few_flows else many_flows)"

definition hash_static_wf :: "'h hash_state \<Rightarrow> bool" where
  "hash_static_wf s \<longleftrightarrow> use_ipv6 s = 0 \<and> length (ipv4_bridge_lookup_struct s) = NB_SOCKETS \<and>
     length (ipv6_bridge_lookup_struct s) = NB_SOCKETS"

lemma decide_singly_map:
  assumes "\<And>m. m \<in> set ms \<Longrightarrow> \<exists>r. engine m = Some r \<and> (r > 0 \<longleftrightarrow> Q m)"
  shows "decide_singly engine ms = Some (map (\<lambda>m. (m, Q m)) ms)"
  using assms by (induction ms) fastforce+

lemma decide_singly_defined:
  "decide_singly engine ms = Some ds \<Longrightarrow> m \<in> set ms \<Longrightarrow> engine m \<noteq> None"
  by (induction ms arbitrary: ds) (auto split: bind_splits)

lemma hash_engine1_readable: "hash_engine1 hops s m \<noteq> None \<Longrightarrow> 38 \<le> length (mtod m)"
  using ipv4_key_short [of m "mask0 s"]
  by (auto simp: hash_engine1_def hash_pkt_filter_def split: bind_splits intro: leI)

lemma passed_map: "passed (map (\<lambda>m. (m, Q m)) ms) = filter (\<lambda>m. \<not> Q m) ms"
  by (induction ms) (simp_all add: passed_def)

context hash_contract
begin

lemma holds_keys_add:
  assumes "holds_keys tab cap h t K" "rte_hash_add_key hops h (Some t) k = (r, h')" "0 \<le> r"
  shows "holds_keys tab cap h' t (insert k K)" "nat r < BRIDGE_HASH_ENTRIES"
proof -
  have upd: "tab h' t = (tab h t)(k \<mapsto> nat r)" using add_ok [OF assms(2,3)] .
  have dom: "dom (tab h t) = K" and inj: "inj_on (tab h t) K"
    using assms(1) by (simp_all add: holds_keys_def)
  have "inj_on (tab h' t) (insert k K)"
  proof (rule inj_onI)
    fix x y assume xy: "x \<in> insert k K" "y \<in> insert k K" "tab h' t x = tab h' t y"
    consider "x = k" | "y = k" | "x \<noteq> k" "y \<noteq> k" by blast
    then show "x = y"
    proof cases
      case 1
      then have "y = k \<or> tab h t y = Some (nat r)" using xy(3) by (auto simp: upd split: if_splits)
      then show ?thesis using 1 add_unique [OF assms(2,3)] by blast
    next
      case 2
      then have "x = k \<or> tab h t x = Some (nat r)" using xy(3) by (auto simp: upd split: if_splits)
      then show ?thesis using 2 add_unique [OF assms(2,3)] by blast
    next
      case 3
      then show ?thesis using xy inj by (auto simp: upd inj_on_def)
    qed
  qed
  then show "holds_keys tab cap h' t (insert k K)"
    using assms(1) add_cap [OF assms(2)] by (simp add: holds_keys_def upd dom)
  show "nat r < BRIDGE_HASH_ENTRIES"
    using assms(1,3) add_cap [OF assms(2)] by (simp add: holds_keys_def nat_less_iff)
qed

lemma add_ipv4_flow_spec:
  assumes "holds_keys tab cap (tables s) t K" "populate_frame s0 s"
  shows "\<exists>r s'. add_ipv4_flow hops (Some t) e s = Some (r, s') \<and>
    (r = Exit 1 \<or> r = Return () \<and>
      holds_keys tab cap (tables s') t (K \<union> {key4 (r4_key e)}) \<and> populate_frame s0 s')"
proof -
  obtain r h' where add: "rte_hash_add_key hops (tables s) (Some t) (key4 (r4_key e)) = (r, h')"
    by fastforce
  show ?thesis
  proof (cases "r < 0")
    case True
    then show ?thesis using add by (simp add: add_ipv4_flow_def)
  next
    case False
    then have "0 \<le> r" by simp
    note h = holds_keys_add [OF assms(1) add this]
    show ?thesis
      using add False h assms(2) by (simp add: add_ipv4_flow_def populate_frame_def)
  qed
qed

lemma populate_ipv4_many_spec:
  assumes "holds_keys tab cap (tables s) t {}"
  shows "\<exists>r s'. populate_ipv4_many_flow_into_table hops (Some t) n s = Some (r, s') \<and>
    (r = Exit 1 \<or> r = Return () \<and> holds_keys tab cap (tables s') t (key4 ` many_flows) \<and>
      populate_frame (s\<lparr>mask0 := ipv4_mask0\<rparr>) s')"
proof -
  let ?s = "s\<lparr>mask0 := ipv4_mask0\<rparr>"
  let ?I = "\<lambda>K s'. holds_keys tab cap (tables s') t K \<and> populate_frame ?s s'"
  let ?G = "\<lambda>ip. \<Union>i\<in>set [0..<PORT_VALUE_MAX]. {key4 (r4_key (many_ipv4_entry ip i))}"
  have inner: "\<exists>r s'. for_each (\<lambda>i. add_ipv4_flow hops (Some t) (many_ipv4_entry ip i))
      [0..<PORT_VALUE_MAX] s1 = Some (r, s') \<and> (r = Exit 1 \<or> r = Return () \<and> ?I (K \<union> ?G ip) s')"
    if "?I K s1" for ip K s1
    by (rule for_each_spec [where I = ?I]) (use add_ipv4_flow_spec that in blast)+
  have "?I {} ?s" using assms by (simp add: populate_frame_def)
  then have "\<exists>r s'. for_each (\<lambda>ip. for_each (\<lambda>i. add_ipv4_flow hops (Some t) (many_ipv4_entry ip i))
      [0..<PORT_VALUE_MAX]) ip_dsts ?s = Some (r, s') \<and>
      (r = Exit 1 \<or> r = Return () \<and> ?I ({} \<union> \<Union> (?G ` set ip_dsts)) s')"
    by (rule for_each_spec [where I = ?I and G = ?G, rotated]) (rule inner)
  moreover have "{} \<union> \<Union> (?G ` set ip_dsts) = key4 ` many_flows"
    unfolding many_flows_eq [symmetric] by blast
  ultimately show ?thesis
    by (simp only: populate_ipv4_many_flow_into_table_def ipv4_mask0_def)
qed

lemma populate_ipv4_few_spec:
  assumes "holds_keys tab cap (tables s) t {}"
  shows "\<exists>r s'. populate_ipv4_few_flow_into_table hops (Some t) s = Some (r, s') \<and>
    (r = Exit 1 \<or> r = Return () \<and> holds_keys tab cap (tables s') t (key4 ` few_flows) \<and>
      populate_frame (s\<lparr>mask0 := ipv4_mask0\<rparr>) s')"
proof -
  let ?s = "s\<lparr>mask0 := ipv4_mask0\<rparr>"
  let ?I = "\<lambda>K s'. holds_keys tab cap (tables s') t K \<and> populate_frame ?s s'"
  let ?G = "\<lambda>e. {key4 (r4_key e)}"
  have "?I {} ?s" using assms by (simp add: populate_frame_def)
  then have "\<exists>r s'. for_each (add_ipv4_flow hops (Some t)) ipv4_bridge_route_array ?s = Some (r, s') \<and>
      (r = Exit 1 \<or> r = Return () \<and> ?I ({} \<union> \<Union> (?G ` set ipv4_bridge_route_array)) s')"
    by (rule for_each_spec [where I = ?I and G = ?G, rotated]) (use add_ipv4_flow_spec in blast)
  moreover have "{} \<union> \<Union> (?G ` set ipv4_bridge_route_array) = key4 ` few_flows"
    unfolding few_flows_def by auto
  ultimately show ?thesis
    by (simp only: populate_ipv4_few_flow_into_table_def ipv4_mask0_def)
qed

lemma populate_table_spec:
  assumes "holds_keys tab cap (tables s) t {}" "hash_static_wf s" "k < NB_SOCKETS"
    "ipv4_bridge_lookup_struct s ! k = Some t" "hash_entry_number s = of_nat n"
  shows "\<exists>r s'. populate_table hops k s = Some (r, s') \<and>
    (r = Exit 1 \<or> r = Return () \<and> holds_keys tab cap (tables s') t (key4 ` flows_of n) \<and>
      populate_frame (s\<lparr>mask0 := ipv4_mask0\<rparr>) s')"
  using populate_ipv4_many_spec [OF assms(1), of "of_nat n"] populate_ipv4_few_spec [OF assms(1)] assms
  by (simp add: populate_table_def flows_of_def arr_get_def hash_static_wf_def)

lemma init_hash_spec:
  assumes "fopen path = Some (show_nat n @ CHR 0x0A # rest)" "n < 10 ^ 9"
    "hash_static_wf s" "k < NB_SOCKETS"
  shows "\<exists>r s'. init_hash fopen crc hops path prc k s = Some (r, s') \<and>
    (r = Exit 1 \<or> r = Return 0 \<and> (\<exists>t. hash_ready tab cap s' t (flows_of n) \<and>
      ipv4_bridge_lookup_struct s' = (ipv4_bridge_lookup_struct s)[k := Some t] \<and>
      proc_ipv4_lookup_struct s' prc = Some t))"
proof -
  have line: "fgets CONFIG_MAX_ARGS_LEN (show_nat n @ CHR 0x0A # rest) = Some (show_nat n @ [CHR 0x0A], rest)"
    using assms(2) by (intro fgets_show_nat_line) (simp_all add: CONFIG_MAX_ARGS_LEN_def)
  have num: "sscanf_lu (c_str (show_nat n @ [CHR 0x0A])) = (1, Some (of_nat n))"
    using assms(2) by (intro sscanf_lu_show_nat_line) simp
  let ?s1 = "s\<lparr>hash_entry_number := of_nat n\<rparr>"
  obtain t h where create: "rte_hash_create hops (tables s) (hash_params crc prc k) = (t, h)" by fastforce
  let ?s2 = "?s1\<lparr>tables := h, ipv4_bridge_lookup_struct := (ipv4_bridge_lookup_struct s)[k := t]\<rparr>"
  note run = init_hash_def assms(1) line num create arr_set_def Let_def
  have len: "length (ipv4_bridge_lookup_struct s) = NB_SOCKETS"
    "length (ipv6_bridge_lookup_struct s) = NB_SOCKETS" "use_ipv6 s = 0"
    using assms(3) by (simp_all add: hash_static_wf_def)
  have u: "ucast (of_nat n :: u64) = (of_nat n :: u32)" using assms(2) by (simp add: unsigned_of_nat take_bit_nat_eq_self)
  show ?thesis
  proof (cases t)
    case None
    then show ?thesis using assms(4) by (simp add: run len)
  next
    case (Some p)
    have "holds_keys tab cap (tables ?s2) p {}"
      using create_empty [of "tables s"] create_cap [of "tables s"] create Some
      by (simp add: holds_keys_def hash_params_def)
    moreover have "hash_static_wf ?s2" using len by (simp add: hash_static_wf_def)
    ultimately obtain r s3 where pop: "populate_table hops k ?s2 = Some (r, s3)"
      "r = Exit 1 \<or> r = Return () \<and> holds_keys tab cap (tables s3) p (key4 ` flows_of n) \<and>
        populate_frame (?s2\<lparr>mask0 := ipv4_mask0\<rparr>) s3"
      using populate_table_spec [of ?s2 p k n] assms(4) Some len by auto
    show ?thesis
    proof (cases "r = Exit 1")
      case True
      then show ?thesis using pop(1) Some assms(4) by (simp add: run len u)
    next
      case False
      then have r: "r = Return ()" and h: "holds_keys tab cap (tables s3) p (key4 ` flows_of n)"
        and fr: "populate_frame (?s2\<lparr>mask0 := ipv4_mask0\<rparr>) s3"
        using pop(2) by auto
      have sel: "mask0 s3 = ipv4_mask0"
        "ipv4_bridge_lookup_struct s3 = (ipv4_bridge_lookup_struct s)[k := Some p]"
        "ipv6_bridge_lookup_struct s3 = ipv6_bridge_lookup_struct s"
        using populate_frame_sel [OF fr] Some by simp_all
      show ?thesis
        using pop(1) r h sel Some assms(4)
        by (simp add: run len u arr_get_def hash_ready_def)
    qed
  qed
qed

text \<open>The verdicts of a table that is ready: \<open>z\<close> is the flow at position 0, if there is one.\<close>

definition exempt :: "'h hash_state \<Rightarrow> lookup_struct_t \<Rightarrow> ipv4_5tuple option \<Rightarrow> bool" where
  "exempt s t z \<longleftrightarrow> (\<forall>f. tab (tables s) t (key4 f) = Some 0 \<longleftrightarrow> z = Some f)"

lemma exempt_exists:
  assumes "hash_ready tab cap s t F"
  obtains z where "exempt s t z"
proof (cases "\<exists>f. tab (tables s) t (key4 f) = Some 0")
  case True
  then obtain f where f: "tab (tables s) t (key4 f) = Some 0" by blast
  have inj: "inj_on (tab (tables s) t) (dom (tab (tables s) t))"
    using assms by (simp add: hash_ready_def holds_keys_def)
  have "exempt s t (Some f)"
    unfolding exempt_def
  proof (intro allI iffI)
    fix f' assume "tab (tables s) t (key4 f') = Some 0"
    then have "key4 f' = key4 f" by (intro inj_onD [OF inj]) (use f in auto)
    then show "Some f = Some f'" by simp
  qed (use f in simp)
  then show ?thesis by (rule that)
next
  case False
  then have "exempt s t None" by (simp add: exempt_def)
  then show ?thesis by (rule that)
qed

lemma hash_engine1_verdict:
  assumes "hash_ready tab cap s t F" "exempt s t z" "38 \<le> length (mtod m)"
  shows "\<exists>r. hash_engine1 hops s m = Some r \<and>
    (r > 0 \<longleftrightarrow> packet_5tuple (mtod m) \<in> F \<and> z \<noteq> Some (packet_5tuple (mtod m)))"
proof -
  let ?f = "packet_5tuple (mtod m)"
  have "hash_engine1 hops s m = Some (case tab (tables s) t (key4 ?f) of Some p \<Rightarrow> int p | None \<Rightarrow> - ENOENT)"
    using assms(1) ipv4_key_of_packet [OF assms(3)]
    by (simp add: hash_engine1_def hash_pkt_filter_def hash_ready_def lookup_exact)
  moreover have "key4 ?f \<in> dom (tab (tables s) t) \<longleftrightarrow> ?f \<in> F"
    using assms(1) by (auto simp: hash_ready_def holds_keys_def)
  then have "tab (tables s) t (key4 ?f) = None \<longleftrightarrow> ?f \<notin> F" by auto
  moreover have "tab (tables s) t (key4 ?f) = Some 0 \<longleftrightarrow> z = Some ?f" using assms(2) by (simp add: exempt_def)
  ultimately show ?thesis by (cases "tab (tables s) t (key4 ?f)") (auto simp: ENOENT_def)
qed

lemma hash_engine4_agrees:
  assumes "mask0 s = ipv4_mask0" "ipv4_bridge_lookup_struct s ! 0 = Some t" "lookup_struct s = Some t"
    "0 < length (ipv4_bridge_lookup_struct s)" "list_all (\<lambda>m. 38 \<le> length (mtod m)) [a, b, c, d]"
  shows "hash_engine4 hops s [a, b, c, d] = those (map (hash_engine1 hops s) [a, b, c, d])"
  using assms
  by (simp add: hash_engine4_def hash_engine1_def hash_pkt_filter4_def hash_pkt_filter_def arr_get_def
      multi_exact ipv4_key_of_packet)

lemma hash_engines_ready:
  assumes "hash_ready tab cap s t F" "ipv4_bridge_lookup_struct s ! 0 = Some t"
    "0 < length (ipv4_bridge_lookup_struct s)"
  shows "engines_agree (\<lambda>m. 38 \<le> length (mtod m)) (hash_engine4 hops s) (hash_engine1 hops s)" (is ?agree)
    and "engines_total (\<lambda>m. 38 \<le> length (mtod m)) (hash_engine4 hops s) (hash_engine1 hops s)"
proof -
  show agree: ?agree
    unfolding engines_agree_def using assms hash_engine4_agrees by (auto simp: hash_ready_def)
  obtain z where z: "exempt s t z" using exempt_exists [OF assms(1)] .
  have one: "hash_engine1 hops s m \<noteq> None" if "38 \<le> length (mtod m)" for m
    using hash_engine1_verdict [OF assms(1) z that] by auto
  have "\<exists>rs. hash_engine4 hops s ms = Some rs \<and> length rs = 4"
    if four: "length ms = 4" "list_all (\<lambda>m. 38 \<le> length (mtod m)) ms" for ms
  proof -
    obtain a b c d where ms: "ms = [a, b, c, d]"
      using four(1) by (auto simp: length_Suc_conv numeral_eq_Suc)
    have "list_all (\<lambda>m. hash_engine1 hops s m \<noteq> None) ms" using four(2) one by (simp add: list_all_iff)
    then obtain rs where "those (map (hash_engine1 hops s) ms) = Some rs" using those_total by blast
    moreover from this have "length rs = 4" using those_length four(1) by fastforce
    ultimately show ?thesis using agree four(2) unfolding engines_agree_def ms by auto
  qed
  then show "engines_total (\<lambda>m. 38 \<le> length (mtod m)) (hash_engine4 hops s) (hash_engine1 hops s)"
    unfolding engines_total_def using one by blast
qed

lemma hash_decides:
  assumes "hash_ready tab cap hs t F" "exempt hs t z" "decide_singly (hash_engine1 hops hs) ms = Some ds"
  shows "passed ds = filter (\<lambda>m. packet_5tuple (mtod m) \<notin> F \<or> z = Some (packet_5tuple (mtod m))) ms"
proof -
  let ?Q = "\<lambda>m. packet_5tuple (mtod m) \<in> F \<and> z \<noteq> Some (packet_5tuple (mtod m))"
  have "\<exists>r. hash_engine1 hops hs m = Some r \<and> (r > 0 \<longleftrightarrow> ?Q m)" if "m \<in> set ms" for m
    using hash_engine1_verdict [OF assms(1,2) hash_engine1_readable]
      decide_singly_defined [OF assms(3) that] by blast
  then have "ds = map (\<lambda>m. (m, ?Q m)) ms"
    using assms(3) decide_singly_map [of ms "hash_engine1 hops hs" ?Q] by simp
  then show ?thesis by (simp add: passed_map)
qed

lemma hash_loop:
  assumes "hash_ready tab cap hs t F" "ipv4_bridge_lookup_struct hs ! 0 = Some t"
    "0 < length (ipv4_bridge_lookup_struct hs)"
    "nic_contract ops rx_log tx_log" "delivers (\<lambda>m. 38 \<le> length (mtod m)) ops"
    "ring_contract dops pool que" "others_ok pool que others"
    "bridge_wf (opt_start conf pm nb lc s)" "ipc_ok pool que g" "valid_slave g lc"
  shows "\<exists>z. \<forall>k. \<exists>stop s' g' r snt.
    bridge_loop_optimized ops dops others (hash_engine4 hops hs) (hash_engine1 hops hs) conf pm nb lc k s g
      = Some (stop, s', g') \<and>
    rx_log (nic s') = rx_log (nic s) @ r \<and> tx_log (nic s') = tx_log (nic s) @ snt \<and>
    subseq (snt @ pending s') (pending s @
      filter (\<lambda>m. packet_5tuple (mtod m) \<notin> F \<or> z = Some (packet_5tuple (mtod m))) r)"
proof -
  obtain z where z: "exempt hs t z" using exempt_exists [OF assms(1)] .
  have "\<exists>stop s' g' r snt.
    bridge_loop_optimized ops dops others (hash_engine4 hops hs) (hash_engine1 hops hs) conf pm nb lc k s g
      = Some (stop, s', g') \<and>
    rx_log (nic s') = rx_log (nic s) @ r \<and> tx_log (nic s') = tx_log (nic s) @ snt \<and>
    subseq (snt @ pending s') (pending s @
      filter (\<lambda>m. packet_5tuple (mtod m) \<notin> F \<or> z = Some (packet_5tuple (mtod m))) r)" for k
  proof -
    obtain stop s' g' r ds snt where run: "bridge_loop_optimized ops dops others (hash_engine4 hops hs)
        (hash_engine1 hops hs) conf pm nb lc k s g = Some (stop, s', g')"
      "rx_log (nic s') = rx_log (nic s) @ r" "decide_singly (hash_engine1 hops hs) r = Some ds"
      "tx_log (nic s') = tx_log (nic s) @ snt" "subseq (snt @ pending s') (pending s @ passed ds)"
      using optimized_run [OF assms(4,6) hash_engines_ready(2) [OF assms(1-3)] assms(5)
          hash_engines_ready(1) [OF assms(1-3)] assms(7-10), of k] by blast
    then show ?thesis unfolding hash_decides [OF assms(1) z run(3)] by blast
  qed
  then show ?thesis by blast
qed

end

section \<open>A table as a list of keys\<close>

text \<open>
  An implementation of the contract: the position of a key is its place in the list of the
  table's keys.
\<close>

type_synonym list_tables = "(nat \<times> u8 list list) list"

fun position :: "u8 list \<Rightarrow> u8 list list \<Rightarrow> nat option" where
  "position k [] = None"
| "position k (x # xs) = (if x = k then Some 0 else map_option Suc (position k xs))"

definition list_tab :: "list_tables \<Rightarrow> lookup_struct_t \<Rightarrow> u8 list \<Rightarrow> nat option" where
  "list_tab h t k = (if t < length h then position k (snd (h ! t)) else None)"

definition list_cap :: "list_tables \<Rightarrow> lookup_struct_t \<Rightarrow> nat" where
  "list_cap h t = (if t < length h then fst (h ! t) else 0)"

definition list_add :: "list_tables \<Rightarrow> lookup_struct_t option \<Rightarrow> u8 list \<Rightarrow> int \<times> list_tables" where
  "list_add h t k = (case t of
       None \<Rightarrow> (- EINVAL, h)
     | Some t \<Rightarrow> if t \<ge> length h then (- EINVAL, h)
         else case h ! t of (c, ks) \<Rightarrow>
           (case position k ks of
              Some p \<Rightarrow> if p < c then (int p, h) else (- ENOSPC, h)
            | None \<Rightarrow> if length ks < c then (int (length ks), h[t := (c, ks @ [k])]) else (- ENOSPC, h)))"

definition list_lookup :: "list_tables \<Rightarrow> lookup_struct_t option \<Rightarrow> u8 list \<Rightarrow> int" where
  "list_lookup h t k = (case t of
       None \<Rightarrow> - EINVAL
     | Some t \<Rightarrow> (case list_tab h t k of Some p \<Rightarrow> int p | None \<Rightarrow> - ENOENT))"

definition list_hash_ops :: "list_tables hash_ops" where
  "list_hash_ops = \<lparr>
     rte_hash_create = (\<lambda>h prm. (Some (length h), h @ [(hp_entries prm, [])])),
     rte_hash_add_key = list_add,
     rte_hash_lookup = list_lookup,
     rte_hash_lookup_multi = (\<lambda>h t ks. if t = None then None else Some (map (list_lookup h t) ks))\<rparr>"

lemma position_less: "position k xs = Some p \<Longrightarrow> p < length xs \<and> xs ! p = k"
  by (induction xs arbitrary: p) (auto split: if_splits)

lemma position_snoc:
  "position k (xs @ [y]) =
     (case position k xs of Some p \<Rightarrow> Some p | None \<Rightarrow> if y = k then Some (length xs) else None)"
  by (induction xs) (auto split: option.splits)

lemma list_add_ok:
  assumes "list_add h (Some t) k = (r, h')" "0 \<le> r"
  shows "list_tab h' t = (list_tab h t)(k \<mapsto> nat r)"
    and "list_tab h t k' = Some (nat r) \<Longrightarrow> k' = k"
proof -
  have neg: "\<not> 0 \<le> - EINVAL" "\<not> 0 \<le> - ENOSPC" by (simp_all add: EINVAL_def ENOSPC_def)
  obtain c ks where t: "t < length h" "h ! t = (c, ks)"
    using assms neg by (cases "h ! t") (auto simp: list_add_def split: if_splits)
  have d: "position k ks = Some (nat r) \<and> h' = h \<or>
      position k ks = None \<and> nat r = length ks \<and> h' = h[t := (c, ks @ [k])]"
    using assms neg t by (auto simp: list_add_def split: option.splits if_splits)
  then show "list_tab h' t = (list_tab h t)(k \<mapsto> nat r)"
    by (elim disjE) (use t in \<open>auto simp: list_tab_def position_snoc fun_eq_iff split: option.splits\<close>)
  show "list_tab h t k' = Some (nat r) \<Longrightarrow> k' = k"
    using d by (elim disjE) (use t in \<open>auto simp: list_tab_def dest!: position_less\<close>)
qed

lemma list_add_cap:
  "list_add h (Some t) k = (r, h') \<Longrightarrow> list_cap h' t = list_cap h t \<and> r < int (list_cap h t)"
  by (auto simp: list_add_def list_cap_def EINVAL_def ENOSPC_def split: if_splits prod.splits option.splits)

interpretation list_hash: hash_contract list_hash_ops list_tab list_cap
  by unfold_locales
    (auto simp: list_hash_ops_def list_tab_def list_cap_def list_lookup_def fun_eq_iff nth_append
      dest: list_add_ok list_add_cap, simp_all add: list_add_ok list_add_def)

section \<open>Properties\<close>

definition demo_hash_state :: "list_tables hash_state" where
  "demo_hash_state = \<lparr>ipv4_bridge_lookup_struct = [None, None], ipv6_bridge_lookup_struct = [None, None],
     lookup_struct = None, use_ipv6 = 0, ipv4_bridge_out_if = (\<lambda>_. 0), ipv6_bridge_out_if = (\<lambda>_. 0),
     hash_entry_number = 4, mask0 = replicate 16 0, mask1 = replicate 16 0, mask2 = replicate 16 0,
     proc_ipv4_lookup_struct = (\<lambda>_. None), proc_ipv6_lookup_struct = (\<lambda>_. None), tables = []\<rparr>"

definition demo_fopen :: "string \<Rightarrow> string option" where
  "demo_fopen path = Some (show_nat 4 @ [CHR 0x0A])"

lemma demo_hash_wf: "hash_static_wf demo_hash_state"
  by (simp add: hash_static_wf_def demo_hash_state_def NB_SOCKETS_def)

lemma IPv4_inject: "IPv4 a b c d = IPv4 a' b' c' d' \<longleftrightarrow> a = a' \<and> b = b' \<and> c = c' \<and> d = d'"
  by (metis IPv4_eq_iff)

lemma demo_init_returns:
  assumes "k < NB_SOCKETS"
  shows "\<exists>hs. init_hash demo_fopen crc list_hash_ops path prc k demo_hash_state = Some (Return 0, hs)"
proof -
  have l: "fgets CONFIG_MAX_ARGS_LEN (show_nat 4 @ [CHR 0x0A]) = Some (show_nat 4 @ [CHR 0x0A], [])"
    by (rule fgets_show_nat_line) (simp_all add: CONFIG_MAX_ARGS_LEN_def)
  have n: "sscanf_lu (c_str (show_nat 4 @ [CHR 0x0A])) = (1, Some 4)"
    using sscanf_lu_show_nat_line [of 4] by simp
  have "k = 0 \<or> k = 1" using assms unfolding NB_SOCKETS_def by linarith
  then show ?thesis
    by (elim disjE)
      (simp_all add: l n init_hash_def demo_fopen_def demo_hash_state_def arr_get_def arr_set_def Let_def
        list_hash_ops_def populate_table_def HASH_ENTRY_NUMBER_DEFAULT_def
        populate_ipv4_few_flow_into_table_def ipv4_bridge_route_array_def add_ipv4_flow_def list_add_def
        hash_params_def BRIDGE_HASH_ENTRIES_def IPv4_inject)
qed

text \<open>
  Loading the table. For every hash library that keeps its contract and every file that starts
  with a number, the initialisation ends: with an exit of the process when a table or a key
  cannot be created, and otherwise with a table that holds exactly the flows the number selects,
  four fixed ones for 4 and the 655360 flows of ten servers for any other number, each with a
  position of its own, and with the masks and pointers that the filter uses.
\<close>

lemma init_hash_populates:
  assumes "hash_contract hops tab cap" "fopen path = Some (show_nat n @ CHR 0x0A # rest)" "n < 10 ^ 9"
    "hash_static_wf s" "k < NB_SOCKETS"
  shows "\<exists>r s'. init_hash fopen crc hops path prc k s = Some (r, s') \<and>
    (r = Exit 1 \<or> r = Return 0 \<and> (\<exists>t. lookup_struct s' = Some t \<and> proc_ipv4_lookup_struct s' prc = Some t \<and>
      ipv4_bridge_lookup_struct s' ! k = Some t \<and> mask0 s' = ipv4_mask0 \<and>
      dom (tab (tables s') t) = (\<lambda>f. xmm4 (convert_ipv4_5tuple f)) ` flows_of n \<and>
      inj_on (tab (tables s') t) (dom (tab (tables s') t))))"
proof -
  have "k < length (ipv4_bridge_lookup_struct s)" using assms(4,5) by (simp add: hash_static_wf_def)
  then show ?thesis
    using hash_contract.init_hash_spec [where fopen = fopen and path = path and n = n and rest = rest
        and s = s and k = k and crc = crc and prc = prc, OF assms]
    by (elim exE conjE disjE) (auto simp: hash_ready_def holds_keys_def)
qed

lemma init_hash_populates_witness:
  "\<exists>s' t. init_hash demo_fopen (+) list_hash_ops ''keys'' 0 0 demo_hash_state = Some (Return 0, s') \<and>
     dom (list_tab (tables s') t) = (\<lambda>f. xmm4 (convert_ipv4_5tuple f)) ` few_flows"
proof -
  have f: "demo_fopen ''keys'' = Some (show_nat 4 @ CHR 0x0A # [])" by (simp add: demo_fopen_def)
  have fl: "flows_of 4 = few_flows" by (simp add: flows_of_def HASH_ENTRY_NUMBER_DEFAULT_def)
  obtain hs where "init_hash demo_fopen (+) list_hash_ops ''keys'' 0 0 demo_hash_state = Some (Return 0, hs)"
    using demo_init_returns [of 0 "(+)" "''keys''" 0] unfolding NB_SOCKETS_def by auto
  with init_hash_populates [where fopen = demo_fopen and path = "''keys''" and n = 4 and rest = "[]"
      and s = demo_hash_state and k = 0 and crc = "(+)" and prc = 0,
      OF list_hash.hash_contract_axioms f _ demo_hash_wf]
  show ?thesis by (auto simp: fl NB_SOCKETS_def)
qed


text \<open>A device that does not deliver frames below the minimal length.\<close>

definition runt_free_rx :: "script_nic \<Rightarrow> u8 \<Rightarrow> u8 \<Rightarrow> nat \<Rightarrow> rte_mbuf list \<times> script_nic" where
  "runt_free_rx n p q b =
     (case rx_script n of
        [] \<Rightarrow> ([], n)
      | ms # mss \<Rightarrow>
          let ms = filter (\<lambda>m. 38 \<le> length (mtod m)) (take b ms)
          in (ms, n\<lparr>rx_script := mss, received := received n @ ms\<rparr>))"

definition runt_free_ops :: "script_nic eth_ops" where
  "runt_free_ops = script_ops\<lparr>rte_eth_rx_burst := runt_free_rx\<rparr>"

interpretation runt_free: nic_contract runt_free_ops received sent
  by unfold_locales
    (auto simp: runt_free_ops_def runt_free_rx_def script_defs Let_def length_filter_take split: list.splits)

lemma runt_free_delivers: "delivers (\<lambda>m. 38 \<le> length (mtod m)) runt_free_ops"
  by (auto simp: delivers_def runt_free_ops_def runt_free_rx_def Let_def list_all_iff split: list.splits)


text \<open>
  C31: On another socket the engine for four packets does not filter. If the table was created for
  a socket other than 0 and there is none for socket 0, a group of four packets is asked in the
  missing table: nothing is found and all four are forwarded, although the engine for one packet
  filters them when they belong to a flow.
\<close>

theorem hash_filter4_other_socket:
  assumes "hash_contract hops tab cap" "ipv4_bridge_lookup_struct hs = [None, Some t]"
    "hash_ready tab cap hs t F" "list_all (\<lambda>m. 38 \<le> length (mtod m)) [a, b, c, d]"
  shows "hash_engine4 hops hs [a, b, c, d] = Some [0, 0, 0, 0] \<and>
    (\<exists>z. \<forall>m\<in>{a, b, c, d}. \<exists>r. hash_engine1 hops hs m = Some r \<and>
      (r > 0 \<longleftrightarrow> packet_5tuple (mtod m) \<in> F \<and> z \<noteq> Some (packet_5tuple (mtod m))))"
proof
  have "mask0 hs = ipv4_mask0" using assms(3) by (simp add: hash_ready_def)
  then show "hash_engine4 hops hs [a, b, c, d] = Some [0, 0, 0, 0]"
    using assms(2,4) hash_contract.multi_null [OF assms(1)]
    by (simp add: hash_engine4_def hash_pkt_filter4_def arr_get_def ipv4_key_of_packet)
  obtain z where "hash_contract.exempt tab hs t z"
    using hash_contract.exempt_exists [OF assms(1,3)] .
  then show "\<exists>z. \<forall>m\<in>{a, b, c, d}. \<exists>r. hash_engine1 hops hs m = Some r \<and>
      (r > 0 \<longleftrightarrow> packet_5tuple (mtod m) \<in> F \<and> z \<noteq> Some (packet_5tuple (mtod m)))"
    using hash_contract.hash_engine1_verdict [OF assms(1,3)] assms(4) by (intro exI [of _ z]) auto
qed

definition demo_frame :: rte_mbuf where
  "demo_frame = \<lparr>mbuf_addr = 0, mtod = replicate 60 0, data_len = 60, ol_flags = 0\<rparr>"

theorem hash_filter4_other_socket_witness:
  "\<exists>hs. init_hash demo_fopen (+) list_hash_ops ''keys'' 0 1 demo_hash_state = Some (Return 0, hs) \<and>
     hash_engine4 list_hash_ops hs [demo_frame, demo_frame, demo_frame, demo_frame] = Some [0, 0, 0, 0]"
proof -
  have f: "demo_fopen ''keys'' = Some (show_nat 4 @ CHR 0x0A # [])" by (simp add: demo_fopen_def)
  have k: "(1 :: nat) < NB_SOCKETS" by (simp add: NB_SOCKETS_def)
  obtain hs where hs: "init_hash demo_fopen (+) list_hash_ops ''keys'' 0 1 demo_hash_state = Some (Return 0, hs)"
    using demo_init_returns [OF k] by blast
  have "(4 :: nat) < 10 ^ 9" by simp
  from list_hash.init_hash_spec [where fopen = demo_fopen and path = "''keys''" and n = 4 and rest = "[]"
      and crc = "(+)" and prc = 0, OF f this demo_hash_wf k] hs
  obtain t where t: "hash_ready list_tab list_cap hs t (flows_of 4)"
    "ipv4_bridge_lookup_struct hs = [None, Some t]"
    by (auto simp: demo_hash_state_def)
  have "list_all (\<lambda>m. 38 \<le> length (mtod m)) [demo_frame, demo_frame, demo_frame, demo_frame]"
    by (simp add: demo_frame_def)
  from hash_filter4_other_socket [OF list_hash.hash_contract_axioms t(2,1) this] hs
  show ?thesis by blast
qed

end
