(* ===== verification/Engine_Bpf.thy ===== *)
theory Engine_Bpf
  imports Bridge_Properties Hash_Key
begin

text \<open>
  The BPF engines (\<^verbatim>\<open>src/engine_bpf.c\<close>, \<^verbatim>\<open>src/engine_bpf_pcap.c\<close>). The compiler and the
  runner of filter programs and the compiler of pcap expressions are libraries: the record
  \<open>bpf_ops\<close>. What the engine relies on is the locale \<open>bpf_contract\<close>: a compiled program behaves
  as the documented machine of classic BPF, which \<open>cbpf\<close> defines for the instructions that
  occur in the programs of the source.
\<close>

section \<open>The documented machine\<close>

record sock_filter =
  sf_code :: u16
  sf_jt :: u8
  sf_jf :: u8
  sf_k :: u32

text \<open>Loads in network byte order; a load outside the packet ends the program with 0.\<close>

definition ld_w :: "u8 list \<Rightarrow> u32 \<Rightarrow> u32 option" where
  "ld_w p off = (if unat off + 4 \<le> length p then Some (be32 p (unat off)) else None)"

definition ld_h :: "u8 list \<Rightarrow> u32 \<Rightarrow> u32 option" where
  "ld_h p off = (if unat off + 2 \<le> length p then Some (ucast (be16 p (unat off))) else None)"

definition ld_b :: "u8 list \<Rightarrow> u32 \<Rightarrow> u32 option" where
  "ld_b p off = (if unat off < length p then Some (ucast (p ! unat off)) else None)"

definition bpf_codes :: "u16 list" where
  "bpf_codes = [0x00, 0x06, 0x07, 0x0c, 0x15, 0x20, 0x28, 0x30, 0x40, 0x45, 0x48, 0x50, 0xb1]"

text \<open>One instruction that does not jump: the new accumulator and index, or the end with 0.\<close>

definition bpf_load :: "sock_filter \<Rightarrow> u32 \<Rightarrow> u32 \<Rightarrow> u8 list \<Rightarrow> (u32 \<times> u32) option" where
  "bpf_load i A X p =
     (let k = sf_k i; c = sf_code i
      in if c = 0x00 then Some (k, X)
         else if c = 0x07 then Some (A, A)
         else if c = 0x0c then Some (A + X, X)
         else if c = 0xb1 then map_option (\<lambda>b. (A, 4 * (b AND 0xf))) (ld_b p k)
         else if c = 0x20 then map_option (\<lambda>v. (v, X)) (ld_w p k)
         else if c = 0x28 then map_option (\<lambda>v. (v, X)) (ld_h p k)
         else if c = 0x30 then map_option (\<lambda>v. (v, X)) (ld_b p k)
         else if c = 0x40 then map_option (\<lambda>v. (v, X)) (ld_w p (X + k))
         else if c = 0x48 then map_option (\<lambda>v. (v, X)) (ld_h p (X + k))
         else if c = 0x50 then map_option (\<lambda>v. (v, X)) (ld_b p (X + k))
         else None)"

function cbpf :: "sock_filter list \<Rightarrow> u32 \<Rightarrow> u32 \<Rightarrow> u8 list \<Rightarrow> u32" where
  "cbpf [] A X p = 0"
| "cbpf (i # is) A X p =
     (if sf_code i = 0x06 then sf_k i
      else if sf_code i = 0x15
      then cbpf (drop (unat (if A = sf_k i then sf_jt i else sf_jf i)) is) A X p
      else if sf_code i = 0x45
      then cbpf (drop (unat (if A AND sf_k i \<noteq> 0 then sf_jt i else sf_jf i)) is) A X p
      else case bpf_load i A X p of None \<Rightarrow> 0 | Some (A, X) \<Rightarrow> cbpf is A X p)"
  by pat_completeness auto
termination by (relation "measure (\<lambda>(is, _). length is)") auto

section \<open>Libraries\<close>

text \<open>
  \<open>first_word\<close> is the first integer of a compiled program in memory, which the code tests to
  find out whether the compilation failed; \<^term>\<open>None\<close> is the null pointer. \<open>pcap_compile\<close> yields
  no program for an expression it rejects.
\<close>

record 'p bpf_ops =
  compile_filter :: "sock_filter list \<Rightarrow> 'p option"
  first_word :: "'p \<Rightarrow> int"
  run_filter :: "'p \<Rightarrow> u8 list \<Rightarrow> u32 \<Rightarrow> int"
  pcap_compile :: "string \<Rightarrow> sock_filter list option"

locale bpf_contract =
  fixes bops :: "'p bpf_ops"
  assumes compiled: "set (map sf_code prog) \<subseteq> set bpf_codes \<Longrightarrow> compile_filter bops prog = Some f \<Longrightarrow>
      0 \<le> first_word bops f"
    and run_exact: "set (map sf_code prog) \<subseteq> set bpf_codes \<Longrightarrow> compile_filter bops prog = Some f \<Longrightarrow>
      unat len \<le> length pkt \<Longrightarrow>
      run_filter bops f pkt len = to_int (uint (cbpf prog 0 0 (take (unat len) pkt)))"

section \<open>The engines\<close>

text \<open>The static variable \<open>fp\<close> is the state of the engine.\<close>

type_synonym 'p bpf_state = "'p option"

definition compile_bpf_program ::
  "'p bpf_ops \<Rightarrow> sock_filter list \<Rightarrow> 'p bpf_state \<Rightarrow> (int proc_outcome \<times> 'p bpf_state) option" where
  "compile_bpf_program bops bpf fp =
     (let fp = compile_filter bops bpf
      in do {
        f \<leftarrow> fp;
        if first_word bops f < 0 then Some (Exit 1, fp) else Some (Return 0, fp)
      })"

definition compile_pcap_bpf_program ::
  "'p bpf_ops \<Rightarrow> sock_filter list \<Rightarrow> 'p bpf_state \<Rightarrow> (int proc_outcome \<times> 'p bpf_state) option" where
  "compile_pcap_bpf_program bops pcap_bpf fp =
     (let fp = compile_filter bops pcap_bpf
      in do {
        f \<leftarrow> fp;
        if first_word bops f < 0 then Some (Exit 1, fp) else Some (Return 0, fp)
      })"

definition isc_org_code :: "sock_filter list" where
  "isc_org_code =
     [\<lparr>sf_code = 0xb1, sf_jt = 0, sf_jf = 0, sf_k = 0x0000000e\<rparr>,
      \<lparr>sf_code = 0, sf_jt = 0, sf_jf = 0, sf_k = 0x00000022\<rparr>,
      \<lparr>sf_code = 0x0c, sf_jt = 0, sf_jf = 0, sf_k = 0\<rparr>,
      \<lparr>sf_code = 0x07, sf_jt = 0, sf_jf = 0, sf_k = 0\<rparr>,
      \<lparr>sf_code = 0x40, sf_jt = 0, sf_jf = 0, sf_k = 0\<rparr>,
      \<lparr>sf_code = 0x15, sf_jt = 0, sf_jf = 5, sf_k = 0x03697363\<rparr>,
      \<lparr>sf_code = 0x40, sf_jt = 0, sf_jf = 0, sf_k = 0x00000004\<rparr>,
      \<lparr>sf_code = 0x15, sf_jt = 0, sf_jf = 3, sf_k = 0x036f7267\<rparr>,
      \<lparr>sf_code = 0x50, sf_jt = 0, sf_jf = 0, sf_k = 0x00000008\<rparr>,
      \<lparr>sf_code = 0x15, sf_jt = 0, sf_jf = 1, sf_k = 0\<rparr>,
      \<lparr>sf_code = 0x06, sf_jt = 0, sf_jf = 0, sf_k = 0x00000001\<rparr>,
      \<lparr>sf_code = 0x06, sf_jt = 0, sf_jf = 0, sf_k = 0\<rparr>]"

definition compile_bpf_filter2 ::
  "'p bpf_ops \<Rightarrow> 'p bpf_state \<Rightarrow> (int proc_outcome \<times> 'p bpf_state) option" where
  "compile_bpf_filter2 bops fp = compile_bpf_program bops isc_org_code fp"

definition BPF_pkt_filter :: "'p bpf_ops \<Rightarrow> 'p bpf_state engine" where
  "BPF_pkt_filter bops fp pkt pkt_length = do {
     f \<leftarrow> fp;
     Some (run_filter bops f pkt pkt_length, fp)
   }"

definition BPF_init ::
  "'p bpf_ops \<Rightarrow> string \<Rightarrow> 'p bpf_state \<Rightarrow> (int proc_outcome \<times> 'p bpf_state) option" where
  "BPF_init bops args fp = do {
     (r, fp) \<leftarrow> compile_bpf_filter2 bops fp;
     case r of Exit n \<Rightarrow> Some (Exit n, fp) | Return _ \<Rightarrow> Some (Return 0, fp)
   }"

text \<open>
  A file that cannot be opened is a null pointer handed to \<open>getline\<close>, and a rejected expression
  leaves the program uninitialised when it is compiled: both are undefined behaviour.
\<close>

definition BPF_PCAP_MAX_ARGS :: nat where "BPF_PCAP_MAX_ARGS = 1024"

definition BPF_pcap_init ::
  "(string \<Rightarrow> string option) \<Rightarrow> 'p bpf_ops \<Rightarrow> string \<Rightarrow> 'p bpf_state \<Rightarrow>
   (int proc_outcome \<times> 'p bpf_state) option" where
  "BPF_pcap_init fopen bops file_path fp = do {
     file \<leftarrow> fopen file_path;
     case getline file of
       None \<Rightarrow> Some (Return (- 1), fp)
     | Some (line, _) \<Rightarrow>
         if length line > BPF_PCAP_MAX_ARGS then Some (Return (- 1), fp)
         else do {
           bpf \<leftarrow> pcap_compile bops (c_str line);
           (r, fp) \<leftarrow> compile_pcap_bpf_program bops bpf fp;
           case r of Exit n \<Rightarrow> Some (Exit n, fp) | Return _ \<Rightarrow> Some (Return 0, fp)
         }
   }"

section \<open>What the fixed program accepts\<close>

text \<open>
  The name \<open>isc.org\<close> in the format of DNS messages, and the packets that ask for it: after an
  Ethernet header, an IPv4 header of the length its first byte says, a UDP header and a DNS
  header.
\<close>

definition isc_name :: "u8 list" where
  "isc_name = [3, 105, 115, 99, 3, 111, 114, 103, 0]"

definition qname_offset :: "u8 list \<Rightarrow> nat" where
  "qname_offset p = 14 + 4 * unat (p ! 14 AND 0xf) + 8 + 12"

definition asks_for_isc :: "u8 list \<Rightarrow> bool" where
  "asks_for_isc p \<longleftrightarrow> 14 < length p \<and> qname_offset p + 9 \<le> length p \<and>
     take 9 (drop (qname_offset p) p) = isc_name"

lemma isc_org_known: "set (map sf_code isc_org_code) \<subseteq> set bpf_codes"
  by (simp add: isc_org_code_def bpf_codes_def)

lemma cbpf_isc_steps:
  "cbpf isc_org_code 0 0 p =
     (case ld_b p 14 of None \<Rightarrow> 0 | Some b \<Rightarrow>
       let x = 34 + 4 * (b AND 0xf)
       in case ld_w p x of None \<Rightarrow> 0 | Some v \<Rightarrow>
         if v \<noteq> 0x03697363 then 0
         else case ld_w p (x + 4) of None \<Rightarrow> 0 | Some v \<Rightarrow>
           if v \<noteq> 0x036f7267 then 0
           else case ld_b p (x + 8) of None \<Rightarrow> 0 | Some v \<Rightarrow> if v = 0 then 1 else 0)"
  by (simp add: isc_org_code_def bpf_load_def Let_def split: option.splits)

lemma low_nibble:
  fixes b :: u8
  shows "unat (b AND 0xf) < 16" "(ucast b AND 0xf :: u32) = of_nat (unat (b AND 0xf))"
proof -
  have "(15 :: u8) = mask 4" "(15 :: u32) = mask 4" by (simp_all add: mask_eq_exp_minus_1)
  then have m: "ucast b AND 15 = take_bit 4 (ucast b :: u32)" "b AND 15 = take_bit 4 b"
    by (metis take_bit_eq_mask)+
  show "unat (b AND 0xf) < 16"
    using m(2) take_bit_nat_less_exp [of 4 "unat b"] by (simp add: unsigned_take_bit_eq)
  show "(ucast b AND 0xf :: u32) = of_nat (unat (b AND 0xf))"
    using m by (simp add: unsigned_take_bit_eq flip: take_bit_of_nat)
qed

lemma qname_offset_word:
  fixes b :: u8
  defines "x \<equiv> 34 + 4 * (ucast b AND 0xf :: u32)"
  shows "unat x = 34 + 4 * unat (b AND 0xf)" "unat (x + 4) = 38 + 4 * unat (b AND 0xf)"
    "unat (x + 8) = 42 + 4 * unat (b AND 0xf)"
proof -
  let ?n = "unat (b AND 0xf)"
  have "unat (of_nat (34 + 4 * ?n + k) :: u32) = 34 + 4 * ?n + k" if "k \<le> 8" for k
    using low_nibble(1) [of b] that by (simp add: unsigned_of_nat take_bit_nat_eq_self del: of_nat_add of_nat_mult)
  from this [of 0] this [of 4] this [of 8]
  show "unat x = 34 + 4 * ?n" "unat (x + 4) = 38 + 4 * ?n" "unat (x + 8) = 42 + 4 * ?n"
    unfolding x_def low_nibble(2) by (simp_all add: algebra_simps)
qed

lemma take_9:
  assumes "i + 9 \<le> length p"
  shows "take 9 (drop i p) =
    [p ! i, p ! (i + 1), p ! (i + 2), p ! (i + 3), p ! (i + 4), p ! (i + 5), p ! (i + 6), p ! (i + 7), p ! (i + 8)]"
proof -
  have "[0..<9] = [0, 1, 2, 3, 4, 5, 6, 7, 8 :: nat]" by (simp add: upt_rec)
  then show ?thesis using assms by (simp add: take_drop_nths)
qed

lemma be32_labels:
  "be32 p i = 0x03697363 \<longleftrightarrow> p ! i = 3 \<and> p ! (i + 1) = 105 \<and> p ! (i + 2) = 115 \<and> p ! (i + 3) = 99"
  "be32 p (i + 4) = 0x036f7267 \<longleftrightarrow>
     p ! (i + 4) = 3 \<and> p ! (i + 5) = 111 \<and> p ! (i + 6) = 114 \<and> p ! (i + 7) = 103"
proof -
  have "ucast (drop_bit 24 (0x03697363 :: u32)) = (3 :: u8)" "ucast (drop_bit 16 (0x03697363 :: u32)) = (105 :: u8)"
    "ucast (drop_bit 8 (0x03697363 :: u32)) = (115 :: u8)" "ucast (0x03697363 :: u32) = (99 :: u8)"
    "ucast (drop_bit 24 (0x036f7267 :: u32)) = (3 :: u8)" "ucast (drop_bit 16 (0x036f7267 :: u32)) = (111 :: u8)"
    "ucast (drop_bit 8 (0x036f7267 :: u32)) = (114 :: u8)" "ucast (0x036f7267 :: u32) = (103 :: u8)"
    by (simp_all add: drop_bit_eq_div)
  note bytes = this
  have "i + 4 + 1 = i + 5" "i + 4 + 2 = i + 6" "i + 4 + 3 = i + 7" by simp_all
  note idx = this
  show "be32 p i = 0x03697363 \<longleftrightarrow> p ! i = 3 \<and> p ! (i + 1) = 105 \<and> p ! (i + 2) = 115 \<and> p ! (i + 3) = 99"
    by (simp only: be32_def IPv4_eq_iff bytes)
  show "be32 p (i + 4) = 0x036f7267 \<longleftrightarrow>
     p ! (i + 4) = 3 \<and> p ! (i + 5) = 111 \<and> p ! (i + 6) = 114 \<and> p ! (i + 7) = 103"
    by (simp only: be32_def IPv4_eq_iff bytes idx)
qed

lemma ucast_eq_0 [simp]: "(ucast (b :: u8) :: u32) = 0 \<longleftrightarrow> b = 0"
  by (auto simp: bit_eq_iff bit_simps) (metis bit_u8_beyond not_le)

lemma cbpf_isc: "cbpf isc_org_code 0 0 p = (if asks_for_isc p then 1 else 0)"
proof (cases "14 < length p")
  case False
  then show ?thesis by (simp add: cbpf_isc_steps ld_b_def asks_for_isc_def)
next
  case True
  let ?i = "qname_offset p"
  have off: "?i = 34 + 4 * unat (p ! 14 AND 0xf)" by (simp add: qname_offset_def)
  define x :: u32 where "x = 34 + 4 * (ucast (p ! 14) AND 0xf)"
  have w: "unat x = ?i" "unat (x + 4) = ?i + 4" "unat (x + 8) = ?i + 8"
    using qname_offset_word [of "p ! 14"] unfolding x_def off by simp_all
  have "ld_b p 14 = Some (ucast (p ! 14))" using True by (simp add: ld_b_def)
  then have "cbpf isc_org_code 0 0 p =
      (case ld_w p x of None \<Rightarrow> 0 | Some v \<Rightarrow>
         if v \<noteq> 0x03697363 then 0
         else case ld_w p (x + 4) of None \<Rightarrow> 0 | Some v \<Rightarrow>
           if v \<noteq> 0x036f7267 then 0
           else case ld_b p (x + 8) of None \<Rightarrow> 0 | Some v \<Rightarrow> if v = 0 then 1 else 0)"
    by (simp only: cbpf_isc_steps x_def Let_def option.case)
  also have "\<dots> =
      (if ?i + 4 \<le> length p \<and> be32 p ?i = 0x03697363 \<and> ?i + 8 \<le> length p \<and>
          be32 p (?i + 4) = 0x036f7267 \<and> ?i + 8 < length p \<and> p ! (?i + 8) = 0 then 1 else 0)"
    by (simp add: ld_w_def ld_b_def w)
  also have "\<dots> = (if asks_for_isc p then 1 else 0)"
    using True by (auto simp: asks_for_isc_def take_9 isc_name_def be32_labels)
  finally show ?thesis .
qed

section \<open>Runs of the engine\<close>

lemma BPF_pkt_filter_safe: "engine_safe (\<lambda>e. e = Some f) P (BPF_pkt_filter bops)"
  by (simp add: engine_safe_def BPF_pkt_filter_def)

lemma engine_run_bpf:
  "engine_run (BPF_pkt_filter bops) (Some f) ms = Some
     (map (\<lambda>m. (m, run_filter bops f (mtod m) (ucast (data_len m)) \<noteq> 0)) ms, Some f)"
  by (induction ms) (simp_all add: BPF_pkt_filter_def)

text \<open>The bytes of a packet that a filter may see.\<close>

definition frame_bytes :: "rte_mbuf \<Rightarrow> u8 list" where
  "frame_bytes m = take (unat (data_len m)) (mtod m)"

definition frame_complete :: "rte_mbuf \<Rightarrow> bool" where
  "frame_complete m \<longleftrightarrow> unat (data_len m) \<le> length (mtod m)"

lemma unat_ucast_16_32 [simp]: "unat (ucast (w :: u16) :: u32) = unat w"
proof -
  have "unat w < 2 ^ 16" using unsigned_less [of w] by simp
  then have "unat w < 2 ^ 32" by simp
  then show ?thesis by (simp add: unsigned_ucast_eq take_bit_nat_eq_self)
qed

context bpf_contract
begin

lemma run_frame:
  assumes "set (map sf_code prog) \<subseteq> set bpf_codes" "compile_filter bops prog = Some f" "frame_complete m"
  shows "run_filter bops f (mtod m) (ucast (data_len m)) = to_int (uint (cbpf prog 0 0 (frame_bytes m)))"
  using run_exact [OF assms(1,2), of "ucast (data_len m)" "mtod m"] assms(3)
  by (simp add: frame_complete_def frame_bytes_def)

lemma compile_bpf_program_ok:
  assumes "set (map sf_code prog) \<subseteq> set bpf_codes" "compile_filter bops prog = Some f"
  shows "compile_bpf_program bops prog fp = Some (Return 0, Some f)"
    "compile_pcap_bpf_program bops prog fp = Some (Return 0, Some f)"
  using assms compiled [OF assms]
  by (simp_all add: compile_bpf_program_def compile_pcap_bpf_program_def)

lemma bpf_passed:
  assumes "compile_filter bops isc_org_code = Some f" "list_all frame_complete r"
    "engine_run (BPF_pkt_filter bops) (Some f) r = Some (ds, e')"
  shows "passed ds = filter (\<lambda>m. \<not> asks_for_isc (frame_bytes m)) r"
proof -
  have "(run_filter bops f (mtod m) (ucast (data_len m)) \<noteq> 0) = asks_for_isc (frame_bytes m)"
    if "m \<in> set r" for m
    using run_frame [OF isc_org_known assms(1), of m] that assms(2)
    by (simp add: cbpf_isc list_all_iff to_int_def)
  then have "ds = map (\<lambda>m. (m, asks_for_isc (frame_bytes m))) r"
    using assms(3) by (auto simp: engine_run_bpf)
  then show ?thesis by (induction r arbitrary: ds) (simp_all add: passed_def)
qed

end

section \<open>An interpreter as the library\<close>

definition arp_code :: "sock_filter list" where
  "arp_code =
     [\<lparr>sf_code = 0x28, sf_jt = 0, sf_jf = 0, sf_k = 0xc\<rparr>, \<lparr>sf_code = 0x15, sf_jt = 0, sf_jf = 1, sf_k = 0x806\<rparr>,
      \<lparr>sf_code = 0x06, sf_jt = 0, sf_jf = 0, sf_k = 1500\<rparr>, \<lparr>sf_code = 0x06, sf_jt = 0, sf_jf = 0, sf_k = 0\<rparr>]"

definition interpreted_ops :: "sock_filter list bpf_ops" where
  "interpreted_ops = \<lparr>compile_filter = Some, first_word = (\<lambda>_. 0),
     run_filter = (\<lambda>prog pkt len. to_int (uint (cbpf prog 0 0 (take (unat len) pkt)))),
     pcap_compile = (\<lambda>e. if e = ''arp'' @ [CHR 0x0A] then Some arp_code else None)\<rparr>"

interpretation interpreted: bpf_contract interpreted_ops
  by unfold_locales (simp_all add: interpreted_ops_def)

text \<open>A device that delivers only complete frames.\<close>

definition complete_rx :: "script_nic \<Rightarrow> u8 \<Rightarrow> u8 \<Rightarrow> nat \<Rightarrow> rte_mbuf list \<times> script_nic" where
  "complete_rx n p q b =
     (case rx_script n of
        [] \<Rightarrow> ([], n)
      | ms # mss \<Rightarrow>
          let ms = filter frame_complete (take b ms)
          in (ms, n\<lparr>rx_script := mss, received := received n @ ms\<rparr>))"

definition complete_ops :: "script_nic eth_ops" where
  "complete_ops = script_ops\<lparr>rte_eth_rx_burst := complete_rx\<rparr>"

interpretation complete: nic_contract complete_ops received sent
  by unfold_locales
    (auto simp: complete_ops_def complete_rx_def script_defs Let_def length_filter_take split: list.splits)

lemma complete_delivers: "delivers frame_complete complete_ops"
  by (auto simp: delivers_def complete_ops_def complete_rx_def Let_def list_all_iff split: list.splits)

section \<open>Properties\<close>

text \<open>
  C27: The BPF engine with its built-in program, in the forwarding loop. If the filter library
  behaves as documented and compiles the program, the initialisation succeeds, and in any number
  of rounds the loop forwards, in the order of arrival, only packets that do not ask for the name
  \<open>isc.org\<close>: the offset of the name, computed by the program from the header length in the
  packet, is right for every header length, and packets too short to hold the name pass.
\<close>

theorem bpf_filters_isc_org:
  assumes "bpf_contract bops" "compile_filter bops isc_org_code = Some f"
    "nic_contract ops rx_log tx_log" "delivers frame_complete ops" "bridge_wf s" "eng s = Some f"
  shows "BPF_init bops args fp = Some (Return 0, Some f) \<and>
    (\<exists>s' r snt. bridge_main_loop ops pm nb lc (BPF_pkt_filter bops) n s = Some s' \<and>
      rx_log (nic s') = rx_log (nic s) @ r \<and> tx_log (nic s') = tx_log (nic s) @ snt \<and>
      subseq (snt @ pending s') (pending s @ filter (\<lambda>m. \<not> asks_for_isc (frame_bytes m)) r))"
proof
  show "BPF_init bops args fp = Some (Return 0, Some f)"
    using bpf_contract.compile_bpf_program_ok(1) [OF assms(1) isc_org_known assms(2)]
    by (simp add: BPF_init_def compile_bpf_filter2_def)
  obtain s' r ds where run: "bridge_main_loop ops pm nb lc (BPF_pkt_filter bops) n s = Some s'"
    "engine_run (BPF_pkt_filter bops) (Some f) r = Some (ds, eng s')"
    "flow rx_log tx_log s r ds s'" "list_all frame_complete r"
    using bridge_main_loop_run [OF assms(3) BPF_pkt_filter_safe assms(6,4,5)] assms(6) by metis
  have "passed ds = filter (\<lambda>m. \<not> asks_for_isc (frame_bytes m)) r"
    using bpf_contract.bpf_passed [OF assms(1,2) run(4,2)] .
  then show "\<exists>s' r snt. bridge_main_loop ops pm nb lc (BPF_pkt_filter bops) n s = Some s' \<and>
      rx_log (nic s') = rx_log (nic s) @ r \<and> tx_log (nic s') = tx_log (nic s) @ snt \<and>
      subseq (snt @ pending s') (pending s @ filter (\<lambda>m. \<not> asks_for_isc (frame_bytes m)) r)"
    using run(1,3) unfolding flow_def flow_gen_def by auto
qed

theorem bpf_filters_isc_org_witness:
  "\<exists>s' r. bridge_main_loop complete_ops 3 2 1 (BPF_pkt_filter interpreted_ops) 5
       (start_state demo_nic (Some isc_org_code)) = Some s' \<and> received (nic s') = r \<and>
     subseq (sent (nic s') @ pending s') (filter (\<lambda>m. \<not> asks_for_isc (frame_bytes m)) r)"
proof -
  have "compile_filter interpreted_ops isc_org_code = Some isc_org_code" by (simp add: interpreted_ops_def)
  from bpf_filters_isc_org [OF interpreted.bpf_contract_axioms this complete.nic_contract_axioms
      complete_delivers start_state_wf [of demo_nic "Some isc_org_code"], where n = 5]
  show ?thesis by auto
qed



end
