(* ===== verification/Fast_Strstr.thy ===== *)
theory Fast_Strstr
  imports Bridge_Datapath
begin

text \<open>
  The string search of \<^verbatim>\<open>src/fast_strstr.c\<close>: a packet is searched for one pattern with
  a sum of characters that is updated as a window slides over the text. Memory is a list of
  bytes, a pointer is an offset into it, and a read outside the list is undefined
  (\<^term>\<open>None\<close>). A \<^verbatim>\<open>char\<close> is signed: it is sign-extended when it is added to the
  32-bit sum.
\<close>

section \<open>Definitions\<close>

text \<open>A character as it enters an \<^verbatim>\<open>unsigned\<close> sum.\<close>

definition cval :: "u8 \<Rightarrow> u32" where
  "cval b = scast b"

record strings_tree_s =
  tree_key :: int
  tree_value :: int

text \<open>\<open>fast_strstr_strings\<close> (with their null characters) and \<open>strings_tree_t\<close>.\<close>

record fast_strstr_state =
  fast_strstr_strings :: "u8 list list"
  strings_tree_t :: "strings_tree_s list"

text \<open>
  The result is undefined, the null pointer (\<open>Some None\<close>) or a position. The length is an
  unsigned 32-bit number, so the decrement of 0 wraps around.
\<close>

function mystrchr :: "u8 list \<Rightarrow> nat \<Rightarrow> u8 \<Rightarrow> u32 \<Rightarrow> nat option option" where
  "mystrchr mem s c len =
     (case arr_get mem s of
        None \<Rightarrow> None
      | Some b \<Rightarrow>
          if b \<noteq> c then
            (let len = len - 1
             in if len = 0 then Some None else mystrchr mem (Suc s) c len)
          else Some (Some s))"
  by pat_completeness auto
termination
  by (relation "measure (\<lambda>(mem, s, c, len). length mem - s)") (auto simp: arr_get_eq_Some_iff)

text \<open>\<open>fast_strstr_hash\<close>: the sum of the first \<open>n\<close> characters of a string.\<close>

fun fast_strstr_hash :: "u8 list \<Rightarrow> nat \<Rightarrow> u32 option" where
  "fast_strstr_hash s 0 = Some 0"
| "fast_strstr_hash s (Suc n) = do {
     b \<leftarrow> arr_get s 0;
     r \<leftarrow> fast_strstr_hash (tl s) n;
     Some (cval b + r)
   }"

text \<open>
  The loop that sums the first characters of the text and compares them with the pattern.
  \<open>w\<close> is what is subtracted for a character of the pattern.
\<close>

function head_loop ::
  "(u8 \<Rightarrow> u32) \<Rightarrow> u8 list \<Rightarrow> u8 list \<Rightarrow> nat \<Rightarrow> nat \<Rightarrow> u32 \<Rightarrow> bool \<Rightarrow>
   (nat \<times> nat \<times> u32 \<times> bool) option" where
  "head_loop w mem ndl i_haystack i_needle sums_diff identical =
     (case arr_get mem i_haystack of
        None \<Rightarrow> None
      | Some h \<Rightarrow>
          if h = 0 then Some (i_haystack, i_needle, sums_diff, identical)
          else (case arr_get ndl i_needle of
             None \<Rightarrow> None
           | Some c \<Rightarrow>
               if c = 0 then Some (i_haystack, i_needle, sums_diff, identical)
               else head_loop w mem ndl (Suc i_haystack) (Suc i_needle)
                      (sums_diff + cval h - w c) (identical \<and> h = c)))"
  by pat_completeness auto
termination
  by (relation "measure (\<lambda>(w, mem, ndl, i, j, sd, id). length mem - i)")
    (auto simp: arr_get_eq_Some_iff)

text \<open>\<open>memcmp(p, q, n) == 0\<close>, both areas readable.\<close>

definition memcmp_eq :: "u8 list \<Rightarrow> nat \<Rightarrow> u8 list \<Rightarrow> nat \<Rightarrow> bool option" where
  "memcmp_eq mem p ndl n =
     (if p + n \<le> length mem \<and> n \<le> length ndl
      then Some (take n (drop p mem) = take n ndl) else None)"

text \<open>The loop that slides the window over the rest of the text.\<close>

function scan_loop ::
  "u8 list \<Rightarrow> u8 list \<Rightarrow> u8 \<Rightarrow> nat \<Rightarrow> nat \<Rightarrow> nat \<Rightarrow> u32 \<Rightarrow> int option" where
  "scan_loop mem ndl needle_first needle_len_1 sub_start i_haystack sums_diff =
     (case arr_get mem i_haystack of
        None \<Rightarrow> None
      | Some h \<Rightarrow>
          if h = 0 then Some 0
          else (case (arr_get mem sub_start, arr_get mem (Suc sub_start)) of
             (Some a, Some b) \<Rightarrow>
               (let sums_diff = sums_diff - cval a + cval h
                in case (if sums_diff = 0 \<and> needle_first = b
                         then memcmp_eq mem (Suc sub_start) ndl needle_len_1 else Some False) of
                     None \<Rightarrow> None
                   | Some True \<Rightarrow> Some 1
                   | Some False \<Rightarrow>
                       scan_loop mem ndl needle_first needle_len_1 (Suc sub_start)
                         (Suc i_haystack) sums_diff)
           | _ \<Rightarrow> None))"
  by pat_completeness auto
termination
  by (relation "measure (\<lambda>(mem, ndl, c, n, s, i, sd). length mem - i)")
    (auto simp: arr_get_eq_Some_iff)

text \<open>The end of a search, after the first loop: the pattern is longer, equal, or scanned for.\<close>

definition strstr_tail ::
  "u8 list \<Rightarrow> u8 list \<Rightarrow> u8 \<Rightarrow> nat \<Rightarrow> nat \<Rightarrow> nat \<Rightarrow> u32 \<Rightarrow> bool \<Rightarrow> int option" where
  "strstr_tail mem needle needle_first haystack i_haystack i_needle sums_diff identical = do {
     c \<leftarrow> arr_get needle i_needle;
     if c \<noteq> 0 then Some 0
     else if identical then Some 1
     else scan_loop mem needle needle_first (i_needle - 1) haystack i_haystack sums_diff
   }"

definition fast_strstr_filter_one ::
  "'a fast_strstr_state_scheme \<Rightarrow> u8 list \<Rightarrow> u32 \<Rightarrow> int option" where
  "fast_strstr_filter_one st mem pkt_len = do {
     needle \<leftarrow> arr_get (fast_strstr_strings st) 0;
     needle_first \<leftarrow> arr_get needle 0;
     p \<leftarrow> mystrchr mem 0 needle_first pkt_len;
     case p of
       None \<Rightarrow> Some 0
     | Some haystack \<Rightarrow> do {
         h \<leftarrow> arr_get mem haystack;
         (i_haystack, i_needle, sums_diff, identical) \<leftarrow>
           head_loop cval mem needle (haystack + 1) 1 (cval h) True;
         strstr_tail mem needle needle_first haystack i_haystack i_needle sums_diff identical
       }
   }"

definition fast_strstr_filter_one_hashed ::
  "'a fast_strstr_state_scheme \<Rightarrow> u8 list \<Rightarrow> u32 \<Rightarrow> int option" where
  "fast_strstr_filter_one_hashed st mem pkt_len = do {
     needle \<leftarrow> arr_get (fast_strstr_strings st) 4;
     needle_first \<leftarrow> arr_get needle 0;
     p \<leftarrow> mystrchr mem 0 needle_first pkt_len;
     case p of
       None \<Rightarrow> Some 0
     | Some haystack \<Rightarrow> do {
         h \<leftarrow> arr_get mem haystack;
         (i_haystack, i_needle, sums_diff, identical) \<leftarrow>
           head_loop (\<lambda>_. 0) mem needle (haystack + 1) 1 (cval h) True;
         t \<leftarrow> arr_get (strings_tree_t st) 0;
         let sums_diff = sums_diff - word_of_int (tree_key t);
         strstr_tail mem needle needle_first haystack i_haystack i_needle sums_diff identical
       }
   }"

text \<open>The function as the engine of the forwarding loop.\<close>

definition fast_strstr_engine :: "'a fast_strstr_state_scheme engine" where
  "fast_strstr_engine st pkt len = do {
     r \<leftarrow> fast_strstr_filter_one_hashed st pkt len;
     Some (r, st)
   }"

section \<open>Reference definitions\<close>

text \<open>The sum of characters, and the text that a C string function sees at a position.\<close>

definition csum :: "u8 list \<Rightarrow> u32" where
  "csum bs = sum_list (map cval bs)"

definition cstring :: "u8 list \<Rightarrow> u8 list" where
  "cstring mem = takeWhile (\<lambda>b. b \<noteq> 0) mem"

text \<open>
  The test on the window of \<open>hay\<close> at position \<open>j\<close>: it has the sum \<open>key\<close> and agrees with the
  pattern on all characters but the last. The scan looks for such a window after the start.
\<close>

definition window_at :: "u32 \<Rightarrow> u8 list \<Rightarrow> u8 list \<Rightarrow> nat \<Rightarrow> bool" where
  "window_at key pat hay j \<longleftrightarrow>
     j + length pat \<le> length hay \<and>
     csum (take (length pat) (drop j hay)) = key \<and>
     hay ! j = hd pat \<and>
     take (length pat - 1) (drop j hay) = take (length pat - 1) pat"

definition window_after :: "u32 \<Rightarrow> u8 list \<Rightarrow> u8 list \<Rightarrow> nat \<Rightarrow> bool" where
  "window_after key pat hay j \<longleftrightarrow> (\<exists>i\<in>{j<..length hay}. window_at key pat hay i)"

section \<open>Facts\<close>

declare mystrchr.simps [simp del] head_loop.simps [simp del] scan_loop.simps [simp del]

lemma csum_simps [simp]:
  "csum [] = 0" "csum (b # bs) = cval b + csum bs" "csum (xs @ ys) = csum xs + csum ys"
  by (simp_all add: csum_def)

lemma cval_inj [simp]: "cval a = cval b \<longleftrightarrow> a = b"
proof
  assume "cval a = cval b"
  then have "(scast (scast a :: u32) :: u8) = scast (scast b :: u32)" by (simp add: cval_def)
  then show "a = b" by (simp add: scast_up_scast_id is_up)
qed simp

lemma drop_eq_Cons: "i < length xs \<Longrightarrow> drop i xs = xs ! i # drop (Suc i) xs"
  by (rule Cons_nth_drop_Suc [symmetric])

lemma arr_get_drop: "drop i xs = y # ys \<Longrightarrow> arr_get xs i = Some y"
  by (metis arr_get_def drop_eq_Nil list.distinct(1) list.sel(1) not_le hd_drop_conv_nth)

lemma drop_Suc_of_Cons: "drop i xs = y # ys \<Longrightarrow> drop (Suc i) xs = ys"
  by (metis drop_Suc list.sel(3) tl_drop)

text \<open>\<open>mystrchr\<close> finds the first occurrence among the first \<open>len\<close> bytes.\<close>

lemma mystrchr_eq:
  assumes "0 < unat len" "s + unat len \<le> length mem"
  shows "mystrchr mem s c len =
    Some (let k = length (takeWhile (\<lambda>b. b \<noteq> c) (drop s mem))
          in if k < unat len then Some (s + k) else None)"
  using assms
proof (induction mem s c len rule: mystrchr.induct)
  case (1 mem s c len)
  have s: "s < length mem" using "1.prems" by simp
  then have get: "arr_get mem s = Some (mem ! s)" by (simp add: arr_get_Some)
  have drop: "drop s mem = mem ! s # drop (Suc s) mem" using s by (rule drop_eq_Cons)
  show ?case
  proof (cases "mem ! s = c")
    case True
    then show ?thesis using "1.prems"(1) by (simp add: mystrchr.simps [of mem s] get drop)
  next
    case False
    have len: "unat (len - 1) = unat len - 1"
      using "1.prems"(1) by (metis unat_1 unat_minus_one unat_0 less_irrefl One_nat_def)
    show ?thesis
    proof (cases "len - 1 = 0")
      case True
      then have "unat len = 1" using "1.prems"(1) len by simp
      then show ?thesis using False True by (simp add: mystrchr.simps [of mem s] get drop)
    next
      case nz: False
      then have pos: "0 < unat (len - 1)" by (simp add: unat_gt_0)
      have "mystrchr mem s c len = mystrchr mem (Suc s) c (len - 1)"
        using False nz by (simp add: mystrchr.simps [of mem s] get)
      also have "\<dots> = Some (let k = length (takeWhile (\<lambda>b. b \<noteq> c) (drop (Suc s) mem))
          in if k < unat (len - 1) then Some (Suc s + k) else None)"
        using "1.IH" [OF get False refl nz] pos "1.prems" len by simp
      finally show ?thesis using False len drop pos by (simp add: Let_def) linarith
    qed
  qed
qed

lemma cstring_split:
  assumes "0 \<in> set mem"
  shows "\<exists>z. mem = cstring mem @ 0 # z"
  using assms unfolding cstring_def
  by (metis (mono_tags, lifting) dropWhile_eq_Cons_conv takeWhile_dropWhile_id
      dropWhile_eq_Nil_conv neq_Nil_conv)

lemma zero_notin_cstring [simp]: "0 \<notin> set (cstring mem)"
  unfolding cstring_def by (metis (mono_tags, lifting) set_takeWhileD)

text \<open>The first loop stops at the end of the text or of the pattern, whichever comes first.\<close>

lemma head_loop_eq:
  assumes "0 \<in> set (drop i mem)" "drop j ndl = ns @ 0 # z" "0 \<notin> set ns"
  defines "t \<equiv> cstring (drop i mem)"
  defines "k \<equiv> min (length t) (length ns)"
  shows "head_loop w mem ndl i j sd idn =
    Some (i + k, j + k, sd + csum (take k t) - sum_list (map w (take k ns)),
          idn \<and> take k t = take k ns)"
  using assms(1-3) unfolding t_def k_def
proof (induction ns arbitrary: i j sd idn)
  case Nil
  obtain h m where h: "drop i mem = h # m" using Nil.prems(1) by (cases "drop i mem") auto
  have "arr_get mem i = Some h" "arr_get ndl j = Some 0"
    using h Nil.prems(2) by (simp_all add: arr_get_drop)
  then show ?case by (simp add: head_loop.simps [of w mem ndl i])
next
  case (Cons c ns)
  obtain h m where h: "drop i mem = h # m" using Cons.prems(1) by (cases "drop i mem") auto
  have get: "arr_get mem i = Some h" "arr_get ndl j = Some c"
    using h Cons.prems(2) by (simp_all add: arr_get_drop)
  have c: "c \<noteq> 0" using Cons.prems(3) by auto
  show ?case
  proof (cases "h = 0")
    case True
    then show ?thesis using get h by (simp add: head_loop.simps [of w mem ndl i] cstring_def)
  next
    case False
    have m: "drop (Suc i) mem = m" using h by (rule drop_Suc_of_Cons)
    have "head_loop w mem ndl i j sd idn =
        head_loop w mem ndl (Suc i) (Suc j) (sd + cval h - w c) (idn \<and> h = c)"
      using get c False by (simp add: head_loop.simps [of w mem ndl i])
    also have "\<dots> = Some (Suc i + min (length (cstring m)) (length ns),
        Suc j + min (length (cstring m)) (length ns),
        sd + cval h - w c + csum (take (min (length (cstring m)) (length ns)) (cstring m)) -
          sum_list (map w (take (min (length (cstring m)) (length ns)) ns)),
        (idn \<and> h = c) \<and> take (min (length (cstring m)) (length ns)) (cstring m) =
          take (min (length (cstring m)) (length ns)) ns)"
      using Cons.IH [of "Suc i" "Suc j" "sd + cval h - w c" "idn \<and> h = c"] Cons.prems h False m
        drop_Suc_of_Cons [of j ndl c] by simp
    finally show ?thesis
      using h False by (auto simp: cstring_def algebra_simps)
  qed
qed

text \<open>The sum of a window, and the sum after the window moved by one position.\<close>

lemma take_Suc_drop:
  "j + n < length xs \<Longrightarrow> take (Suc n) (drop j xs) = take n (drop j xs) @ [xs ! (j + n)]"
  by (simp add: take_Suc_conv_app_nth)

lemma csum_slide:
  assumes "j + n < length hay" "0 < n"
  shows "csum (take n (drop j hay)) - cval (hay ! j) + cval (hay ! (j + n)) =
    csum (take n (drop (Suc j) hay))"
proof -
  have "csum (take n (drop j hay)) + cval (hay ! (j + n)) = csum (take (Suc n) (drop j hay))"
    using take_Suc_drop [OF assms(1)] by simp
  also have "take (Suc n) (drop j hay) = hay ! j # take n (drop (Suc j) hay)"
    using assms(1) by (simp add: drop_eq_Cons)
  finally show ?thesis by (simp add: algebra_simps)
qed

lemma window_after_step:
  assumes "j < length hay"
  shows "window_after key pat hay j \<longleftrightarrow>
    window_at key pat hay (Suc j) \<or> window_after key pat hay (Suc j)"
proof -
  have "{j<..length hay} = insert (Suc j) {Suc j<..length hay}" using assms by auto
  then show ?thesis by (simp add: window_after_def)
qed

lemma window_after_end:
  "0 < length pat \<Longrightarrow> length hay \<le> j + length pat \<Longrightarrow> \<not> window_after key pat hay j"
  by (auto simp: window_after_def window_at_def)

text \<open>A position of the text, as a position of the memory that holds it.\<close>

lemma arr_get_text:
  assumes "drop p mem = hay @ 0 # z" "j \<le> length hay"
  shows "arr_get mem (p + j) = Some (if j < length hay then hay ! j else 0)"
proof -
  have "length (drop p mem) = Suc (length hay + length z)" using assms(1) by simp
  then have len: "p + j < length mem" using assms(2) by simp
  then have "mem ! (p + j) = (hay @ 0 # z) ! j"
    unfolding assms(1) [symmetric] by simp
  then show ?thesis using len assms(2) by (simp add: arr_get_def nth_append)
qed

lemma memcmp_text:
  assumes "drop p mem = hay @ 0 # z" "j + n \<le> length hay" "n \<le> length ndl"
  shows "memcmp_eq mem (p + j) ndl n = Some (take n (drop j hay) = take n ndl)"
proof -
  have "length (drop p mem) = Suc (length hay + length z)" using assms(1) by simp
  then have "p + j + n \<le> length mem" using assms(2) by simp
  moreover have "take n (drop (p + j) mem) = take n (drop j hay)"
    using assms(1,2) by (simp flip: drop_drop add: add.commute [of p j])
  ultimately show ?thesis using assms(3) by (simp add: memcmp_eq_def)
qed

lemma scan_loop_eq:
  assumes "drop p mem = hay @ 0 # z" "0 \<notin> set hay" "ndl = pat @ 0 # z'" "pat \<noteq> []"
    "j + length pat \<le> length hay"
  shows "scan_loop mem ndl (hd pat) (length pat - 1) (p + j) (p + j + length pat)
      (csum (take (length pat) (drop j hay)) - key) =
    Some (if window_after key pat hay j then 1 else 0)"
  using assms(5)
proof (induction "length hay - (j + length pat)" arbitrary: j)
  case 0
  then have "j + length pat = length hay" by simp
  then have "arr_get mem (p + j + length pat) = Some 0"
    using arr_get_text [OF assms(1), of "length hay"] by (simp add: add.assoc)
  moreover have "\<not> window_after key pat hay j"
    using 0 assms(4) by (intro window_after_end) auto
  ultimately show ?case by (simp add: scan_loop.simps)
next
  case (Suc d)
  let ?n = "length pat"
  have lt: "j + ?n < length hay" using Suc.hyps(2) by simp
  have pos: "0 < ?n" using assms(4) by simp
  then have lt': "Suc j < length hay" using lt by linarith
  have get: "arr_get mem (p + j + ?n) = Some (hay ! (j + ?n))"
    "arr_get mem (p + j) = Some (hay ! j)" "arr_get mem (Suc (p + j)) = Some (hay ! Suc j)"
    using lt lt' arr_get_text [OF assms(1), of "j + ?n"] arr_get_text [OF assms(1), of j]
      arr_get_text [OF assms(1), of "Suc j"]
    by (simp_all add: add.assoc)
  have nz: "hay ! (j + ?n) \<noteq> 0" using lt assms(2) by (metis nth_mem)
  have cmp: "memcmp_eq mem (Suc (p + j)) ndl (?n - 1) =
      Some (take (?n - 1) (drop (Suc j) hay) = take (?n - 1) pat)"
    using memcmp_text [OF assms(1), of "Suc j" "?n - 1" ndl] lt assms(3) by simp
  let ?sd = "csum (take ?n (drop (Suc j) hay)) - key"
  have sd: "csum (take ?n (drop j hay)) - key - cval (hay ! j) + cval (hay ! (j + ?n)) = ?sd"
    using csum_slide [OF lt pos] by (simp add: algebra_simps)
  have hit: "window_at key pat hay (Suc j) \<longleftrightarrow> ?sd = 0 \<and> hd pat = hay ! Suc j \<and>
      take (?n - 1) (drop (Suc j) hay) = take (?n - 1) pat"
    using lt by (auto simp: window_at_def)
  have "scan_loop mem ndl (hd pat) (?n - 1) (p + j) (p + j + ?n)
      (csum (take ?n (drop j hay)) - key) =
    (if window_at key pat hay (Suc j) then Some 1
     else scan_loop mem ndl (hd pat) (?n - 1) (p + Suc j) (p + Suc j + ?n) ?sd)"
    using hit
    by (simp add: scan_loop.simps [of mem ndl "hd pat" "?n - 1" "p + j" "p + j + ?n"]
        get nz cmp sd Let_def del: One_nat_def)
  also have "scan_loop mem ndl (hd pat) (?n - 1) (p + Suc j) (p + Suc j + ?n) ?sd =
      Some (if window_after key pat hay (Suc j) then 1 else 0)"
    using Suc.hyps(2) lt by (intro Suc.hyps(1)) simp_all
  finally show ?case
    by (subst window_after_step) (use lt in simp_all)
qed

section \<open>The search as a whole\<close>

text \<open>
  What both searches compute once a candidate for the first character is found: the text from
  there on starts with the pattern, or the scan finds a window.
\<close>

definition search :: "u32 \<Rightarrow> u8 list \<Rightarrow> u8 list \<Rightarrow> bool" where
  "search key pat hay \<longleftrightarrow>
     length pat \<le> length hay \<and> (take (length pat) hay = pat \<or> window_after key pat hay 0)"

text \<open>The text searched: from the first occurrence of a character to the next null character.\<close>

definition text_from :: "u8 \<Rightarrow> u8 list \<Rightarrow> u8 list" where
  "text_from c mem = cstring (dropWhile (\<lambda>b. b \<noteq> c) mem)"

lemma head_phase:
  assumes h: "drop k mem = hd pat # rest" and z: "0 \<in> set rest"
    and n: "needle = pat @ 0 # z'" "0 \<notin> set pat" "pat \<noteq> []"
  defines "hay \<equiv> hd pat # cstring rest"
  defines "kk \<equiv> min (length hay) (length pat)"
  shows "head_loop w mem needle (k + 1) 1 (cval (hd pat)) True =
    Some (k + kk, kk, csum (take kk hay) - sum_list (map w (tl (take kk pat))),
      take kk hay = take kk pat)"
proof -
  obtain c cs where pat: "pat = c # cs" using n(3) by (cases pat) auto
  have "drop (k + 1) mem = rest" using drop_Suc_of_Cons [OF h] by simp
  moreover have "drop 1 needle = cs @ 0 # z'" using n(1) pat by simp
  ultimately show ?thesis
    using head_loop_eq [of "k + 1" mem 1 needle cs z' w "cval c" True] z n(2)
    unfolding hay_def kk_def pat by (auto simp: min_Suc_Suc add.assoc)
qed

lemma tail_phase:
  assumes d: "drop k mem = hay @ 0 # z" "0 \<notin> set hay"
    and n: "needle = pat @ 0 # z'" "0 \<notin> set pat" "pat \<noteq> []"
  defines "kk \<equiv> min (length hay) (length pat)"
  assumes sd: "kk = length pat \<Longrightarrow> sd = csum (take kk hay) - key"
  shows "strstr_tail mem needle (hd pat) k (k + kk) kk sd (take kk hay = take kk pat) =
    Some (if search key pat hay then 1 else 0)"
proof (cases "length pat \<le> length hay")
  case True
  then have kk: "kk = length pat" by (simp add: kk_def)
  have "arr_get needle (length pat) = Some 0" using n(1) by (simp add: arr_get_def)
  moreover have "scan_loop mem needle (hd pat) (length pat - 1) k (k + length pat) sd =
      Some (if window_after key pat hay 0 then 1 else 0)"
    using scan_loop_eq [OF d n(1,3), of 0 key] True sd kk by simp
  ultimately show ?thesis using True kk by (simp add: strstr_tail_def search_def)
next
  case False
  then have kk: "kk < length pat" by (simp add: kk_def)
  then have "arr_get needle kk = Some (pat ! kk)" using n(1) by (simp add: arr_get_def nth_append)
  moreover have "pat ! kk \<noteq> 0" using kk n(2) by (metis nth_mem)
  ultimately show ?thesis using False by (simp add: strstr_tail_def search_def)
qed

text \<open>The situation in which a search looks for the pattern \<open>pat\<close> in a packet.\<close>

definition search_setting :: "u8 list \<Rightarrow> u8 list \<Rightarrow> u8 list \<Rightarrow> u32 \<Rightarrow> bool" where
  "search_setting needle pat mem pkt_len \<longleftrightarrow>
     (\<exists>z. needle = pat @ 0 # z) \<and> 0 \<notin> set pat \<and> pat \<noteq> [] \<and>
     0 < unat pkt_len \<and> unat pkt_len \<le> length mem \<and>
     (hd pat \<in> set (take (unat pkt_len) mem) \<longrightarrow> 0 \<in> set (dropWhile (\<lambda>b. b \<noteq> hd pat) mem))"

lemma takeWhile_length_less:
  "n \<le> length mem \<Longrightarrow>
     length (takeWhile (\<lambda>b. b \<noteq> c) mem) < n \<longleftrightarrow> c \<in> set (take n mem)"
proof (induction mem arbitrary: n)
  case Nil
  then show ?case by simp
next
  case (Cons b mem)
  show ?case
  proof (cases n)
    case (Suc m)
    then show ?thesis using Cons.IH [of m] Cons.prems by auto
  qed simp
qed

lemma search_start:
  assumes "search_setting needle pat mem pkt_len"
  shows "mystrchr mem 0 (hd pat) pkt_len =
    Some (if hd pat \<in> set (take (unat pkt_len) mem)
          then Some (length (takeWhile (\<lambda>b. b \<noteq> hd pat) mem)) else None)"
  using assms mystrchr_eq [of pkt_len 0 mem "hd pat"]
    takeWhile_length_less [of "unat pkt_len" mem "hd pat"]
  by (simp add: search_setting_def Let_def)

text \<open>The candidate position: what the memory holds from there on.\<close>

lemma search_candidate:
  assumes "search_setting needle pat mem pkt_len" "hd pat \<in> set (take (unat pkt_len) mem)"
  obtains k rest z where "k = length (takeWhile (\<lambda>b. b \<noteq> hd pat) mem)"
    "drop k mem = hd pat # rest" "0 \<in> set rest"
    "drop k mem = text_from (hd pat) mem @ 0 # z"
    "text_from (hd pat) mem = hd pat # cstring rest" "arr_get mem k = Some (hd pat)"
proof -
  let ?d = "dropWhile (\<lambda>b. b \<noteq> hd pat) mem"
  let ?k = "length (takeWhile (\<lambda>b. b \<noteq> hd pat) mem)"
  have d: "drop ?k mem = ?d" by (rule dropWhile_eq_drop [symmetric])
  have mem: "hd pat \<in> set mem" using assms(2) by (rule in_set_takeD)
  then have "?d \<noteq> []" by auto
  then obtain b rest where b: "?d = b # rest" by (cases ?d) auto
  then have "b = hd pat" using hd_dropWhile [of "\<lambda>b. b \<noteq> hd pat" mem] by simp
  have "0 \<notin> set pat" "pat \<noteq> []" using assms(1) by (simp_all add: search_setting_def)
  then have "hd pat \<noteq> 0" by (metis hd_in_set)
  moreover have "0 \<in> set ?d" using assms by (simp add: search_setting_def)
  ultimately have c: "hd pat \<noteq> 0" "0 \<in> set ?d" .
  then have "0 \<in> set rest" using b \<open>b = hd pat\<close> by auto
  moreover obtain z where "?d = text_from (hd pat) mem @ 0 # z"
    using cstring_split [OF c(2)] unfolding text_from_def by blast
  moreover have "text_from (hd pat) mem = hd pat # cstring rest"
    using b c \<open>b = hd pat\<close> by (simp add: text_from_def cstring_def)
  moreover have "arr_get mem ?k = Some (hd pat)"
    using d b \<open>b = hd pat\<close> by (simp add: arr_get_drop)
  ultimately show ?thesis using that [of ?k rest z] d b \<open>b = hd pat\<close> by simp
qed

text \<open>The result of both searches, with the sum each of them looks for.\<close>

lemma arr_get_needle: "search_setting needle pat mem pkt_len \<Longrightarrow> arr_get needle 0 = Some (hd pat)"
  by (auto simp: search_setting_def arr_get_def nth_append hd_conv_nth)

lemma fast_strstr_filter_one_eq:
  assumes "arr_get (fast_strstr_strings st) 0 = Some needle"
    and s: "search_setting needle pat mem pkt_len"
  shows "fast_strstr_filter_one st mem pkt_len =
    Some (if hd pat \<in> set (take (unat pkt_len) mem) \<and>
             search (csum (tl pat)) pat (text_from (hd pat) mem) then 1 else 0)"
proof (cases "hd pat \<in> set (take (unat pkt_len) mem)")
  case False
  then show ?thesis
    using assms(1) arr_get_needle [OF s] search_start [OF s]
    by (simp add: fast_strstr_filter_one_def)
next
  case True
  obtain k rest z where k: "k = length (takeWhile (\<lambda>b. b \<noteq> hd pat) mem)"
    and d: "drop k mem = hd pat # rest" "0 \<in> set rest"
      "drop k mem = text_from (hd pat) mem @ 0 # z"
      "text_from (hd pat) mem = hd pat # cstring rest" "arr_get mem k = Some (hd pat)"
    using s True by (rule search_candidate)
  obtain z' where n: "needle = pat @ 0 # z'" "0 \<notin> set pat" "pat \<noteq> []"
    using s by (auto simp: search_setting_def)
  define hay where "hay = text_from (hd pat) mem"
  define kk where "kk = min (length hay) (length pat)"
  have nz: "0 \<notin> set hay" by (simp add: hay_def text_from_def)
  have head: "head_loop cval mem needle (k + 1) 1 (cval (hd pat)) True =
      Some (k + kk, kk, csum (take kk hay) - csum (tl (take kk pat)), take kk hay = take kk pat)"
    using head_phase [OF d(1,2) n, of cval] d(4) by (simp add: hay_def kk_def csum_def)
  have "strstr_tail mem needle (hd pat) k (k + kk) kk (csum (take kk hay) - csum (tl (take kk pat)))
      (take kk hay = take kk pat) = Some (if search (csum (tl pat)) pat hay then 1 else 0)"
    unfolding kk_def by (rule tail_phase) (use d(3) nz n in \<open>simp_all add: hay_def\<close>)
  then show ?thesis
    using assms(1) arr_get_needle [OF s] search_start [OF s] True head d(5)
    by (simp add: fast_strstr_filter_one_def hay_def flip: k)
qed

lemma fast_strstr_filter_one_hashed_eq:
  assumes "arr_get (fast_strstr_strings st) 4 = Some needle"
    and t: "arr_get (strings_tree_t st) 0 = Some t"
    and s: "search_setting needle pat mem pkt_len"
  shows "fast_strstr_filter_one_hashed st mem pkt_len =
    Some (if hd pat \<in> set (take (unat pkt_len) mem) \<and>
             search (word_of_int (tree_key t)) pat (text_from (hd pat) mem) then 1 else 0)"
proof (cases "hd pat \<in> set (take (unat pkt_len) mem)")
  case False
  then show ?thesis
    using assms(1) arr_get_needle [OF s] search_start [OF s]
    by (simp add: fast_strstr_filter_one_hashed_def)
next
  case True
  obtain k rest z where k: "k = length (takeWhile (\<lambda>b. b \<noteq> hd pat) mem)"
    and d: "drop k mem = hd pat # rest" "0 \<in> set rest"
      "drop k mem = text_from (hd pat) mem @ 0 # z"
      "text_from (hd pat) mem = hd pat # cstring rest" "arr_get mem k = Some (hd pat)"
    using s True by (rule search_candidate)
  obtain z' where n: "needle = pat @ 0 # z'" "0 \<notin> set pat" "pat \<noteq> []"
    using s by (auto simp: search_setting_def)
  define hay where "hay = text_from (hd pat) mem"
  define kk where "kk = min (length hay) (length pat)"
  have nz: "0 \<notin> set hay" by (simp add: hay_def text_from_def)
  have head: "head_loop (\<lambda>_. 0) mem needle (k + 1) 1 (cval (hd pat)) True =
      Some (k + kk, kk, csum (take kk hay), take kk hay = take kk pat)"
    using head_phase [OF d(1,2) n, of "\<lambda>_. 0"] d(4)
    by (simp add: hay_def kk_def map_replicate_const sum_list_replicate)
  have "strstr_tail mem needle (hd pat) k (k + kk) kk
      (csum (take kk hay) - word_of_int (tree_key t)) (take kk hay = take kk pat) =
      Some (if search (word_of_int (tree_key t)) pat hay then 1 else 0)"
    unfolding kk_def by (rule tail_phase) (use d(3) nz n in \<open>simp_all add: hay_def\<close>)
  then show ?thesis
    using assms(1) t arr_get_needle [OF s] search_start [OF s] True head d(5)
    by (simp add: fast_strstr_filter_one_hashed_def hay_def flip: k)
qed

section \<open>Windows and occurrences\<close>

text \<open>Two lists of one length that agree on all but the last element, and the last elements.\<close>

lemma window_last:
  assumes "j + length pat \<le> length hay" "pat \<noteq> []"
    "take (length pat - 1) (drop j hay) = take (length pat - 1) pat"
  shows "take (length pat) (drop j hay) = butlast pat @ [hay ! (j + (length pat - 1))]"
proof -
  have "take (Suc (length pat - 1)) (drop j hay) =
      take (length pat - 1) (drop j hay) @ [hay ! (j + (length pat - 1))]"
    using assms(1,2) by (intro take_Suc_drop) (cases pat, simp_all)
  then show ?thesis using assms(2,3) by (simp add: butlast_conv_take)
qed

lemma csum_butlast: "pat \<noteq> [] \<Longrightarrow> csum (butlast pat) + cval (last pat) = csum pat"
  by (induction pat) auto

lemma window_at_occurrence:
  assumes "pat \<noteq> []"
  shows "window_at (csum pat) pat hay j \<longleftrightarrow>
    j + length pat \<le> length hay \<and> take (length pat) (drop j hay) = pat"
proof
  assume w: "window_at (csum pat) pat hay j"
  then have j: "j + length pat \<le> length hay" by (simp add: window_at_def)
  let ?c = "hay ! (j + (length pat - 1))"
  have win: "take (length pat) (drop j hay) = butlast pat @ [?c]"
    using w assms by (intro window_last) (simp_all add: window_at_def)
  then have "csum (butlast pat) + cval ?c = csum pat" using w by (simp add: window_at_def)
  then have "csum (butlast pat) + cval ?c = csum (butlast pat) + cval (last pat)"
    using csum_butlast [OF assms] by simp
  then have "?c = last pat" by simp
  with win j assms show "j + length pat \<le> length hay \<and> take (length pat) (drop j hay) = pat"
    by simp
next
  assume j: "j + length pat \<le> length hay \<and> take (length pat) (drop j hay) = pat"
  then have "j < length hay" using assms by (cases pat) auto
  then have "hay ! j = hd (take (length pat) (drop j hay))"
    using assms by (simp only: hd_take length_greater_0_conv not_False_eq_True hd_drop_conv_nth)
  then have "hay ! j = hd pat" using j by simp
  moreover have "take (length pat - 1) (drop j hay) = take (length pat - 1) pat"
    using arg_cong [OF conjunct2 [OF j], of "take (length pat - 1)"] by simp
  ultimately show "window_at (csum pat) pat hay j"
    using j by (simp add: window_at_def)
qed

lemma sublist_iff_take_drop:
  "sublist xs ys \<longleftrightarrow> (\<exists>j. j + length xs \<le> length ys \<and> take (length xs) (drop j ys) = xs)"
proof
  assume "sublist xs ys"
  then obtain ps ss where "ys = ps @ xs @ ss" by (auto simp: sublist_def)
  then show "\<exists>j. j + length xs \<le> length ys \<and> take (length xs) (drop j ys) = xs"
    by (intro exI [where x = "length ps"]) simp
next
  assume "\<exists>j. j + length xs \<le> length ys \<and> take (length xs) (drop j ys) = xs"
  then obtain j where "take (length xs) (drop j ys) = xs" by blast
  moreover have "sublist (take (length xs) (drop j ys)) ys"
    by (rule sublist_order.order_trans [OF sublist_take sublist_drop])
  ultimately show "sublist xs ys" by simp
qed

lemma exists_0_or_pos: "P 0 \<or> (\<exists>j. 0 < j \<and> P j) \<longleftrightarrow> (\<exists>j :: nat. P j)"
  by (metis gr0I)

text \<open>With the sum of the pattern as the key, the search finds exactly the occurrences.\<close>

lemma search_iff_sublist:
  assumes "pat \<noteq> []"
  shows "search (csum pat) pat hay \<longleftrightarrow> sublist pat hay"
proof -
  let ?P = "\<lambda>j. j + length pat \<le> length hay \<and> take (length pat) (drop j hay) = pat"
  have "search (csum pat) pat hay \<longleftrightarrow> ?P 0 \<or> (\<exists>j. 0 < j \<and> ?P j)"
    unfolding search_def window_after_def window_at_occurrence [OF assms] by fastforce
  also have "\<dots> \<longleftrightarrow> (\<exists>j. ?P j)" by (rule exists_0_or_pos)
  finally show ?thesis unfolding sublist_iff_take_drop .
qed

text \<open>
  With the sum of the pattern less its first character as the key, the scan accepts exactly the
  windows whose last character differs from that of the pattern by the first one.
\<close>

lemma window_at_shifted:
  assumes "pat \<noteq> []" "hd pat \<noteq> 0"
  shows "window_at (csum (tl pat)) pat hay j \<longleftrightarrow>
    2 \<le> length pat \<and> j + length pat \<le> length hay \<and>
    take (length pat - 1) (drop j hay) = butlast pat \<and> hd pat = hay ! j \<and>
    cval (hay ! (j + (length pat - 1))) + cval (hd pat) = cval (last pat)"
proof (cases "j + length pat \<le> length hay \<and> take (length pat - 1) (drop j hay) = butlast pat")
  case False
  then show ?thesis by (auto simp: window_at_def butlast_conv_take)
next
  case True
  let ?c = "hay ! (j + (length pat - 1))"
  have win: "take (length pat) (drop j hay) = butlast pat @ [?c]"
    using True assms(1) by (intro window_last) (simp_all add: butlast_conv_take)
  have tl: "csum (tl pat) + cval (hd pat) = csum pat" using assms(1) by (cases pat) simp_all
  have key: "csum (butlast pat) + cval ?c = csum (tl pat) \<longleftrightarrow>
      cval ?c + cval (hd pat) = cval (last pat)"
  proof -
    have "csum (butlast pat) + cval ?c = csum (tl pat) \<longleftrightarrow>
        csum (butlast pat) + cval ?c + cval (hd pat) = csum pat"
      unfolding tl [symmetric] by simp
    also have "\<dots> \<longleftrightarrow> cval ?c + cval (hd pat) = cval (last pat)"
      unfolding csum_butlast [OF assms(1), symmetric] by (simp add: add.assoc)
    finally show ?thesis .
  qed
  have two: "2 \<le> length pat" if "cval ?c + cval (hd pat) = cval (last pat)" "hd pat = hay ! j"
  proof (rule ccontr)
    assume "\<not> 2 \<le> length pat"
    then obtain c where "pat = [c]" using assms(1) by (cases pat) (auto simp: Suc_le_eq)
    then have "last pat = hd pat" "length pat - 1 = 0" by simp_all
    then have "cval (hd pat) = 0" using that by simp
    then have "cval (hd pat) = cval 0" by (simp add: cval_def)
    with assms(2) show False by simp
  qed
  have "window_at (csum (tl pat)) pat hay j \<longleftrightarrow>
      cval ?c + cval (hd pat) = cval (last pat) \<and> hd pat = hay ! j"
    using True
    by (simp only: window_at_def win csum_simps key [unfolded butlast_conv_take] butlast_conv_take
        add_0_right simp_thms eq_commute [of "hay ! j"])
  with True two show ?thesis by blast
qed

section \<open>Properties\<close>

text \<open>The patterns and a packet of the examples: the pattern \<open>ab\<close> and the text \<open>xaab\<close>.\<close>

definition demo_strings :: fast_strstr_state where
  "demo_strings = \<lparr>fast_strstr_strings = replicate 5 [97, 98, 0],
                   strings_tree_t = replicate 5 \<lparr>tree_key = 195, tree_value = 0\<rparr>\<rparr>"

definition demo_text :: "u8 list" where
  "demo_text = [120, 97, 97, 98, 0]"

lemma demo_setting: "search_setting [97, 98, 0] [97, 98] demo_text 4"
  unfolding search_setting_def demo_text_def by simp

text \<open>
  C34: The search that the engine uses is exact when its key is right: if entry 0 of the key
  table holds the sum of the characters of pattern 4, the packet is not empty, and a null
  character follows the candidate position in memory, then the search answers 1 if and only if
  the pattern's first character occurs in the packet and the pattern occurs in the text from
  that position to the null character. No read leaves the memory.
\<close>

theorem fast_strstr_hashed_exact:
  assumes "arr_get (fast_strstr_strings st) 4 = Some needle"
    "arr_get (strings_tree_t st) 0 = Some t"
    "search_setting needle pat mem pkt_len"
    "word_of_int (tree_key t) = csum pat"
  shows "fast_strstr_filter_one_hashed st mem pkt_len =
    Some (if hd pat \<in> set (take (unat pkt_len) mem) \<and> sublist pat (text_from (hd pat) mem)
          then 1 else 0)"
proof -
  have "pat \<noteq> []" using assms(3) by (simp add: search_setting_def)
  then show ?thesis
    using fast_strstr_filter_one_hashed_eq [OF assms(1-3)] assms(4) search_iff_sublist by simp
qed

theorem fast_strstr_hashed_exact_witness:
  "fast_strstr_filter_one_hashed demo_strings demo_text 4 =
     Some (if 97 \<in> set (take (unat (4 :: u32)) demo_text) \<and> sublist [97, 98] (text_from 97 demo_text)
           then 1 else 0)"
proof -
  have "arr_get (fast_strstr_strings demo_strings) 4 = Some [97, 98, 0]"
    "arr_get (strings_tree_t demo_strings) 0 = Some \<lparr>tree_key = 195, tree_value = 0\<rparr>"
    by (simp_all add: demo_strings_def arr_get_def)
  moreover have "word_of_int (tree_key \<lparr>tree_key = 195, tree_value = 0\<rparr>) = csum [97, 98]"
    by (simp add: cval_def)
  ultimately show ?thesis
    using fast_strstr_hashed_exact [of demo_strings "[97, 98, 0]" _ "[97, 98]" demo_text 4]
      demo_setting by (simp add: demo_strings_def)
qed

text \<open>
  The search without precomputed keys finds the pattern only at the first occurrence of
  its first character. After that it answers 1 exactly at windows that are \<^emph>\<open>not\<close> the pattern:
  they agree with it on all characters but the last, and their last character is smaller than
  that of the pattern by the value of the first one (the first character of the pattern is
  never subtracted from the sum).
\<close>

lemma fast_strstr_filter_one_exact:
  assumes "arr_get (fast_strstr_strings st) 0 = Some needle"
    "search_setting needle pat mem pkt_len"
  defines "hay \<equiv> text_from (hd pat) mem"
  shows "fast_strstr_filter_one st mem pkt_len =
    Some (if hd pat \<in> set (take (unat pkt_len) mem) \<and> length pat \<le> length hay \<and>
             (take (length pat) hay = pat \<or>
              (\<exists>j\<in>{0<..length hay}. 2 \<le> length pat \<and> j + length pat \<le> length hay \<and>
                take (length pat - 1) (drop j hay) = butlast pat \<and> hd pat = hay ! j \<and>
                cval (hay ! (j + (length pat - 1))) + cval (hd pat) = cval (last pat)))
          then 1 else 0)"
proof -
  have p: "pat \<noteq> []" "0 \<notin> set pat" using assms(2) by (simp_all add: search_setting_def)
  then have "hd pat \<noteq> 0" by (metis hd_in_set)
  then show ?thesis
    using fast_strstr_filter_one_eq [OF assms(1,2)] window_at_shifted [OF p(1)]
    by (simp add: search_def window_after_def hay_def)
qed

lemma fast_strstr_filter_one_exact_witness:
  "fast_strstr_filter_one demo_strings demo_text 4 = Some 0 \<and> sublist [97, 98] demo_text"
proof -
  have s: "arr_get (fast_strstr_strings demo_strings) 0 = Some [97, 98, 0]"
    by (simp add: demo_strings_def arr_get_def)
  have hay: "text_from 97 demo_text = [97, 97, 98]"
    by (simp add: text_from_def demo_text_def cstring_def)
  have "{0<..3} = {1, 2, 3 :: nat}" by auto
  then have "fast_strstr_filter_one demo_strings demo_text 4 = Some 0"
    using fast_strstr_filter_one_exact [OF s demo_setting] by (simp add: hay cval_def)
  moreover have "sublist [97, 98] demo_text"
    unfolding demo_text_def sublist_def by (intro exI [of _ "[120, 97]"] exI [of _ "[0]"]) simp
  ultimately show ?thesis by blast
qed

end
