(* ===== verification/Small_Utils.thy ===== *)
theory Small_Utils
  imports C_Library
begin

text \<open>
  The arithmetic helpers of \<^verbatim>\<open>src/debug.c\<close> and the parser of Ethernet addresses of
  \<^verbatim>\<open>src/aton.c\<close>.
\<close>

section \<open>Definitions\<close>

text \<open>\<open>lg\<close>: the loop that counts the bits of a number.\<close>

lemma unat_shift1 [simp]: "unat (drop_bit (Suc 0) (a :: u32)) = unat a div 2"
  by (simp add: drop_bit_Suc unat_div)

function lg_loop :: "nat \<Rightarrow> u32 \<Rightarrow> nat" where
  "lg_loop bits a = (if a \<noteq> 0 then lg_loop (bits + 1) (drop_bit 1 a) else bits)"
  by pat_completeness auto
termination
  by (relation "measure (\<lambda>(bits, a). unat a)") (auto simp: unat_gt_0)

definition lg :: "u32 \<Rightarrow> nat" where
  "lg a = lg_loop 0 a"

definition addition_overflow :: "u32 \<Rightarrow> u32 \<Rightarrow> bool" where
  "addition_overflow a b \<longleftrightarrow> lg a < 32 \<and> lg b < 32"

text \<open>A \<^verbatim>\<open>char\<close> read as an unsigned number after integer promotion.\<close>

definition promote :: "char \<Rightarrow> u32" where
  "promote c = scast (of_char c :: u8)"

definition xdigit :: "char \<Rightarrow> int" where
  "xdigit c =
     (let d = promote c - 48 in if d < 10 then uint d
      else let d = promote c - 97 in if d < 6 then 10 + uint d
      else let d = promote c - 65 in if d < 6 then 10 + uint d
      else - 1)"

definition ETHER_ADDR_LEN :: nat where
  "ETHER_ADDR_LEN = 6"

text \<open>The character a string pointer points to: null at the end of the string.\<close>

definition deref :: "string \<Rightarrow> char" where
  "deref s = (case s of [] \<Rightarrow> CHR 0x00 | c # _ \<Rightarrow> c)"

text \<open>
  \<open>ether_aton_r\<close>: the loop on the index \<open>i\<close>, with the unread text and the address written so
  far; the result is the address, or null with what was written before the error.
\<close>

function ether_aton_loop :: "nat \<Rightarrow> string \<Rightarrow> u8 list \<Rightarrow> bool \<times> u8 list" where
  "ether_aton_loop i asc addr =
     (if i < ETHER_ADDR_LEN then
        (let val0 = xdigit (deref asc); asc = tl asc
         in if val0 < 0 then (False, addr)
            else let val1 = xdigit (deref asc); asc = tl asc
            in if val1 < 0 then (False, addr)
               else let addr = addr[i := word_of_int (val0 * 16 + val1)]
               in if i < ETHER_ADDR_LEN - 1 then
                    (if deref asc \<noteq> CHR '':'' then (False, addr)
                     else ether_aton_loop (Suc i) (tl asc) addr)
                  else ether_aton_loop (Suc i) asc addr)
      else (deref asc = CHR 0x00, addr))"
  by pat_completeness auto
termination
  by (relation "measure (\<lambda>(i, asc, addr). ETHER_ADDR_LEN - i)") auto

definition ether_aton_r :: "string \<Rightarrow> u8 list \<Rightarrow> bool \<times> u8 list" where
  "ether_aton_r asc addr = ether_aton_loop 0 asc addr"

text \<open>\<open>ether_aton\<close> works on a static address, which keeps what the last call has written.\<close>

definition ether_aton :: "string \<Rightarrow> u8 list \<Rightarrow> u8 list option \<times> u8 list" where
  "ether_aton asc static_addr =
     (case ether_aton_r asc static_addr of (ok, addr) \<Rightarrow> (if ok then Some addr else None, addr))"

section \<open>Facts on \<open>lg\<close>\<close>

declare lg_loop.simps [simp del] ether_aton_loop.simps [simp del]

lemma lg_loop_0 [simp]: "lg_loop b 0 = b"
  by (subst lg_loop.simps) simp

lemma lg_loop_ge: "b \<le> lg_loop b a"
proof (induction b a rule: lg_loop.induct)
  case (1 b a)
  then show ?case by (cases "a = 0") (auto simp: lg_loop.simps [of b a])
qed

lemma lg_loop_le_iff: "lg_loop b a \<le> b + k \<longleftrightarrow> unat a < 2 ^ k"
proof (induction b a arbitrary: k rule: lg_loop.induct)
  case (1 b a)
  show ?case
  proof (cases "a = 0")
    case True
    then show ?thesis by simp
  next
    case False
    then have pos: "0 < unat a" by (simp add: unat_gt_0)
    show ?thesis
    proof (cases k)
      case 0
      have "Suc b \<le> lg_loop (b + 1) (drop_bit 1 a)" using lg_loop_ge [of "b + 1"] by simp
      then show ?thesis using False pos 0 by (simp add: lg_loop.simps [of b a])
    next
      case (Suc j)
      have "lg_loop (b + 1) (drop_bit 1 a) \<le> (b + 1) + j \<longleftrightarrow> unat (drop_bit 1 a) < 2 ^ j"
        using False by (rule "1.IH")
      then show ?thesis using False Suc by (simp add: lg_loop.simps [of b a]) linarith
    qed
  qed
qed

lemma lg_le_iff: "lg a \<le> k \<longleftrightarrow> unat a < 2 ^ k"
  using lg_loop_le_iff [of 0 a k] by (simp add: lg_def)

lemma addition_overflow_iff:
  "addition_overflow a b \<longleftrightarrow> unat a < 2 ^ 31 \<and> unat b < 2 ^ 31"
  using lg_le_iff [of a 31] lg_le_iff [of b 31] by (auto simp: addition_overflow_def)

section \<open>Facts on Ethernet addresses\<close>

text \<open>The standard text of an address: two hexadecimal digits a byte, colons between.\<close>

definition hex_char :: "nat \<Rightarrow> char" where
  "hex_char d = char_of (if d < 10 then 48 + d else 87 + d)"

definition show_byte :: "u8 \<Rightarrow> string" where
  "show_byte b = [hex_char (unat b div 16), hex_char (unat b mod 16)]"

fun show_mac :: "u8 list \<Rightarrow> string" where
  "show_mac [] = []"
| "show_mac [b] = show_byte b"
| "show_mac (b # bs) = show_byte b @ CHR '':'' # show_mac bs"

lemma xdigit_hex_char [simp]: "d < 16 \<Longrightarrow> xdigit (hex_char d) = int d"
proof -
  assume "d < 16"
  then have "d \<in> set [0..<16]" by simp
  moreover have "\<forall>d\<in>set [0..<16]. xdigit (hex_char d) = int d" by code_simp
  ultimately show ?thesis by blast
qed

lemma nibbles [simp]: "of_nat (unat b div 16) * 16 + of_nat (unat b mod 16) = (b :: u8)"
proof -
  have "of_nat (unat b div 16 * 16 + unat b mod 16) = b"
    unfolding div_mult_mod_eq by simp
  then show ?thesis unfolding of_nat_add of_nat_mult by simp
qed

lemma nibble_bounds [simp]: "unat (b :: u8) div 16 < 16" "unat (b :: u8) mod 16 < 16"
  using unsigned_less [where 'a = nat, of b] by simp_all

lemma deref_Cons [simp]: "deref (c # s) = c" "deref [] = CHR 0x00"
  by (simp_all add: deref_def)

lemma ether_aton_byte:
  "i < 5 \<Longrightarrow> ether_aton_loop i (show_byte b @ CHR '':'' # rest) addr =
     ether_aton_loop (Suc i) rest (addr[i := b])"
  by (subst ether_aton_loop.simps) (simp add: show_byte_def ETHER_ADDR_LEN_def Let_def)

lemma ether_aton_end:
  "ETHER_ADDR_LEN \<le> i \<Longrightarrow> ether_aton_loop i asc addr = (deref asc = CHR 0x00, addr)"
  by (subst ether_aton_loop.simps) simp

lemma ether_aton_last:
  "ether_aton_loop (Suc (Suc (Suc (Suc (Suc 0))))) (show_byte b) addr =
     (True, addr[Suc (Suc (Suc (Suc (Suc 0)))) := b])"
  by (subst ether_aton_loop.simps)
    (simp add: ether_aton_end show_byte_def ETHER_ADDR_LEN_def Let_def)

lemma ether_aton_bytes:
  assumes "length addr = 6"
  shows "ether_aton_r (show_mac [b0, b1, b2, b3, b4, b5]) addr = (True, [b0, b1, b2, b3, b4, b5])"
  using assms
  by (auto simp: ether_aton_r_def ether_aton_byte ether_aton_last
      numeral_eq_Suc length_Suc_conv)

section \<open>Properties\<close>

text \<open>
  Every Ethernet address is read back from its standard text: \<open>ether_aton_r\<close> on the text
  of six bytes, two hexadecimal digits each and colons between, succeeds and stores those bytes.
\<close>

lemma ether_aton_round_trip:
  assumes "length mac = ETHER_ADDR_LEN" "length addr = ETHER_ADDR_LEN"
  shows "ether_aton_r (show_mac mac) addr = (True, mac)"
proof -
  obtain b0 b1 b2 b3 b4 b5 where "mac = [b0, b1, b2, b3, b4, b5]"
    using assms(1) by (auto simp: ETHER_ADDR_LEN_def numeral_eq_Suc length_Suc_conv)
  then show ?thesis using ether_aton_bytes assms(2) by (simp add: ETHER_ADDR_LEN_def)
qed

lemma ether_aton_round_trip_witness:
  "ether_aton_r (show_mac [0, 27, 33, 160, 255, 1]) [0, 0, 0, 0, 0, 0] =
     (True, [0, 27, 33, 160, 255, 1])"
  using ether_aton_round_trip [of "[0, 27, 33, 160, 255, 1]" "[0, 0, 0, 0, 0, 0]"]
  by (simp add: ETHER_ADDR_LEN_def)

text \<open>
  The guard \<open>addition_overflow\<close> is sound: \<open>lg\<close> is the number of bits of its argument, and
  when the guard answers 1 the 32-bit sum of its arguments does not wrap around. (It is not
  complete: it also refuses sums that fit, as soon as one argument has 32 bits.)
\<close>

lemma addition_overflow_sound:
  "(\<forall>k. lg a \<le> k \<longleftrightarrow> unat a < 2 ^ k) \<and>
   (addition_overflow a b \<longleftrightarrow> unat a < 2 ^ 31 \<and> unat b < 2 ^ 31) \<and>
   (addition_overflow a b \<longrightarrow> unat (a + b) = unat a + unat b)"
proof -
  have "unat (a + b) = unat a + unat b" if "addition_overflow a b"
    using that by (simp add: addition_overflow_iff unat_word_ariths)
  then show ?thesis using lg_le_iff addition_overflow_iff by blast
qed

end
