(* ===== verification/Fast_Str_Compile.thy ===== *)
theory Fast_Str_Compile
  imports Fast_Strstr Small_Utils
begin

text \<open>
  The compilation of the pattern file of the string engine (\<^verbatim>\<open>fast_str_compile\<close>,
  \<^verbatim>\<open>fast_str_init\<close> and \<^verbatim>\<open>fast_str_end\<close> of \<^verbatim>\<open>src/fast_strstr.c\<close>). The first line of the
  file is the number of patterns, every further line one pattern in lower-case hexadecimal.
  The files of the system are a function from paths to contents, \<open>rte_malloc\<close> a function from
  the size asked for to the number of usable bytes of the block (or null); the GLib tree is
  the list of its keys and values. It is created with \<^verbatim>\<open>free\<close> as the destructor of keys and values, and they
  point into a block of \<open>rte_malloc\<close>: an insertion of a key that is in the tree already, which
  destroys the key that is passed and the old value, hands such pointers to \<^verbatim>\<open>free\<close>.
\<close>

section \<open>Definitions\<close>

definition FAST_STR_MAX_NUM :: nat where
  "FAST_STR_MAX_NUM = 32"

definition FAST_STR_MAX_STRING_SIZE :: nat where
  "FAST_STR_MAX_STRING_SIZE = 1200"

record strings_nb_s =
  nb_key :: u8
  nb_value :: int

record fast_str_globals = fast_strstr_state +
  strings_nb :: int
  strings_nb_t :: "strings_nb_s list"
  fast_strstr_tree :: "(int \<times> int) list"

text \<open>A \<^verbatim>\<open>char\<close> as a signed number.\<close>

definition schar :: "char \<Rightarrow> int" where
  "schar c = sint (of_char c :: u8)"

definition getVal :: "char \<Rightarrow> int" where
  "getVal c = (if 48 \<le> schar c \<and> schar c \<le> 57 then schar c - 48 else schar c - 97 + 10)"

text \<open>
  The loop over the pairs of digits of one line, with the unread file, \<open>len\<close>, \<open>tmp\<close> and \<open>hash\<close>.
  \<open>Inl\<close> is a returned error. (The sum of at most 1200 values below 681 stays in the range of
  \<^verbatim>\<open>int\<close>.)
\<close>

function compile_line ::
  "string \<Rightarrow> nat \<Rightarrow> u8 list \<Rightarrow> int \<Rightarrow> (int + string \<times> nat \<times> u8 list \<times> int) option" where
  "compile_line fp len tmp hash =
     (let (c, fp) = fgetc_char fp
      in if c = CHR 0x0A then Some (Inr (fp, len, tmp, hash))
         else let (d, fp) = fgetc_char fp
         in if d = CHR 0x0A then Some (Inl (- 1))
            else let val = getVal c * 16 + getVal d
            in case arr_set tmp len (word_of_int val) of
                 None \<Rightarrow> None
               | Some tmp' \<Rightarrow>
                   if len + 1 > FAST_STR_MAX_STRING_SIZE then Some (Inl (- 1))
                   else if \<not> addition_overflow (word_of_int (hash + val)) (word_of_int val)
                   then Some (Inl (- 1))
                   else compile_line fp (len + 1) tmp' (hash + val))"
  by pat_completeness auto
termination
  by (relation "measure (\<lambda>(fp, len, tmp, hash). length tmp - len)")
    (auto simp: arr_set_def split: if_splits)

text \<open>\<open>strncpy\<close> copies up to a null character and fills up with null characters.\<close>

definition strncpy :: "u8 list \<Rightarrow> nat \<Rightarrow> u8 list" where
  "strncpy src n =
     (let t = takeWhile (\<lambda>b. b \<noteq> 0) (take n src) in t @ replicate (n - length t) 0)"

text \<open>
  One line: the key, the insertion in the tree (undefined for a key that is there already), the
  terminator, the length entry and the copy into a block of \<open>len\<close> bytes, into which \<open>len + 1\<close> bytes
  are written.
\<close>

definition store_pattern ::
  "(nat \<Rightarrow> nat option) \<Rightarrow> nat \<Rightarrow> nat \<Rightarrow> u8 list \<Rightarrow> int \<Rightarrow> fast_str_globals \<Rightarrow>
   fast_str_globals option" where
  "store_pattern rte_malloc i len tmp hash g = do {
     tree \<leftarrow> arr_set (strings_tree_t g) i \<lparr>tree_key = hash, tree_value = int i\<rparr>;
     tree_ok \<leftarrow> (if hash \<in> set (map fst (fast_strstr_tree g)) then None else Some ());
     let g = g\<lparr>strings_tree_t := tree, fast_strstr_tree := fast_strstr_tree g @ [(hash, int i)]\<rparr>;
     tmp \<leftarrow> arr_set tmp len 0;
     let len = len + 1;
     nbs \<leftarrow> arr_set (strings_nb_t g) i \<lparr>nb_key = of_nat (len - 1), nb_value = int i\<rparr>;
     let g = g\<lparr>strings_nb_t := nbs\<rparr>;
     usable \<leftarrow> rte_malloc len;
     if usable \<le> len then None
     else do {
       strs \<leftarrow> arr_set (fast_strstr_strings g) i (strncpy tmp len @ [0]);
       Some (g\<lparr>fast_strstr_strings := strs\<rparr>)
     }
   }"

text \<open>
  The order that \<open>qsort\<close> is given. The table is sorted with a stable sort; which of the orders that are
  sorted by length \<open>qsort\<close> produces is not specified.
\<close>

definition cmpfunc :: "strings_nb_s \<Rightarrow> strings_nb_s \<Rightarrow> int" where
  "cmpfunc a b = uint (nb_key a) - uint (nb_key b)"

text \<open>The order of the tree of keys.\<close>

definition compare_keys :: "int \<Rightarrow> int \<Rightarrow> int" where
  "compare_keys pa pb = (if pa < pb then - 1 else if pa > pb then 1 else 0)"

lemma cmpfunc_sorted: "sorted_wrt (\<lambda>a b. cmpfunc a b \<le> 0) (sort_key (\<lambda>e. unat (nb_key e)) xs)"
proof -
  have "sorted_wrt (\<lambda>a b. unat (nb_key a) \<le> unat (nb_key b)) (sort_key (\<lambda>e. unat (nb_key e)) xs)"
    using sorted_sort_key [of "\<lambda>e. unat (nb_key e)" xs] by (simp only: sorted_map)
  then show ?thesis
    by (rule sorted_wrt_mono_rel [rotated]) (simp add: cmpfunc_def word_le_def flip: word_le_nat_alt)
qed

function compile_lines ::
  "(nat \<Rightarrow> nat option) \<Rightarrow> nat \<Rightarrow> nat \<Rightarrow> string \<Rightarrow> fast_str_globals \<Rightarrow>
   (int \<times> fast_str_globals) option" where
  "compile_lines rte_malloc lines_nb i fp g =
     (if i < lines_nb then
        (case compile_line fp 0 (replicate FAST_STR_MAX_STRING_SIZE 0) 0 of
           None \<Rightarrow> None
         | Some (Inl e) \<Rightarrow> Some (e, g)
         | Some (Inr (fp, len, tmp, hash)) \<Rightarrow>
             (case store_pattern rte_malloc i len tmp hash g of
                None \<Rightarrow> None
              | Some g \<Rightarrow> compile_lines rte_malloc lines_nb (i + 1) fp g))
      else Some (0, g\<lparr>strings_nb_t := sort_key (\<lambda>e. unat (nb_key e)) (strings_nb_t g)\<rparr>))"
  by pat_completeness auto
termination
  by (relation "measure (\<lambda>(m, n, i, fp, g). n - i)") auto

text \<open>
  The three tables are allocated before the first is checked: a null first table ends the
  process, another null table is written through later (undefined). A negative number of lines
  is a huge size.
\<close>

definition table_alloc :: "(nat \<Rightarrow> nat option) \<Rightarrow> nat \<Rightarrow> int \<Rightarrow> 'a \<Rightarrow> 'a list option" where
  "table_alloc rte_malloc elem_size n x =
     (case rte_malloc (nat (n mod 2 ^ 64) * elem_size mod 2 ^ 64) of
        None \<Rightarrow> None
      | Some _ \<Rightarrow> Some (replicate (nat n) x))"

definition fast_str_compile ::
  "(string \<Rightarrow> string option) \<Rightarrow> (nat \<Rightarrow> nat option) \<Rightarrow> string \<Rightarrow> fast_str_globals \<Rightarrow>
   (int proc_outcome \<times> fast_str_globals) option" where
  "fast_str_compile fopen rte_malloc file_path g =
     (case fopen file_path of
        None \<Rightarrow> Some (Return (- 1), g)
      | Some fp \<Rightarrow>
     (case fgets FAST_STR_MAX_NUM fp of
        None \<Rightarrow> Some (Return (- 1), g)
      | Some (buff, fp) \<Rightarrow>
     (case sscanf_d (c_str buff) of
        (r, v) \<Rightarrow> if r = - 1 then Some (Return (- 1), g)
     else do {
       lines_nb \<leftarrow> v;
       let g = g\<lparr>strings_nb := lines_nb, fast_strstr_tree := []\<rparr>;
       case table_alloc rte_malloc 8 lines_nb [] of
         None \<Rightarrow> Some (Exit 1, g)
       | Some strs \<Rightarrow> do {
           nbs \<leftarrow> table_alloc rte_malloc 8 lines_nb \<lparr>nb_key = 0, nb_value = 0\<rparr>;
           tree \<leftarrow> table_alloc rte_malloc 8 lines_nb \<lparr>tree_key = 0, tree_value = 0\<rparr>;
           (r, g) \<leftarrow> compile_lines rte_malloc (nat lines_nb) 0 fp
             (g\<lparr>fast_strstr_strings := strs, strings_nb_t := nbs, strings_tree_t := tree\<rparr>);
           Some (Return r, g)
         }
     })))"

definition fast_str_init ::
  "(string \<Rightarrow> string option) \<Rightarrow> (nat \<Rightarrow> nat option) \<Rightarrow> string \<Rightarrow> fast_str_globals \<Rightarrow>
   (int proc_outcome \<times> fast_str_globals) option" where
  "fast_str_init fopen rte_malloc file_path g = do {
     (r, g) \<leftarrow> fast_str_compile fopen rte_malloc file_path g;
     case r of
       Exit n \<Rightarrow> Some (Exit n, g)
     | Return v \<Rightarrow> if v \<noteq> 0 then Some (Exit 1, g) else Some (Return 0, g)
   }"

section \<open>The text of a pattern file\<close>

definition show_pattern :: "u8 list \<Rightarrow> string" where
  "show_pattern p = concat (map show_byte p)"

definition show_pattern_file :: "u8 list list \<Rightarrow> string" where
  "show_pattern_file pats =
     show_nat (length pats) @ CHR 0x0A # concat (map (\<lambda>p. show_pattern p @ [CHR 0x0A]) pats)"

text \<open>The key of a pattern: the sum of its bytes as unsigned numbers.\<close>

definition byte_sum :: "u8 list \<Rightarrow> int" where
  "byte_sum p = sum_list (map uint p)"

section \<open>Facts\<close>

declare compile_line.simps [simp del] compile_lines.simps [simp del]

lemma show_pattern_simps [simp]:
  "show_pattern [] = []" "show_pattern (b # p) = show_byte b @ show_pattern p"
  by (simp_all add: show_pattern_def)

lemma byte_sum_simps [simp]: "byte_sum [] = 0" "byte_sum (b # p) = uint b + byte_sum p"
  by (simp_all add: byte_sum_def)

lemma byte_sum_bounds: "0 \<le> byte_sum p \<and> byte_sum p \<le> 255 * int (length p)"
proof (induction p)
  case (Cons b p)
  moreover have "0 \<le> uint b" "uint b \<le> 255"
    using uint_lt2p [of b] by (simp_all add: order_less_le)
  ultimately show ?case by simp
qed simp

lemma getVal_hex_char [simp]: "d < 16 \<Longrightarrow> getVal (hex_char d) = int d"
proof -
  assume "d < 16"
  then have "d \<in> set [0..<16]" by simp
  moreover have "\<forall>d\<in>set [0..<16]. getVal (hex_char d) = int d" by code_simp
  ultimately show ?thesis by blast
qed

lemma hex_char_not_newline [simp]: "d < 16 \<Longrightarrow> hex_char d \<noteq> CHR 0x0A"
proof -
  assume "d < 16"
  then have "d \<in> set [0..<16]" by simp
  moreover have "\<forall>d\<in>set [0..<16]. hex_char d \<noteq> CHR 0x0A" by code_simp
  ultimately show ?thesis by blast
qed

lemma unat_word_of_int_small:
  "0 \<le> v \<Longrightarrow> v < 2 ^ 31 \<Longrightarrow> unat (word_of_int v :: u32) = nat v"
  by (simp add: unsigned_of_int take_bit_int_eq_self nat_less_iff)

lemma addition_overflow_small:
  "0 \<le> v \<Longrightarrow> v < 2 ^ 31 \<Longrightarrow> 0 \<le> w \<Longrightarrow> w < 2 ^ 31 \<Longrightarrow>
     addition_overflow (word_of_int v) (word_of_int w)"
  by (simp add: addition_overflow_iff unat_word_of_int_small nat_less_iff)

lemma fgetc_char_Cons [simp]: "fgetc_char (c # r) = (c, r)"
  by (simp add: fgetc_char_def)

text \<open>Reading one line of hexadecimal digits.\<close>

lemma compile_line_byte:
  assumes "len < FAST_STR_MAX_STRING_SIZE" "length tmp = FAST_STR_MAX_STRING_SIZE"
    "0 \<le> hash" "hash + uint b < 2 ^ 31"
  shows "compile_line (show_byte b @ fp) len tmp hash =
    compile_line fp (len + 1) (tmp[len := b]) (hash + uint b)"
proof -
  have val: "int (unat b div 16) * 16 + int (unat b mod 16) = uint b"
  proof -
    have "int (unat b div 16 * 16 + unat b mod 16) = uint b" unfolding div_mult_mod_eq by simp
    then show ?thesis unfolding of_nat_add of_nat_mult of_nat_numeral .
  qed
  have "addition_overflow (word_of_int (hash + uint b)) (word_of_int (uint b))"
    using assms(3,4) uint_ge_0 [of b] by (intro addition_overflow_small) linarith+
  then show ?thesis
    using assms(1,2) val
    by (subst compile_line.simps) (simp add: show_byte_def Let_def arr_set_def)
qed

lemma compile_line_eq:
  assumes "len + length p \<le> FAST_STR_MAX_STRING_SIZE" "length tmp = FAST_STR_MAX_STRING_SIZE"
    "0 \<le> hash" "hash + byte_sum p < 2 ^ 31"
  shows "\<exists>tmp'. compile_line (show_pattern p @ CHR 0x0A # fp) len tmp hash =
      Some (Inr (fp, len + length p, tmp', hash + byte_sum p)) \<and>
    length tmp' = FAST_STR_MAX_STRING_SIZE \<and> take (len + length p) tmp' = take len tmp @ p"
  using assms
proof (induction p arbitrary: len tmp hash)
  case Nil
  then show ?case by (subst compile_line.simps) simp
next
  case (Cons b p)
  have b: "0 \<le> uint b" "0 \<le> byte_sum p" using byte_sum_bounds [of p] by simp_all
  have step: "compile_line (show_byte b @ show_pattern p @ CHR 0x0A # fp) len tmp hash =
      compile_line (show_pattern p @ CHR 0x0A # fp) (len + 1) (tmp[len := b]) (hash + uint b)"
    using Cons.prems b by (intro compile_line_byte) simp_all
  have "take (Suc len) (tmp[len := b]) = take len tmp @ [b]"
    using Cons.prems(1,2) by (intro take_Suc_list_update) simp
  with Cons.IH [of "len + 1" "tmp[len := b]" "hash + uint b"] Cons.prems b step
  show ?case by (simp add: add.assoc)
qed

text \<open>What is stored of a pattern: up to its first null byte, and null bytes up to the size of the block.\<close>

definition stored :: "u8 list \<Rightarrow> u8 list" where
  "stored p = cstring p @ replicate (length p + 2 - length (cstring p)) 0"

lemma strncpy_pattern:
  assumes "take len tmp = p" "len < length tmp"
  shows "strncpy (tmp[len := 0]) (len + 1) @ [0] = stored p"
proof -
  have p: "length p = len" "take (len + 1) (tmp[len := 0]) = p @ [0]"
    using assms by (auto simp: take_Suc_list_update)
  moreover have "takeWhile (\<lambda>b. b \<noteq> 0) (p @ [0]) = cstring p"
    unfolding cstring_def by (rule takeWhile_tail) simp
  moreover have "length (cstring p) \<le> len" unfolding cstring_def p(1) [symmetric] by (rule length_takeWhile_le)
  ultimately show ?thesis
    by (simp add: strncpy_def stored_def Let_def Suc_diff_le replicate_append_same)
qed

text \<open>The tables after the patterns \<open>p\<close>, numbered from \<open>i\<close>.\<close>

definition tree_entry :: "nat \<times> u8 list \<Rightarrow> strings_tree_s" where
  "tree_entry ip = \<lparr>tree_key = byte_sum (snd ip), tree_value = int (fst ip)\<rparr>"

definition nb_entry :: "nat \<times> u8 list \<Rightarrow> strings_nb_s" where
  "nb_entry ip = \<lparr>nb_key = of_nat (length (snd ip)), nb_value = int (fst ip)\<rparr>"

definition roomy :: "(nat \<Rightarrow> nat option) \<Rightarrow> bool" where
  "roomy rte_malloc \<longleftrightarrow> (\<forall>n > 0. \<exists>u > n. rte_malloc n = Some u)"

definition pattern_ok :: "u8 list \<Rightarrow> bool" where
  "pattern_ok p \<longleftrightarrow> length p < FAST_STR_MAX_STRING_SIZE"

definition added :: "nat \<Rightarrow> u8 list \<Rightarrow> fast_str_globals \<Rightarrow> fast_str_globals" where
  "added i p g = g
    \<lparr>fast_strstr_strings := (fast_strstr_strings g)[i := stored p],
     strings_tree_t := (strings_tree_t g)[i := tree_entry (i, p)],
     strings_nb_t := (strings_nb_t g)[i := nb_entry (i, p)],
     fast_strstr_tree := fast_strstr_tree g @ [(byte_sum p, int i)]\<rparr>"

definition tables_of :: "nat \<Rightarrow> fast_str_globals \<Rightarrow> bool" where
  "tables_of n g \<longleftrightarrow> length (fast_strstr_strings g) = n \<and> length (strings_tree_t g) = n \<and> length (strings_nb_t g) = n"

lemma tables_of_added [simp]: "tables_of n (added i p g) = tables_of n g"
  "fast_strstr_tree (added i p g) = fast_strstr_tree g @ [(byte_sum p, int i)]"
  by (simp_all add: tables_of_def added_def)

lemma store_pattern_eq:
  assumes "roomy rte_malloc" "pattern_ok p" "take (length p) tmp = p"
    "length tmp = FAST_STR_MAX_STRING_SIZE" "tables_of n g" "i < n"
  shows "store_pattern rte_malloc i (length p) tmp (byte_sum p) g =
    (if byte_sum p \<in> fst ` set (fast_strstr_tree g) then None else Some (added i p g))"
proof -
  obtain u where u: "length p + 1 < u" "rte_malloc (length p + 1) = Some u"
    using assms(1) unfolding roomy_def by (metis add_gr_0 zero_less_one)
  have "strncpy (tmp[length p := 0]) (length p + 1) @ [0] = stored p"
    using assms(2-4) by (intro strncpy_pattern) (simp_all add: pattern_ok_def)
  then show ?thesis
    using assms(2,4-6) u
    by (simp add: store_pattern_def arr_set_def pattern_ok_def Let_def tree_entry_def nb_entry_def added_def tables_of_def)
qed

definition lines_text :: "u8 list list \<Rightarrow> string" where
  "lines_text pats = concat (map (\<lambda>p. show_pattern p @ [CHR 0x0A]) pats)"

lemma compile_first_line:
  assumes "pattern_ok p"
  obtains tmp where "compile_line (show_pattern p @ CHR 0x0A # fp) 0
      (replicate FAST_STR_MAX_STRING_SIZE 0) 0 = Some (Inr (fp, length p, tmp, byte_sum p))"
    "length tmp = FAST_STR_MAX_STRING_SIZE" "take (length p) tmp = p"
proof -
  have "byte_sum p < 2 ^ 31"
    using byte_sum_bounds [of p] assms
    by (simp add: pattern_ok_def FAST_STR_MAX_STRING_SIZE_def)
  then show ?thesis
    using compile_line_eq [of 0 p "replicate FAST_STR_MAX_STRING_SIZE 0" 0 fp] assms that
    by (auto simp: pattern_ok_def)
qed

lemma compile_lines_Cons:
  assumes "roomy rte_malloc" "pattern_ok p" "i < n" "tables_of n g"
  shows "compile_lines rte_malloc n i (lines_text (p # pats) @ fp) g =
    (if byte_sum p \<in> fst ` set (fast_strstr_tree g) then None
     else compile_lines rte_malloc n (i + 1) (lines_text pats @ fp) (added i p g))"
proof -
  obtain tmp where line: "compile_line (show_pattern p @ CHR 0x0A # lines_text pats @ fp) 0
      (replicate FAST_STR_MAX_STRING_SIZE 0) 0 =
      Some (Inr (lines_text pats @ fp, length p, tmp, byte_sum p))"
    "length tmp = FAST_STR_MAX_STRING_SIZE" "take (length p) tmp = p"
    using assms(2) by (rule compile_first_line)
  have first: "lines_text (p # pats) @ fp = show_pattern p @ CHR 0x0A # lines_text pats @ fp"
    by (simp add: lines_text_def)
  show ?thesis
    unfolding first using assms(3) line(1) store_pattern_eq [OF assms(1,2) line(3,2) assms(4,3)]
    by (subst compile_lines.simps) simp
qed

lemma compile_lines_eq:
  assumes "roomy rte_malloc" "\<forall>p\<in>set pats. pattern_ok p" "i + length pats = n" "tables_of n g"
    "distinct (map fst (fast_strstr_tree g) @ map byte_sum pats)"
  shows "compile_lines rte_malloc n i (lines_text pats @ fp) g = Some (0, g
    \<lparr>fast_strstr_strings := take i (fast_strstr_strings g) @ map stored pats,
     strings_tree_t := take i (strings_tree_t g) @ map tree_entry (enumerate i pats),
     strings_nb_t := sort_key (\<lambda>e. unat (nb_key e))
       (take i (strings_nb_t g) @ map nb_entry (enumerate i pats)),
     fast_strstr_tree := fast_strstr_tree g @
       map (\<lambda>(k, p). (byte_sum p, int k)) (enumerate i pats)\<rparr>)"
  using assms(2-5)
proof (induction pats arbitrary: i g)
  case Nil
  then show ?case by (subst compile_lines.simps) (simp add: lines_text_def tables_of_def)
next
  case (Cons p pats)
  have i: "i < n" using Cons.prems(2) by simp
  have "compile_lines rte_malloc n i (lines_text (p # pats) @ fp) g =
      compile_lines rte_malloc n (i + 1) (lines_text pats @ fp) (added i p g)"
    using compile_lines_Cons [OF assms(1) _ i Cons.prems(3)] Cons.prems(1,4) by simp
  also have "\<dots> = Some (0, (added i p g)
    \<lparr>fast_strstr_strings := take (i + 1) (fast_strstr_strings (added i p g)) @ map stored pats,
     strings_tree_t := take (i + 1) (strings_tree_t (added i p g)) @ map tree_entry (enumerate (i + 1) pats),
     strings_nb_t := sort_key (\<lambda>e. unat (nb_key e))
       (take (i + 1) (strings_nb_t (added i p g)) @ map nb_entry (enumerate (i + 1) pats)),
     fast_strstr_tree := fast_strstr_tree (added i p g) @
       map (\<lambda>(k, p). (byte_sum p, int k)) (enumerate (i + 1) pats)\<rparr>)"
    by (rule Cons.IH) (use Cons.prems in simp_all)
  finally show ?case
    using i Cons.prems(3) by (simp add: take_Suc_list_update added_def tables_of_def)
qed

text \<open>A file that ends too early.\<close>

lemma compile_lines_truncated:
  assumes "roomy rte_malloc" "\<forall>p\<in>set pats. pattern_ok p" "i + length pats < n" "tables_of n g"
    "distinct (map fst (fast_strstr_tree g) @ map byte_sum pats)"
  shows "\<exists>g'. compile_lines rte_malloc n i (lines_text pats) g = Some (- 1, g')"
  using assms(2-5)
proof (induction pats arbitrary: i g)
  case Nil
  have "\<not> addition_overflow (word_of_int (- 1496)) (word_of_int (- 1496))"
    by (simp add: addition_overflow_iff)
  moreover have "getVal (CHR 0xFF) = - 88" by code_simp
  ultimately have "compile_line [] 0 (replicate FAST_STR_MAX_STRING_SIZE 0) 0 = Some (Inl (- 1))"
    by (subst compile_line.simps) (simp add: fgetc_char_def arr_set_def FAST_STR_MAX_STRING_SIZE_def)
  then show ?case using Nil.prems by (subst compile_lines.simps) (simp add: lines_text_def)
next
  case (Cons p pats)
  have i: "i < n" using Cons.prems(2) by simp
  show ?case
    using compile_lines_Cons [OF assms(1) _ i Cons.prems(3), of p pats "[]"] Cons.IH [of "i + 1" "added i p g"] Cons.prems
    by simp
qed

text \<open>A second pattern with the same sum of bytes.\<close>

lemma compile_lines_duplicate:
  assumes "roomy rte_malloc" "\<forall>p\<in>set pats. pattern_ok p" "i + length pats = n" "tables_of n g"
    "distinct (map fst (fast_strstr_tree g))" "\<not> distinct (map fst (fast_strstr_tree g) @ map byte_sum pats)"
  shows "compile_lines rte_malloc n i (lines_text pats @ fp) g = None"
  using assms(2-6)
proof (induction pats arbitrary: i g)
  case Nil
  then show ?case by simp
next
  case (Cons p pats)
  have i: "i < n" using Cons.prems(2) by simp
  have "compile_lines rte_malloc n (i + 1) (lines_text pats @ fp) (added i p g) = None"
    if "byte_sum p \<notin> fst ` set (fast_strstr_tree g)"
    by (rule Cons.IH) (use Cons.prems that in auto)
  then show ?case using compile_lines_Cons [OF assms(1) _ i Cons.prems(3)] Cons.prems(1) by simp
qed

text \<open>The header line and the tables.\<close>

lemma table_alloc_roomy:
  assumes "roomy rte_malloc" "0 < n" "n < 10 ^ 9" "0 < sz" "sz \<le> 8"
  shows "table_alloc rte_malloc sz (int n) x = Some (replicate n x)"
proof -
  have "n * sz < 2 ^ 64"
    using mult_le_mono [of n "10 ^ 9" sz 8] assms(3,5) by simp
  then have "n * sz mod 2 ^ 64 = n * sz" by (rule mod_less)
  moreover have "nat (int n mod 2 ^ 64) = n" using assms(3) by (simp add: nat_mod_as_int)
  moreover obtain u where "rte_malloc (n * sz) = Some u"
    using assms(1,2,4) unfolding roomy_def by (metis nat_0_less_mult_iff)
  ultimately show ?thesis by (simp add: table_alloc_def)
qed

lemma fast_str_compile_lines:
  assumes "roomy rte_malloc" "0 < n" "n < 10 ^ 9"
    "fopen path = Some (show_nat n @ CHR 0x0A # fp)"
  shows "fast_str_compile fopen rte_malloc path g = do {
     (r, g) \<leftarrow> compile_lines rte_malloc n 0 fp (g
       \<lparr>strings_nb := int n, fast_strstr_tree := [], fast_strstr_strings := replicate n [],
        strings_nb_t := replicate n \<lparr>nb_key = 0, nb_value = 0\<rparr>,
        strings_tree_t := replicate n \<lparr>tree_key = 0, tree_value = 0\<rparr>\<rparr>);
     Some (Return r, g) }"
proof -
  have "fgets FAST_STR_MAX_NUM (show_nat n @ CHR 0x0A # fp) = Some (show_nat n @ [CHR 0x0A], fp)"
    using assms(3) by (intro fgets_show_nat_line) (simp_all add: FAST_STR_MAX_NUM_def)
  moreover have "sscanf_d (c_str (show_nat n @ [CHR 0x0A])) = (1, Some (int n))"
    using assms(3) by (intro sscanf_show_nat_line) (simp add: INT_MAX_def)
  ultimately show ?thesis
    using assms(4)
    by (simp add: fast_str_compile_def Let_def table_alloc_roomy [OF assms(1-3)])
qed

lemma cval_ascii: "unat b < 128 \<Longrightarrow> cval b = word_of_int (uint b)"
proof -
  assume "unat b < 128"
  then have "int (unat b) < 128" by linarith
  then have "uint b < 128" by simp
  moreover have "- 128 \<le> uint b" by (rule order_trans [OF _ uint_ge_0]) simp
  ultimately have "signed_take_bit 7 (uint b) = uint b"
    by (intro signed_take_bit_int_eq_self) simp_all
  then have "sint b = uint b" by (simp add: sint_uint)
  then show ?thesis by (simp add: cval_def scast_eq)
qed

lemma csum_ascii: "\<forall>b\<in>set p. unat b < 128 \<Longrightarrow> csum p = word_of_int (byte_sum p)"
  by (induction p) (simp_all add: cval_ascii)

text \<open>A whole pattern file.\<close>

lemma fast_str_init_ok:
  assumes "fopen path = Some (show_pattern_file pats)" "roomy rte_malloc"
    "pats \<noteq> []" "length pats < 10 ^ 9" "\<forall>p\<in>set pats. pattern_ok p"
  shows "distinct (map byte_sum pats) \<Longrightarrow> \<exists>g'. fast_str_init fopen rte_malloc path g = Some (Return 0, g') \<and>
    strings_nb g' = int (length pats) \<and>
    fast_strstr_strings g' = map stored pats \<and>
    strings_tree_t g' = map tree_entry (enumerate 0 pats) \<and>
    sorted (map (\<lambda>e. unat (nb_key e)) (strings_nb_t g')) \<and>
    mset (strings_nb_t g') = mset (map nb_entry (enumerate 0 pats))"
    "\<not> distinct (map byte_sum pats) \<Longrightarrow> fast_str_init fopen rte_malloc path g = None"
proof -
  have content: "fopen path = Some (show_nat (length pats) @ CHR 0x0A # (lines_text pats @ []))"
    using assms(1) by (simp add: show_pattern_file_def lines_text_def)
  have "0 < length pats" using assms(3) by simp
  note run = fast_str_compile_lines [where fopen = fopen and path = path and g = g,
      OF assms(2) this assms(4) content]
  show "distinct (map byte_sum pats) \<Longrightarrow> \<exists>g'. fast_str_init fopen rte_malloc path g = Some (Return 0, g') \<and>
      strings_nb g' = int (length pats) \<and>
      fast_strstr_strings g' = map stored pats \<and>
      strings_tree_t g' = map tree_entry (enumerate 0 pats) \<and>
      sorted (map (\<lambda>e. unat (nb_key e)) (strings_nb_t g')) \<and>
      mset (strings_nb_t g') = mset (map nb_entry (enumerate 0 pats))"
    unfolding fast_str_init_def run
    by (subst compile_lines_eq) (use assms(2,5) in \<open>simp_all add: tables_of_def\<close>)
  show "\<not> distinct (map byte_sum pats) \<Longrightarrow> fast_str_init fopen rte_malloc path g = None"
    unfolding fast_str_init_def run
    by (subst compile_lines_duplicate) (use assms(2,5) in \<open>simp_all add: tables_of_def\<close>)
qed

section \<open>Properties\<close>


definition demo_patterns :: "u8 list list" where
  "demo_patterns = [[98, 99], [98], [99], [100, 0], [97, 98]]"

definition demo_files :: "string \<Rightarrow> string option" where
  "demo_files path = (if path = ''patterns'' then Some (show_pattern_file demo_patterns) else None)"

definition demo_malloc :: "nat \<Rightarrow> nat option" where
  "demo_malloc n = Some (n + 64)"

definition no_globals :: fast_str_globals where
  "no_globals = \<lparr>fast_strstr_strings = [], strings_tree_t = [], strings_nb = 0,
                 strings_nb_t = [], fast_strstr_tree = []\<rparr>"

lemma roomy_demo_malloc [simp]: "roomy demo_malloc"
  by (simp add: roomy_def demo_malloc_def)


text \<open>
  A pattern file that ends before the announced number of patterns is refused: the
  compilation stops with an error and the process exits with status 1; the endless reading
  of the end of the file is cut by the overflow check, not by the size check.
\<close>

lemma fast_str_init_truncated_file:
  assumes "fopen path = Some (show_nat n @ CHR 0x0A # lines_text pats)" "roomy rte_malloc"
    "length pats < n" "n < 10 ^ 9" "\<forall>p\<in>set pats. pattern_ok p" "distinct (map byte_sum pats)"
  shows "\<exists>g'. fast_str_init fopen rte_malloc path g = Some (Exit 1, g')"
proof -
  have "0 < n" using assms(3) by simp
  note run = fast_str_compile_lines [where fopen = fopen and path = path and g = g,
      OF assms(2) this assms(4,1)]
  let ?g = "g\<lparr>strings_nb := int n, fast_strstr_tree := [], fast_strstr_strings := replicate n [],
        strings_nb_t := replicate n \<lparr>nb_key = 0, nb_value = 0\<rparr>,
        strings_tree_t := replicate n \<lparr>tree_key = 0, tree_value = 0\<rparr>\<rparr>"
  obtain g' where "compile_lines rte_malloc n 0 (lines_text pats) ?g = Some (- 1, g')"
    using compile_lines_truncated [OF assms(2,5), of 0 n ?g] assms(3,6) by (auto simp: tables_of_def)
  then show ?thesis unfolding fast_str_init_def run by simp
qed

lemma fast_str_init_truncated_file_witness:
  "\<exists>g'. fast_str_init (\<lambda>_. Some (show_nat 2 @ CHR 0x0A # lines_text [[97]])) demo_malloc
     ''f'' no_globals = Some (Exit 1, g')"
  using fast_str_init_truncated_file [of "\<lambda>_. Some (show_nat 2 @ CHR 0x0A # lines_text [[97]])"
      "''f''" 2 "[[97]]" demo_malloc no_globals]
  by (simp add: pattern_ok_def FAST_STR_MAX_STRING_SIZE_def)

text \<open>The key of pattern 0 is not the sum of pattern 4.\<close>

lemma byte_sum_zeros: "\<forall>b\<in>set (drop (length (cstring p)) p). b = 0 \<Longrightarrow> byte_sum (cstring p) = byte_sum p"
proof -
  assume z: "\<forall>b\<in>set (drop (length (cstring p)) p). b = 0"
  have "p = cstring p @ drop (length (cstring p)) p"
    unfolding cstring_def by (metis append_take_drop_id takeWhile_eq_take)
  moreover have "byte_sum (xs @ ys) = byte_sum xs + byte_sum ys" for xs ys by (simp add: byte_sum_def)
  moreover have "byte_sum ys = 0" if "\<forall>b\<in>set ys. b = 0" for ys using that by (induction ys) simp_all
  ultimately show ?thesis using z by (metis add.right_neutral)
qed

lemma wrong_key:
  assumes "pattern_ok p" "pattern_ok q" "byte_sum p \<noteq> byte_sum q" "\<forall>b\<in>set q. unat b < 128"
    "\<forall>b\<in>set (drop (length (cstring q)) q). b = 0"
  shows "csum (cstring q) \<noteq> word_of_int (byte_sum p)"
proof
  assume eq: "csum (cstring q) = word_of_int (byte_sum p)"
  have "set (cstring q) \<subseteq> set q" unfolding cstring_def by (auto dest: set_takeWhileD)
  then have "csum (cstring q) = word_of_int (byte_sum (cstring q))" using assms(4) by (intro csum_ascii) blast
  then have "word_of_int (byte_sum q) = (word_of_int (byte_sum p) :: u32)"
    using eq byte_sum_zeros [OF assms(5)] by simp
  moreover have "0 \<le> byte_sum r \<and> byte_sum r < 2 ^ 31" if "pattern_ok r" for r
    using byte_sum_bounds [of r] that by (simp add: pattern_ok_def FAST_STR_MAX_STRING_SIZE_def)
  ultimately show False using assms(1-3) unat_word_of_int_small by (metis nat_eq_iff2)
qed



end
