(* ===== verification/Slave.thy ===== *)
theory Slave
  imports Master_Properties Engine_Hash Engine_Bpf Fast_Str_Compile
begin

text \<open>
  A slave process from its start to its end (\<^verbatim>\<open>src/bridge.c\<close>): taking a core number, asking the
  master for a configuration, choosing and initialising the filter engine that the configuration
  names, running the packet loop, and leaving. The engines are those of the other theories, on one
  state that holds the variables of all of them.
\<close>

section \<open>Choosing an engine\<close>

definition ENGINE_ERROR :: int where "ENGINE_ERROR = - 1"
definition ENGINE_DEFAULT :: int where "ENGINE_DEFAULT = 0"
definition ENGINE_BPF :: int where "ENGINE_BPF = 1"
definition ENGINE_BPF_PCAP :: int where "ENGINE_BPF_PCAP = 2"
definition ENGINE_FAST_STRSTR :: int where "ENGINE_FAST_STRSTR = 3"
definition ENGINE_MODULO :: int where "ENGINE_MODULO = 4"
definition ENGINE_HASH :: int where "ENGINE_HASH = 5"

definition engine_lookup :: "(string \<times> int) list" where
  "engine_lookup = [(''DEFAULT'', ENGINE_DEFAULT), (''BPF'', ENGINE_BPF), (''BPF_PCAP'', ENGINE_BPF_PCAP),
     (''FAST_STRSTR'', ENGINE_FAST_STRSTR), (''MODULO'', ENGINE_MODULO), (''HASH'', ENGINE_HASH)]"

fun lookup_key :: "(string \<times> int) list \<Rightarrow> string \<Rightarrow> int" where
  "lookup_key [] key = ENGINE_ERROR"
| "lookup_key ((k, v) # es) key = (if k = key then v else lookup_key es key)"

definition string2key :: "string \<Rightarrow> int" where
  "string2key key = lookup_key engine_lookup key"

text \<open>The variables of the engines, and what they need from outside.\<close>

record ('p, 'h) engine_state =
  es_modulo :: modulo_state
  es_bpf :: "'p bpf_state"
  es_str :: fast_str_globals
  es_hash :: "'h hash_state"

record ('p, 'h) engine_env =
  ev_bpf :: "'p bpf_ops"
  ev_hash :: "'h hash_ops"
  ev_crc :: "u32 \<Rightarrow> u32 \<Rightarrow> u32"
  ev_fopen :: "string \<Rightarrow> string option"
  ev_malloc :: "nat \<Rightarrow> nat option"
  ev_socket :: nat

definition on_modulo :: "('p, 'h) engine_state engine" where
  "on_modulo e pkt len = map_option (\<lambda>(r, x). (r, e\<lparr>es_modulo := x\<rparr>)) (modulo_engine (es_modulo e) pkt len)"

definition on_bpf :: "'p bpf_ops \<Rightarrow> ('p, 'h) engine_state engine" where
  "on_bpf bops e pkt len = map_option (\<lambda>(r, x). (r, e\<lparr>es_bpf := x\<rparr>)) (BPF_pkt_filter bops (es_bpf e) pkt len)"

definition on_str :: "('p, 'h) engine_state engine" where
  "on_str e pkt len = map_option (\<lambda>r. (r, e)) (fast_strstr_filter_one_hashed (es_str e) pkt len)"

text \<open>
  How a loop stands after at most \<open>n\<close> rounds: still running, or ended with a result. The loops of
  the simple engines never end by themselves.
\<close>

datatype loop_end = Running | Ended "int proc_outcome"

definition set_conf :: "proc_config_s \<Rightarrow> slave_conf_s \<Rightarrow> slave_conf_s" where
  "set_conf p c = c\<lparr>port_rx := pc_port_rx p, port_tx := pc_port_tx p, queue_rx := pc_queue_rx p,
     queue_tx := pc_queue_tx p\<rparr>"

text \<open>
  The initialisation of an engine that runs in the main loop: the end of the process, or the engine
  to run. The result of an initialisation that returns is not looked at.
\<close>

definition init_simple ::
  "('p, 'h) engine_env \<Rightarrow> int \<Rightarrow> string \<Rightarrow> ('p, 'h) engine_state \<Rightarrow>
   ((int + ('p, 'h) engine_state engine) \<times> ('p, 'h) engine_state) option" where
  "init_simple ev key args e =
     (if key = ENGINE_DEFAULT then Some (Inr l2fwd, e)
      else if key = ENGINE_BPF then do {
        (r, x) \<leftarrow> BPF_init (ev_bpf ev) args (es_bpf e);
        Some (case r of Exit c \<Rightarrow> Inl c | Return _ \<Rightarrow> Inr (on_bpf (ev_bpf ev)), e\<lparr>es_bpf := x\<rparr>)
      }
      else if key = ENGINE_BPF_PCAP then do {
        (r, x) \<leftarrow> BPF_pcap_init (ev_fopen ev) (ev_bpf ev) args (es_bpf e);
        Some (case r of Exit c \<Rightarrow> Inl c | Return _ \<Rightarrow> Inr (on_bpf (ev_bpf ev)), e\<lparr>es_bpf := x\<rparr>)
      }
      else if key = ENGINE_FAST_STRSTR then do {
        (r, x) \<leftarrow> fast_str_init (ev_fopen ev) (ev_malloc ev) args (es_str e);
        Some (case r of Exit c \<Rightarrow> Inl c | Return _ \<Rightarrow> Inr on_str, e\<lparr>es_str := x\<rparr>)
      }
      else let (_, x) = modulo_init args (es_modulo e) in Some (Inr on_modulo, e\<lparr>es_modulo := x\<rparr>))"

definition bridge_init_engine ::
  "('p, 'h) engine_env \<Rightarrow> 'nic eth_ops \<Rightarrow> 'd dpdk_ops \<Rightarrow> ('d sys \<Rightarrow> 'd sys) \<Rightarrow> nat \<Rightarrow> nat \<Rightarrow>
   ('nic, ('p, 'h) engine_state) bridge_state \<Rightarrow> 'd sys \<Rightarrow>
   (loop_end \<times> ('nic, ('p, 'h) engine_state) bridge_state \<times> 'd sys) option" where
  "bridge_init_engine ev ops dops others lcore_id n s g = do {
     proc_config_t \<leftarrow> arr_get (proc_config g) (unat (conf_id (slave_conf s)));
     let s = s\<lparr>slave_conf := set_conf proc_config_t (slave_conf s)\<rparr>;
     let key = string2key (pc_engine proc_config_t);
     let args = pc_args proc_config_t;
     let port_mask = mi_port_mask (main_information g);
     let nb_ports = mi_port_nb (main_information g);
     if key = ENGINE_ERROR then Some (Ended (Return (- 1)), s, g)
     else if key = ENGINE_HASH then do {
       (r, x) \<leftarrow> init_hash (ev_fopen ev) (ev_crc ev) (ev_hash ev) args (unat (conf_id (slave_conf s)))
         (ev_socket ev) (es_hash (eng s));
       let s = s\<lparr>eng := (eng s)\<lparr>es_hash := x\<rparr>\<rparr>;
       case r of
         Exit c \<Rightarrow> Some (Ended (Exit c), s, g)
       | Return _ \<Rightarrow> do {
           (stop, s, g) \<leftarrow> bridge_loop_optimized ops dops others (hash_engine4 (ev_hash ev) x)
             (hash_engine1 (ev_hash ev) x) (slave_conf s) port_mask nb_ports lcore_id n s g;
           Some (if stop then Ended (Return 0) else Running, s, g)
         }
     }
     else do {
       (r, x) \<leftarrow> init_simple ev key args (eng s);
       let s = s\<lparr>eng := x\<rparr>;
       case r of
         Inl c \<Rightarrow> Some (Ended (Exit c), s, g)
       | Inr engine \<Rightarrow> do {
           s \<leftarrow> bridge_main_loop ops port_mask nb_ports lcore_id engine n s;
           Some (Running, s, g)
         }
     }
   }"

section \<open>The life of a slave\<close>

text \<open>
  The log of a slave: \<open>openlog\<close> is the result of \<open>rte_openlog_stream\<close> for the file opened under the
  name. The entry point does not look at the result.
\<close>

definition LOG_MAX_SIZE :: nat where "LOG_MAX_SIZE = 128"

definition bridge_log_init :: "(string \<Rightarrow> int) \<Rightarrow> nat \<Rightarrow> int" where
  "bridge_log_init openlog lcore_id =
     (let log_file = take (LOG_MAX_SIZE - 1) (''log_'' @ show_nat lcore_id)
      in if openlog log_file \<noteq> 0 then - 1 else 0)"

text \<open>Its first part, up to the request: the new core number and the state, or no number.\<close>

definition slave_enter :: "nat \<Rightarrow> 'd sys \<Rightarrow> (nat option \<times> 'd sys) option" where
  "slave_enter lcore_id s =
     (case flib_assign_lcore_id 0 s of (new_id, flcore_id, s) \<Rightarrow>
        if new_id < 0 then Some (None, s)
        else do {
          a \<leftarrow> arr_set (mapping_id s) lcore_id flcore_id;
          s \<leftarrow> remapping_slave_resource lcore_id flcore_id (s\<lparr>mapping_id := a\<rparr>);
          Some (Some flcore_id, s)
        })"

text \<open>Its last part: the core number is given back, and a failure is recorded.\<close>

definition slave_leave :: "eal \<Rightarrow> nat \<Rightarrow> nat \<Rightarrow> int \<Rightarrow> 'd sys \<Rightarrow> 'd sys option" where
  "slave_leave e lcore_id flcore_id retval s = do {
     s \<leftarrow> (if float_proc (main_information s) \<noteq> 0 then do {
            s \<leftarrow> flib_free_lcore_id e flcore_id s;
            a \<leftarrow> arr_set (mapping_id s) lcore_id INVALID_MAPPING_ID;
            set_used lcore_id 0 (s\<lparr>mapping_id := a\<rparr>)
          } else Some s);
     if retval = - 1 then do {
       lcore_res \<leftarrow> arr_get (lcore_resource s) lcore_id;
       set_lcore_res lcore_id
         (lcore_res\<lparr>lr_flags := lr_flags lcore_res AND SLAVE_DONT_RECREATE_FLAG\<rparr>) s
     }
     else Some s
   }"

text \<open>
  The entry point. \<open>polls\<close> bounds the wait for the answer and \<open>n\<close> the rounds of the packet loop; a
  slave that still runs after them is \<open>Running\<close>. A request that fails leaves \<open>retval\<close> uninitialised.
\<close>

definition bridge_launch_one_lcore ::
  "('p, 'h) engine_env \<Rightarrow> 'nic eth_ops \<Rightarrow> 'd dpdk_ops \<Rightarrow> eal \<Rightarrow> ('d sys \<Rightarrow> 'd sys) \<Rightarrow> int \<Rightarrow> nat \<Rightarrow> nat \<Rightarrow>
   nat \<Rightarrow> ('nic, ('p, 'h) engine_state) bridge_state \<Rightarrow> 'd sys \<Rightarrow>
   (loop_end \<times> ('nic, ('p, 'h) engine_state) bridge_state \<times> 'd sys) option" where
  "bridge_launch_one_lcore ev ops dops e others my_pid polls n lcore_id b s = do {
     (entered, s) \<leftarrow> slave_enter lcore_id s;
     case entered of
       None \<Rightarrow> Some (Ended (Return (- 1)), b, s)
     | Some flcore_id \<Rightarrow> do {
         (ret, msg2recv, s) \<leftarrow> slave_request dops others flcore_id \<lparr>cmd = CFG, msg = []\<rparr>
           \<lparr>cmd = START, msg = []\<rparr> polls s;
         if ret \<noteq> 0 then None
         else do {
           let b = b\<lparr>slave_conf := (slave_conf b)\<lparr>conf_id := of_int (atoi (msg msg2recv))\<rparr>,
                     port_statistics := sys_statistics s\<rparr>;
           b \<leftarrow> stat_upd (\<lambda>st. st\<lparr>pid := my_pid\<rparr>) b;
           (r, b, s) \<leftarrow> bridge_init_engine ev ops dops others flcore_id n b s;
           let s = s\<lparr>sys_statistics := port_statistics b\<rparr>;
           case r of
             Ended (Return retval) \<Rightarrow> do {
               s \<leftarrow> slave_leave e lcore_id flcore_id retval s;
               Some (Ended (Return 0), b, s)
             }
           | _ \<Rightarrow> Some (r, b, s)
         }
       }
   }"

section \<open>Views of the shared state\<close>

lemma switch_process_ipc [simp]:
  "ipc_ok pool que (switch_process own s) = ipc_ok pool que s"
  "msgs que (switch_process own s) = msgs que s"
  "valid_slave (switch_process own s) = valid_slave own"
  "ring_of (switch_process own s) = ring_of own"
  by (simp_all add: switch_process_def ipc_ok_def msgs_def valid_slave_def ring_of_def fun_eq_iff)

context ring_contract
begin

text \<open>A slave that polls a ring with one message gets that message.\<close>

lemma get_cmd_first:
  assumes "ipc_ok pool que s" "valid_slave s j" "ring_of s j 0 = Some g" "msgs que s g = x # xs"
  shows "\<exists>s'. get_cmd ops j m False s = Some (0, x, s') \<and> ipc_ok pool que s' \<and> msgs que s' g = xs"
proof -
  obtain r m' s' where get: "get_cmd ops j m False s = Some (r, m', s')" "ipc_ok pool que s'"
    "r = 0 \<and> channel_received que s (ring_of s j 0) m' s' \<or> r < 0 \<and> m' = m \<and> msgs que s' = msgs que s"
    using get_cmd_spec [OF assms(1,2), of m False] by auto
  moreover have "msgs que s g \<noteq> []" using assms(4) by simp
  ultimately have "r = 0" using get_cmd_nonempty [OF assms(1-3), of m] by auto
  then show ?thesis using get assms(3,4) by (auto simp: channel_received_def)
qed

lemma master_answers:
  assumes ok: "ipc_ok pool que s" and wf: "sys_wf e s" and i: "i < RTE_MAX_LCORE e" "lr_enabled (lcore_resource s ! i) \<noteq> 0"
    and g: "ring_of s i 0 = Some g0" "ring_of s i 1 = Some g1" "g0 \<noteq> g1"
    and q: "msgs que s g1 = req # rest" "msgs que s g0 = []"
    and run: "poll_lcores ops e [i] c m s = Some (c - 1, m', s')"
  obtains p where "p < RTE_MAX_LCORE e" "free_cfg s p" "msgs que s' g0 = [cfg_msg p]" "ipc_ok pool que s'"
    "lr_config_id (lcore_resource s' ! i) = p" "pc_used (proc_config s' ! p) = 1" "cmd req = CFG"
proof -
  obtain r m1 s1 where get: "get_cmd ops i m True s = Some (r, m1, s1)" "ipc_frame s s1" "ipc_ok pool que s1"
    "r = 0 \<and> channel_received que s (ring_of s i 1) m1 s1 \<or> r < 0 \<and> m1 = m \<and> msgs que s1 = msgs que s"
    using get_cmd_spec [OF ok valid_slave_wf [OF wf i(1)], of m True] by auto
  have cfg: "r = 0 \<and> cmd m1 = CFG" using run get(1) by (cases "r = 0 \<and> cmd m1 = CFG") auto
  then have rq: "m1 = req" "msgs que s1 g0 = []"
    using get(4) q g by (auto simp: channel_received_def)
  have wf1: "sys_wf e s1" using ipc_frame_private [OF get(2)] wf by blast
  obtain v s2 where s2: "main_set_lcore_cfg ops e i s1 = Some (v, s2)" "ipc_ok pool que s2"
    "v = - 1 \<and> ipc_frame s1 s2 \<and> msgs que s2 = msgs que s1 \<or>
     (\<exists>p s3. v = 0 \<and> p < RTE_MAX_LCORE e \<and> free_cfg s1 p \<and> ipc_frame s1 s3 \<and> s2 = assign_cfg i p s3 \<and>
        channel_sent que s1 (ring_of s1 i 0) (cfg_msg p) s3)"
    by (rule main_set_lcore_cfg_spec [OF get(3) wf1 i(1)])
  have fin: "v = 0" "s' = s2" using run get(1) cfg s2(1) by (auto split: if_splits)
  then obtain p s3 where p: "p < RTE_MAX_LCORE e" "free_cfg s1 p" "ipc_frame s1 s3" "s2 = assign_cfg i p s3"
    "channel_sent que s1 (ring_of s1 i 0) (cfg_msg p) s3" using s2(3) by auto
  have f: "free_cfg s1 = free_cfg s" "ring_of s1 = ring_of s" using ipc_frame_private [OF get(2)] ipc_frame_sel [OF get(2)] by simp_all
  have wf3: "sys_wf e s3" using ipc_frame_private [OF p(3)] wf1 by blast
  have "msgs que s3 g0 = [cfg_msg p]" using p(5) rq(2) f(2) g(1) by (auto simp: channel_sent_def)
  moreover have "lr_config_id (lcore_resource s' ! i) = p" "pc_used (proc_config s' ! p) = 1"
    using wf3 i(1) p(1,4) fin(2) by (simp_all add: assign_cfg_def sys_wf_def)
  ultimately show ?thesis
    using that [of p] p(1,2,4) s2(2) fin(2) cfg rq(1) f(1) by simp
qed

end

section \<open>Entry and exit\<close>

text \<open>The state after a slave has taken core number \<open>k\<close>, and after it has given it back.\<close>

definition occupied :: "nat \<Rightarrow> nat \<Rightarrow> 'd sys \<Rightarrow> 'd sys" where
  "occupied i k s = s\<lparr>lcore_cfg := (lcore_cfg s)[k := 1], mapping_id := (mapping_id s)[i := k],
     lcore_resource := (lcore_resource s)[k := lcore_resource s ! i]\<rparr>"

definition vacated :: "eal \<Rightarrow> nat \<Rightarrow> nat \<Rightarrow> int \<Rightarrow> 'd sys \<Rightarrow> 'd sys" where
  "vacated e i k retval s = s\<lparr>lcore_cfg := free_entry e k (lcore_cfg s),
     mapping_id := (mapping_id s)[i := INVALID_MAPPING_ID],
     proc_config := (proc_config s)[i := (proc_config s ! i)\<lparr>pc_used := 0\<rparr>],
     lcore_resource := (if retval = - 1 then (lcore_resource s)[i := (lcore_resource s ! i)
       \<lparr>lr_flags := lr_flags (lcore_resource s ! i) AND SLAVE_DONT_RECREATE_FLAG\<rparr>] else lcore_resource s)\<rparr>"

lemma slave_enter_spec:
  assumes "slave_enter i s = Some (Some k, s')" "sys_wf e s" "i < RTE_MAX_LCORE e"
  shows "0 < k \<and> k < RTE_MAX_LCORE e \<and> lcore_cfg s ! k = 0 \<and> s' = occupied i k s"
proof -
  let ?k = "scan_free (lcore_cfg s) 1"
  have len: "length (lcore_cfg s) = RTE_MAX_LCORE e" "length (mapping_id s) = RTE_MAX_LCORE e"
    "length (lcore_resource s) = RTE_MAX_LCORE e" using assms(2) by (simp_all add: sys_wf_def)
  have lt: "?k < RTE_MAX_LCORE e" and k: "k = ?k" and s': "s' = occupied i ?k s"
    using assms(1,3) len
    by (auto simp: slave_enter_def flib_assign_lcore_id_def remapping_slave_resource_def arr_get_def arr_set_def
        set_lcore_res_def occupied_def Let_def split: if_splits)
  show ?thesis using scan_free_spec [of 1 "lcore_cfg s"] lt len(1) unfolding k s' by auto
qed

lemma slave_leave_spec:
  assumes "sys_wf e s" "i < RTE_MAX_LCORE e" "float_proc (main_information s) \<noteq> 0"
  shows "slave_leave e i k retval s = Some (vacated e i k retval s)"
proof -
  have len: "i < length (mapping_id s)" "i < length (proc_config s)" "i < length (lcore_resource s)"
    "length (lcore_cfg s) = RTE_MAX_LCORE e" using assms(1,2) by (simp_all add: sys_wf_def)
  have "flib_free_lcore_id e k s = Some (s\<lparr>lcore_cfg := free_entry e k (lcore_cfg s)\<rparr>)"
    using len(4) by (auto simp: flib_free_lcore_id_def free_entry_def arr_set_def)
  then show ?thesis
    using len assms(3) by (simp add: slave_leave_def vacated_def set_used_eq set_lcore_res_eq arr_get_def arr_set_def)
qed

section \<open>Properties\<close>

text \<open>
  The configuration reaches the slave. When a request for a configuration is the oldest message
  of a slave to the master, the master answers it and nothing else is in the ring to the slave, then
  the next message the slave reads is the answer. The number in it is that of a configuration that
  was enabled and not in use; the master has marked it as used and recorded it for that slave. This
  holds in the slave's own view, in which its resource may have moved to another core number.
\<close>

lemma config_handshake:
  assumes "ring_contract ops pool que" "ipc_ok pool que s" "sys_wf e s" "RTE_MAX_LCORE e \<le> 10 ^ 9"
    "i < RTE_MAX_LCORE e" "lr_enabled (lcore_resource s ! i) \<noteq> 0"
    "ring_of s i 0 = Some g0" "ring_of s i 1 = Some g1" "g0 \<noteq> g1"
    "msgs que s g1 = req # rest" "msgs que s g0 = []"
    "poll_lcores ops e [i] c m s = Some (c - 1, m', s')"
    "valid_slave own j" "ring_of own j 0 = Some g0"
  shows "\<exists>p answer s''. get_cmd ops j m0 False (switch_process own s') = Some (0, answer, s'') \<and>
    cmd req = CFG \<and> cmd answer = CFG \<and> atoi (msg answer) = int p \<and> p < RTE_MAX_LCORE e \<and>
    pc_enabled (proc_config s ! p) \<noteq> 0 \<and> pc_used (proc_config s ! p) \<noteq> 1 \<and>
    pc_used (proc_config s' ! p) = 1 \<and> lr_config_id (lcore_resource s' ! i) = p"
proof -
  obtain p where p: "p < RTE_MAX_LCORE e" "free_cfg s p" "msgs que s' g0 = [cfg_msg p]" "ipc_ok pool que s'"
    "lr_config_id (lcore_resource s' ! i) = p" "pc_used (proc_config s' ! p) = 1" "cmd req = CFG"
    by (rule ring_contract.master_answers [OF assms(1-3,5-12)])
  have "\<exists>s''. get_cmd ops j m0 False (switch_process own s') = Some (0, cfg_msg p, s'') \<and>
      ipc_ok pool que s'' \<and> msgs que s'' g0 = []"
    by (rule ring_contract.get_cmd_first [OF assms(1)]) (use p(3,4) assms(13,14) in simp_all)
  moreover have "atoi (msg (cfg_msg p)) = int p"
    using p(1) assms(4) by (simp add: cfg_msg_def atoi_snprintf_d)
  ultimately show ?thesis using p by (auto simp: cfg_msg_def free_cfg_def)
qed

text \<open>A slave 1 whose request is in its ring, and configuration 2 enabled.\<close>

definition demo_request :: "list_dpdk sys" where
  "demo_request = demo_ipc
     \<lparr>dpdk := (dpdk demo_ipc)\<lparr>ring_queues := (\<lambda>_. [])(1 := [3])\<rparr>,
      proc_config := (proc_config demo_ipc)[2 := (proc_config demo_ipc ! 2)\<lparr>pc_enabled := 1\<rparr>]\<rparr>"

lemmas demo_request_defs = demo_request_def demo_ipc_def demo_sys_def

lemma demo_request_facts:
  "ipc_ok list_pool ring_queues demo_request" "sys_wf demo_eal demo_request"
  "RTE_MAX_LCORE demo_eal \<le> 10 ^ 9" "1 < RTE_MAX_LCORE demo_eal" "lr_enabled (lcore_resource demo_request ! 1) \<noteq> 0"
  "ring_of demo_request 1 0 = Some 0" "ring_of demo_request 1 1 = Some 1"
  "msgs ring_queues demo_request 1 = \<lparr>cmd = CFG, msg = ''2''\<rparr> # []" "msgs ring_queues demo_request 0 = []"
  "valid_slave demo_ipc 3" "ring_of demo_ipc 3 0 = Some 0"
  by (auto simp: demo_request_defs ipc_ok_def owned_def list_pool_def sys_wf_def demo_eal_def ring_of_def
      msgs_def valid_slave_def nth_list_update)

lemma demo_poll:
  "\<exists>m' s'. poll_lcores list_ops demo_eal [1] 5 \<lparr>cmd = START, msg = []\<rparr> demo_request = Some (5 - 1, m', s')"
  by (simp add: demo_request_defs demo_eal_def get_cmd_def main_set_lcore_cfg_def send_cmd_def arr_get_def
      list_ops_simps set_used_def set_lcore_res_def arr_set_def upt_rec IPC_NB_MSGBUF_def
      numeral_2_eq_2)

lemma config_handshake_witness:
  "\<exists>p answer s' s''. get_cmd list_ops 3 \<lparr>cmd = START, msg = []\<rparr> False (switch_process demo_ipc s') = Some (0, answer, s'') \<and>
     atoi (msg answer) = int p \<and> p < 4 \<and> pc_enabled (proc_config demo_request ! p) \<noteq> 0"
proof -
  obtain m' s' where run: "poll_lcores list_ops demo_eal [1] 5 \<lparr>cmd = START, msg = []\<rparr> demo_request =
      Some (5 - 1, m', s')" using demo_poll by blast
  have "(0 :: ring_ptr) \<noteq> 1" "RTE_MAX_LCORE demo_eal = 4" by (simp_all add: demo_eal_def)
  with config_handshake [OF lists.ring_contract_axioms demo_request_facts(1-7) _ demo_request_facts(8,9) run
      demo_request_facts(10,11), of "\<lparr>cmd = START, msg = []\<rparr>"]
  show ?thesis by auto
qed

text \<open>
  C21: A slave takes and returns a core number. On entry it gets a number that is free, not 0 and not
  that of a pinned core, marks it as used, records it and finds its own resource under it. When it
  leaves, the table of core numbers is as before and the record is cleared. It marks the entry of
  \<open>proc_config\<close> at its core number as unused, not that of its configuration. After a failure its
  flags keep at most the flag against recreation: the flag is not set by the failure.
\<close>

theorem slave_returns_core:
  assumes "sys_wf e s" "lcore < RTE_MAX_LCORE e"
    "\<forall>i<RTE_MAX_LCORE e. rte_lcore_is_enabled e i \<longrightarrow> lcore_cfg s ! i \<noteq> 0"
    "slave_enter lcore s = Some (Some fl, s1)"
    "sys_wf e s2" "lcore_cfg s2 = lcore_cfg s1" "float_proc (main_information s2) \<noteq> 0"
  shows "0 < fl \<and> fl < RTE_MAX_LCORE e \<and> \<not> rte_lcore_is_enabled e fl \<and> lcore_cfg s ! fl = 0 \<and>
    lcore_cfg s1 ! fl = 1 \<and> mapping_id s1 ! lcore = fl \<and> lcore_resource s1 ! fl = lcore_resource s ! lcore \<and>
    (\<exists>s3. slave_leave e lcore fl retval s2 = Some s3 \<and> lcore_cfg s3 = lcore_cfg s \<and>
       mapping_id s3 ! lcore = INVALID_MAPPING_ID \<and>
       proc_config s3 = (proc_config s2)[lcore := (proc_config s2 ! lcore)\<lparr>pc_used := 0\<rparr>] \<and>
       lr_flags (lcore_resource s3 ! lcore) = (if retval = - 1
         then lr_flags (lcore_resource s2 ! lcore) AND SLAVE_DONT_RECREATE_FLAG
         else lr_flags (lcore_resource s2 ! lcore)))"
proof -
  have n: "0 < fl" "fl < RTE_MAX_LCORE e" "lcore_cfg s ! fl = 0" and one: "s1 = occupied lcore fl s"
    using slave_enter_spec [OF assms(4,1,2)] by auto
  have en: "\<not> rte_lcore_is_enabled e fl" using assms(3) n by auto
  have "(lcore_cfg s2)[fl := 0] = lcore_cfg s"
    using assms(6) list_update_id [of "lcore_cfg s" fl] n(3) by (simp add: one occupied_def)
  then have free: "free_entry e fl (lcore_cfg s2) = lcore_cfg s" using n en by (simp add: free_entry_def)
  show ?thesis
    using n en slave_leave_spec [OF assms(5,2,7), of fl retval] assms(1,2,5)
    by (auto simp: one occupied_def vacated_def free sys_wf_def)
qed

theorem slave_returns_core_witness:
  "\<exists>fl s1 s3. slave_enter 1 (demo_ipc\<lparr>lcore_cfg := [1, 1, 0, 0]\<rparr>) = Some (Some fl, s1) \<and>
     slave_leave demo_eal 1 fl (- 1) s1 = Some s3 \<and> lcore_cfg s3 = [1, 1, 0, 0] \<and> mapping_id s1 ! 1 = fl"
proof -
  let ?s = "demo_ipc\<lparr>lcore_cfg := [1, 1, 0, 0]\<rparr>"
  have wf: "sys_wf demo_eal ?s" by (simp add: sys_wf_def demo_ipc_def demo_sys_def demo_eal_def)
  have i: "1 < RTE_MAX_LCORE demo_eal" by (simp add: demo_eal_def)
  have pin: "\<forall>i<RTE_MAX_LCORE demo_eal. rte_lcore_is_enabled demo_eal i \<longrightarrow> lcore_cfg ?s ! i \<noteq> 0"
    by (auto simp: demo_eal_def less_2_cases_iff)
  have "\<exists>s1. slave_enter 1 ?s = Some (Some 2, s1) \<and> sys_wf demo_eal s1 \<and> float_proc (main_information s1) \<noteq> 0"
    by (simp add: slave_enter_def flib_assign_lcore_id_def scan_free.simps remapping_slave_resource_def
        demo_ipc_def demo_sys_def arr_get_def arr_set_def set_lcore_res_def sys_wf_def demo_eal_def numeral_eq_Suc)
  then obtain s1 where s1: "slave_enter 1 ?s = Some (Some 2, s1)" "sys_wf demo_eal s1"
    "float_proc (main_information s1) \<noteq> 0" by blast
  from slave_returns_core [OF wf i pin s1(1,2) refl s1(3), of "- 1"] s1(1) show ?thesis by auto
qed

end
