(* ===== verification/Processes.thy ===== *)
theory Processes
  imports Slave
begin

text \<open>
  The master and its slaves as one system of processes that interleave. A state holds the view of the
  master (its own variables and the shared memory), the private variables of every slave, its core
  number and the phase of its life. A step is one call of the code by one of the processes, executed
  on that process's view. The slaves of this system end only when they leave their packet loop. The
  locale \<open>ring_registry\<close> adds to the contract of pools and rings what the life of a slave needs of the
  registry of rings and of launching.
\<close>

section \<open>Steps\<close>

datatype phase = Forked | Entered | Waiting | Running nat | Left nat | Ended

record 'd world =
  w_master :: "'d sys"
  w_own :: "nat \<Rightarrow> 'd sys"
  w_num :: "nat \<Rightarrow> nat"
  w_phase :: "nat \<Rightarrow> phase"

definition view :: "'d world \<Rightarrow> nat \<Rightarrow> 'd sys" where
  "view w i = switch_process (w_own w i) (w_master w)"

definition put_view :: "nat \<Rightarrow> 'd sys \<Rightarrow> phase \<Rightarrow> 'd world \<Rightarrow> 'd world" where
  "put_view i s ph w = w\<lparr>w_master := switch_process (w_master w) s, w_own := (w_own w)(i := s),
     w_phase := (w_phase w)(i := ph)\<rparr>"

definition put_master :: "'d sys \<Rightarrow> 'd world \<Rightarrow> 'd world" where
  "put_master s w = w\<lparr>w_master := s\<rparr>"

definition cfg_request :: bridge_msg_s where
  "cfg_request = \<lparr>cmd = CFG, msg = []\<rparr>"

text \<open>
  The calls, in the order of a slave's life: it takes a core number; it asks for a configuration; the
  master reads a message of a slave and answers it; the slave polls its ring and either finds no
  answer or gets its configuration; it leaves its packet loop and ends; the callback of the master runs; the
  master restarts it, and the new process starts with a copy of the master's variables. (The clearing of
  the flag with which the master's loop follows a restart changes nothing: \<open>reset_lcore\<close> has cleared all.)
\<close>

inductive proc_step :: "'d dpdk_ops \<Rightarrow> eal \<Rightarrow> nat \<Rightarrow> 'd world \<Rightarrow> 'd world \<Rightarrow> bool" for ops e n where
  enter: "i \<in> set (slave_lcores e) \<Longrightarrow> w_phase w i = Forked \<Longrightarrow>
    slave_enter i (view w i) = Some (Some fl, s) \<Longrightarrow>
    proc_step ops e n w ((put_view i s Entered w)\<lparr>w_num := (w_num w)(i := fl)\<rparr>)"
| request: "i \<in> set (slave_lcores e) \<Longrightarrow> w_phase w i = Entered \<Longrightarrow>
    send_cmd ops (w_num w i) cfg_request False (view w i) = Some (r, s) \<Longrightarrow>
    proc_step ops e n w (put_view i s Waiting w)"
| poll: "i \<in> set (slave_lcores e) \<Longrightarrow> poll_lcores ops e [i] c m (w_master w) = Some (c', m', s) \<Longrightarrow>
    proc_step ops e n w (put_master s w)"
| nothing: "i \<in> set (slave_lcores e) \<Longrightarrow> w_phase w i = Waiting \<Longrightarrow>
    get_cmd ops (w_num w i) m False (view w i) = Some (r, m', s) \<Longrightarrow>
    r \<noteq> 0 \<or> cmd m' \<noteq> cmd cfg_request \<Longrightarrow>
    proc_step ops e n w (put_view i s Waiting w)"
| answer: "i \<in> set (slave_lcores e) \<Longrightarrow> w_phase w i = Waiting \<Longrightarrow>
    get_cmd ops (w_num w i) m False (view w i) = Some (0, m', s) \<Longrightarrow> cmd m' = cmd cfg_request \<Longrightarrow>
    proc_step ops e n w (put_view i s (Running (unat (of_int (atoi (msg m')) :: u8))) w)"
| leave: "i \<in> set (slave_lcores e) \<Longrightarrow> w_phase w i = Running p \<Longrightarrow>
    slave_leave e i (w_num w i) retval (view w i) = Some s \<Longrightarrow>
    proc_step ops e n w (put_view i s (Left p) w)"
| reaped: "i \<in> set (slave_lcores e) \<Longrightarrow> w_phase w i = Left p \<Longrightarrow>
    slave_exit_cb i stat (w_master w) = Some s \<Longrightarrow>
    proc_step ops e n w ((put_master s w)\<lparr>w_phase := (w_phase w)(i := Ended)\<rparr>)"
| restart: "i \<in> set (slave_lcores e) \<Longrightarrow> w_phase w i = Ended \<Longrightarrow>
    lr_flags (lcore_resource (w_master w) ! i) = SLAVE_RECREATE_FLAG \<Longrightarrow>
    reset_lcore ops e n (lr_lcore_id (lcore_resource (w_master w) ! i)) (w_master w) = Some (Return 0, s) \<Longrightarrow>
    proc_step ops e n w ((put_master s w)\<lparr>w_own := (w_own w)(i := s), w_phase := (w_phase w)(i := Forked)\<rparr>)"

inductive_cases proc_stepE: "proc_step ops e n w w'"

section \<open>The contract of registered rings\<close>

text \<open>
  Besides the contract of pools and rings: a ring that is created is new, empty and registered under its
  name; the names stay registered whatever is sent or launched, and launching touches neither pool nor
  rings.
\<close>

locale ring_registry = ring_contract +
  assumes lookup_get: "rte_mempool_get ops d = (x, d') \<Longrightarrow> rte_ring_lookup ops d' = rte_ring_lookup ops d"
    and lookup_put: "rte_ring_lookup ops (rte_mempool_put ops d b) = rte_ring_lookup ops d"
    and lookup_enqueue: "rte_ring_enqueue ops d r b = (k, d') \<Longrightarrow> rte_ring_lookup ops d' = rte_ring_lookup ops d"
    and lookup_dequeue: "rte_ring_dequeue ops d r = (x, d') \<Longrightarrow> rte_ring_lookup ops d' = rte_ring_lookup ops d"
    and wait_lcore: "rte_ring_lookup ops (rte_eal_wait_lcore ops d i) = rte_ring_lookup ops d"
      "pool (rte_eal_wait_lcore ops d i) = pool d" "que (rte_eal_wait_lcore ops d i) = que d"
    and remote_launch: "rte_eal_remote_launch ops d i = (k, d') \<Longrightarrow>
      rte_ring_lookup ops d' = rte_ring_lookup ops d \<and> pool d' = pool d \<and> que d' = que d"
    and mp_remote_launch: "rte_eal_mp_remote_launch ops d = (k, d') \<Longrightarrow>
      rte_ring_lookup ops d' = rte_ring_lookup ops d \<and> pool d' = pool d \<and> que d' = que d"
    and create: "rte_ring_lookup ops d nm = None \<Longrightarrow> rte_ring_create ops d nm c = (Some r, d') \<Longrightarrow>
      rte_ring_lookup ops d' = (rte_ring_lookup ops d)(nm \<mapsto> r) \<and> (\<forall>nm'. rte_ring_lookup ops d nm' \<noteq> Some r) \<and>
      pool d' = pool d \<and> que d' = (que d)(r := [])"

lemma index_of_bound: "index_of x ys = Some k \<Longrightarrow> k < length ys"
  by (induction ys arbitrary: k) (auto split: if_splits)

lemma index_of_append:
  "index_of x (ys @ [y]) = (case index_of x ys of
     Some k \<Rightarrow> Some k | None \<Rightarrow> if x = y then Some (length ys) else None)"
  by (induction ys) (auto split: option.splits)

interpretation list_registry: ring_registry list_ops list_pool ring_queues
  by unfold_locales (auto simp: list_ops_simps index_of_append fun_eq_iff dest: index_of_bound
      split: list.splits if_splits option.splits)

context ring_registry
begin

lemma send_cmd_lookup:
  "send_cmd ops i m im s = Some (r, s') \<Longrightarrow> rte_ring_lookup ops (dpdk s') = rte_ring_lookup ops (dpdk s)"
  by (auto simp: send_cmd_def Let_def lookup_put split: option.splits prod.splits if_splits Option.bind_splits
      dest!: lookup_get lookup_enqueue)

lemma get_cmd_lookup:
  "get_cmd ops i m im s = Some (r, m', s') \<Longrightarrow> rte_ring_lookup ops (dpdk s') = rte_ring_lookup ops (dpdk s)"
  by (auto simp: get_cmd_def Let_def lookup_put split: option.splits prod.splits if_splits Option.bind_splits
      dest!: lookup_dequeue)

lemma drain_ring_lookup:
  "drain_ring ops i im k m s = Some (m', s') \<Longrightarrow> rte_ring_lookup ops (dpdk s') = rte_ring_lookup ops (dpdk s)"
proof (induction k arbitrary: m s)
  case 0
  then show ?case by simp
next
  case (Suc k)
  obtain r m1 s1 where get: "get_cmd ops i m im s = Some (r, m1, s1)"
    "(if r = 0 then drain_ring ops i im k m1 s1 else Some (m1, s1)) = Some (m', s')"
    using Suc.prems by (auto simp: run_convs)
  then show ?case using Suc.IH [of m1 s1] get_cmd_lookup [OF get(1)] by (auto split: if_splits)
qed

lemma init_slave_res_lookup:
  assumes "complete_res s i" "rings_exist ops s i g0 g1" "init_slave_res ops k i s = Some (Return 0, s')"
  shows "rte_ring_lookup ops (dpdk s') = rte_ring_lookup ops (dpdk s)"
  using assms(3) create_ms_ring_attach [OF assms(1,2)]
  by (auto simp: init_slave_res_def run_convs dest!: drain_ring_lookup)

lemma remote_launch_Return:
  assumes "flib_remote_launch ops e (Some f) a i s = Some (0, s')"
  shows "\<exists>d c. s' = s\<lparr>dpdk := d, core_cfg := c\<rparr> \<and> length c = length (core_cfg s) \<and>
    rte_ring_lookup ops d = rte_ring_lookup ops (dpdk s) \<and> pool d = pool (dpdk s) \<and> que d = que (dpdk s)"
proof -
  let ?d = "rte_eal_wait_lcore ops (dpdk s) i"
  obtain k d where d: "rte_eal_remote_launch ops ?d i = (k, d)" by fastforce
  let ?c = "(core_cfg s)[i := (core_cfg s ! i)\<lparr>ls_f := Some f, ls_arg := a\<rparr>]"
  have "s' = s\<lparr>dpdk := d, core_cfg := ?c\<rparr>"
    using assms d
    by (auto simp: flib_remote_launch_def upd_core_def arr_get_def arr_set_def Let_def run_convs split: if_splits)
  then have "\<exists>c. s' = s\<lparr>dpdk := d, core_cfg := c\<rparr> \<and> length c = length (core_cfg s)"
    by (intro exI [of _ ?c]) simp
  then show ?thesis using remote_launch [OF d] wait_lcore [of "dpdk s" i] by auto
qed

text \<open>Restarting a slave whose rings are empty and that has returned its core number.\<close>

lemma reset_lcore_clean:
  assumes ok: "ipc_ok pool que s" and wf: "sys_wf e s" and i: "i < RTE_MAX_LCORE e" "lr_enabled (lcore_resource s ! i) = 1"
    and g: "rings_exist ops s i g0 g1" "g0 \<noteq> g1" and q: "msgs que s g0 = []" "msgs que s g1 = []"
    and map: "mapping_id s ! i = INVALID_MAPPING_ID" and run: "reset_lcore ops e k i s = Some (Return 0, s')"
  shows "\<exists>d mm c. s' = s\<lparr>dpdk := d, msg_mem := mm, core_cfg := c, lcore_resource :=
      (lcore_resource s)[i := (attached i g0 g1 (lcore_resource s ! i))\<lparr>lr_flags := 0\<rparr>]\<rparr> \<and>
    length c = length (core_cfg s) \<and> rte_ring_lookup ops d = rte_ring_lookup ops (dpdk s) \<and>
    ipc_ok pool que s' \<and> msgs que s' = msgs que s \<and> ipc_buffers pool que s' = ipc_buffers pool que s"
proof -
  have li: "i < length (lcore_resource s)" "i < length (mapping_id s)" using wf i(1) by (simp_all add: sys_wf_def)
  have cr: "complete_res s i" by (rule complete_res_wf [OF wf i(1)])
  let ?s1 = "s\<lparr>lcore_resource := (lcore_resource s)[i := attached i g0 g1 (lcore_resource s ! i)]\<rparr>"
  have ret: "return_mapping e i s = Some s" using map li(2) by (simp add: return_mapping_def arr_get_def)
  obtain s2 s3 where r: "init_slave_res ops k i s = Some (Return 0, s2)"
    "flib_remote_launch ops e (Some fn_bridge_launch_one_lcore) 0 i s2 = Some (0, s3)"
    "do { r \<leftarrow> arr_get (lcore_resource s3) i; set_lcore_res i (r\<lparr>lr_flags := 0\<rparr>) s3 } = Some s'"
    using run ret i(2) li(1) by (auto simp: reset_lcore_def recreate_one_slave_def arr_get_def run_convs)
  have "0 < k" using r(1) li(1) create_ms_ring_attach [OF cr g(1)]
    by (cases k) (auto simp: init_slave_res_def run_convs)
  then obtain s2' where "init_slave_res ops k i s = Some (Return 0, s2')" "ipc_frame ?s1 s2'"
    "ipc_ok pool que s2'" "ipc_buffers pool que s2' = ipc_buffers pool que s"
    "msgs que s2' = (msgs que s)(g0 := [], g1 := [])"
    using init_slave_res_spec [OF ok cr g, of k] i(2) q by auto
  moreover from this have "s2' = s2" using r(1) by simp
  ultimately have s2: "ipc_frame ?s1 s2" "ipc_ok pool que s2" "ipc_buffers pool que s2 = ipc_buffers pool que s"
    "msgs que s2 = msgs que s" using q by (simp_all add: fun_upd_idem)
  obtain d1 mm where f: "s2 = ?s1\<lparr>dpdk := d1, msg_mem := mm\<rparr>" using s2(1) unfolding ipc_frame_def by blast
  obtain d c where l: "s3 = s2\<lparr>dpdk := d, core_cfg := c\<rparr>" "length c = length (core_cfg s2)"
    "rte_ring_lookup ops d = rte_ring_lookup ops (dpdk s2)" "pool d = pool (dpdk s2)" "que d = que (dpdk s2)"
    using remote_launch_Return [OF r(2)] by blast
  have "s' = s\<lparr>dpdk := d, msg_mem := mm, core_cfg := c, lcore_resource :=
      (lcore_resource s)[i := (attached i g0 g1 (lcore_resource s ! i))\<lparr>lr_flags := 0\<rparr>]\<rparr>"
    using r(3) li(1) by (auto simp: l(1) f arr_get_def set_lcore_res_eq)
  moreover have "rte_ring_lookup ops d = rte_ring_lookup ops (dpdk s)"
    using l(3) init_slave_res_lookup [OF cr g(1) r(1)] by simp
  moreover have "ipc_ok pool que s'" "ipc_buffers pool que s' = ipc_buffers pool que s2"
    using calculation(1) l(4,5) s2(2) by (simp_all add: ipc_ok_def ipc_buffers_def f)
  moreover have "msgs que s' = msgs que s2"
    by (rule ext) (use calculation(1) l(5) in \<open>simp add: msgs_def f\<close>)
  ultimately show ?thesis using l(2) s2(3,4) by (intro exI [of _ d] exI [of _ mm] exI [of _ c]) (simp add: f)
qed

end

end
