(* ===== verification/Master_Loop.thy ===== *)
theory Master_Loop
  imports Processes
begin

text \<open>
  The endless loop of the master, round by round: it keeps the tables and the message buffers in order,
  never runs into undefined behaviour, and restarts every slave whose end has been recorded.
\<close>

section \<open>What the loop relies on\<close>

text \<open>An enabled slave, as the setup leaves it.\<close>

definition slave_set_up :: "'d dpdk_ops \<Rightarrow> eal \<Rightarrow> 'd sys \<Rightarrow> nat \<Rightarrow> bool" where
  "slave_set_up ops e s i \<longleftrightarrow> lr_enabled (lcore_resource s ! i) = 1 \<and> rte_lcore_is_enabled e i \<and>
     lr_lcore_id (lcore_resource s ! i) = i \<and> (\<exists>g0 g1. g0 \<noteq> g1 \<and> rings_exist ops s i g0 g1)"

text \<open>
  The invariant of the loop. \<open>n\<close> bounds the number of message buffers, and with it the reads with which a
  ring is emptied.
\<close>

definition loop_ok ::
  "'d dpdk_ops \<Rightarrow> ('d \<Rightarrow> msg_ptr multiset) \<Rightarrow> ('d \<Rightarrow> ring_ptr \<Rightarrow> msg_ptr list) \<Rightarrow> eal \<Rightarrow> nat \<Rightarrow> 'd sys \<Rightarrow> bool" where
  "loop_ok ops pool que e n s \<longleftrightarrow> sys_wf e s \<and> ipc_ok pool que s \<and>
     finite (ipc_buffers pool que s) \<and> card (ipc_buffers pool que s) < n \<and>
     set (mapping_id s) \<subseteq> insert INVALID_MAPPING_ID {..<RTE_MAX_LCORE e} \<and>
     proc_config_nb (main_information s) \<le> int (length (sys_statistics s)) \<and>
     proc_config_nb (main_information s) \<le> int (RTE_MAX_LCORE e) \<and>
     unat (mi_port_nb (main_information s)) \<le> 31 \<and>
     (\<forall>i<RTE_MAX_LCORE e. lr_enabled (lcore_resource s ! i) \<noteq> 0 \<longrightarrow> slave_set_up ops e s i)"

text \<open>What a step of the loop may change of it.\<close>

definition loop_frame :: "'d dpdk_ops \<Rightarrow> 'd sys \<Rightarrow> 'd sys \<Rightarrow> bool" where
  "loop_frame ops s s' \<longleftrightarrow> rte_ring_lookup ops (dpdk s') = rte_ring_lookup ops (dpdk s) \<and>
     set (mapping_id s') \<subseteq> insert INVALID_MAPPING_ID (set (mapping_id s)) \<and> sys_statistics s' = sys_statistics s \<and>
     proc_config_nb (main_information s') = proc_config_nb (main_information s) \<and>
     mi_port_nb (main_information s') = mi_port_nb (main_information s) \<and>
     mi_port_mask (main_information s') = mi_port_mask (main_information s) \<and>
     (\<forall>i. lr_enabled (lcore_resource s' ! i) = lr_enabled (lcore_resource s ! i) \<and>
        lr_lcore_id (lcore_resource s' ! i) = lr_lcore_id (lcore_resource s ! i))"

definition same_flags :: "'d sys \<Rightarrow> 'd sys \<Rightarrow> bool" where
  "same_flags s s' \<longleftrightarrow> (\<forall>i. lr_flags (lcore_resource s' ! i) = lr_flags (lcore_resource s ! i))"

lemma loop_frame_refl [simp]: "loop_frame ops s s" "same_flags s s"
  by (auto simp: loop_frame_def same_flags_def)

lemma loop_frame_trans: "loop_frame ops s s' \<Longrightarrow> loop_frame ops s' s'' \<Longrightarrow> loop_frame ops s s''"
  unfolding loop_frame_def by auto

lemma loop_ok_frame:
  assumes "loop_ok ops pool que e n s" "loop_frame ops s s'" "sys_wf e s'" "ipc_ok pool que s'"
    "ipc_buffers pool que s' = ipc_buffers pool que s"
  shows "loop_ok ops pool que e n s'"
  using assms unfolding loop_ok_def loop_frame_def slave_set_up_def rings_exist_def by auto

text \<open>A ring never holds more messages than there are buffers.\<close>

lemma msgs_bound:
  assumes "ipc_ok pool que s" "finite (ipc_buffers pool que s)"
  shows "length (msgs que s g) \<le> card (ipc_buffers pool que s)"
proof -
  have "distinct (que (dpdk s) g)" using assms(1) by (simp add: ipc_ok_def owned_def)
  moreover have "set (que (dpdk s) g) \<subseteq> ipc_buffers pool que s" by (auto simp: ipc_buffers_def buffers_def)
  ultimately show ?thesis
    using card_mono [OF assms(2)] by (metis distinct_card length_map msgs_def)
qed

text \<open>Every resource names a configuration inside the table; the callbacks stay registered.\<close>

definition cfg_ids :: "eal \<Rightarrow> 'd sys \<Rightarrow> bool" where
  "cfg_ids e s \<longleftrightarrow> (\<forall>i<RTE_MAX_LCORE e. lr_config_id (lcore_resource s ! i) < RTE_MAX_LCORE e)"

definition quiet :: "eal \<Rightarrow> 'd sys \<Rightarrow> 'd sys \<Rightarrow> bool" where
  "quiet e s s' \<longleftrightarrow> map ls_cb_fn (core_cfg s') = map ls_cb_fn (core_cfg s) \<and> (cfg_ids e s \<longrightarrow> cfg_ids e s')"

lemma quiet_ipc: "ipc_frame s s' \<Longrightarrow> quiet e s s'"
  using ipc_frame_tables [of s s'] by (simp add: quiet_def cfg_ids_def)

lemma quiet_trans: "quiet e s s' \<Longrightarrow> quiet e s' s'' \<Longrightarrow> quiet e s s''"
  by (auto simp: quiet_def)

lemma quiet_assign: "p < RTE_MAX_LCORE e \<Longrightarrow> quiet e s (assign_cfg i p s)"
  by (cases "i < length (lcore_resource s)")
    (auto simp: quiet_def cfg_ids_def assign_cfg_def nth_list_update list_update_beyond)

lemma map_cb_update [simp]:
  "map ls_cb_fn (xs[i := (xs ! i)\<lparr>ls_f := f, ls_arg := a\<rparr>]) = map ls_cb_fn xs"
  "map ls_cb_fn (xs[i := (xs ! i)\<lparr>ls_pid := c\<rparr>]) = map ls_cb_fn xs"
  "map ls_cb_fn (xs[i := (xs ! i)\<lparr>ls_pid := c, ls_f := f, ls_arg := a\<rparr>]) = map ls_cb_fn xs"
  by (cases "i < length xs"; simp add: map_update list_update_same_conv list_update_beyond)+

section \<open>Polling\<close>

lemma get_cmd_frame:
  assumes "get_cmd ops i m im s = Some (r, m', s')"
  shows "ipc_frame s s'"
  using assms
  by (auto simp: get_cmd_def Let_def split: option.splits prod.splits if_splits Option.bind_splits)

lemma loop_frame_ipc:
  "ipc_frame s s' \<Longrightarrow> rte_ring_lookup ops (dpdk s') = rte_ring_lookup ops (dpdk s) \<Longrightarrow>
     loop_frame ops s s' \<and> same_flags s s'"
  by (auto simp: ipc_frame_def loop_frame_def same_flags_def)

lemma loop_frame_assign:
  "loop_frame ops s (assign_cfg i p s) \<and> same_flags s (assign_cfg i p s)"
  by (cases "i < length (lcore_resource s)")
    (auto simp: loop_frame_def same_flags_def assign_cfg_def nth_list_update list_update_beyond)

context ring_registry
begin

lemma poll_frame:
  assumes "poll_lcores ops e ids c m s = Some (c', m', s')" "sys_wf e s" "\<forall>i\<in>set ids. i < RTE_MAX_LCORE e"
  shows "loop_frame ops s s' \<and> same_flags s s'"
  using assms
proof (induction ids arbitrary: c m s)
  case Nil
  then show ?case by simp
next
  case (Cons i ids)
  obtain r m1 s1 where get: "get_cmd ops i m True s = Some (r, m1, s1)"
    using Cons.prems(1) by (auto simp: run_convs)
  have f1: "loop_frame ops s s1 \<and> same_flags s s1" "sys_wf e s1"
    using loop_frame_ipc [OF get_cmd_frame [OF get] get_cmd_lookup [OF get]]
      ipc_frame_private [OF get_cmd_frame [OF get], of e] Cons.prems(2) by simp_all
  show ?case
  proof (cases "r = 0 \<and> cmd m1 = CFG")
    case False
    then have "poll_lcores ops e ids c m1 s1 = Some (c', m', s')" using Cons.prems(1) get by auto
    from Cons.IH [OF this f1(2)] Cons.prems(3) f1(1) show ?thesis
      by (auto simp: same_flags_def intro: loop_frame_trans)
  next
    case True
    then obtain v s2 where s2: "main_set_lcore_cfg ops e i s1 = Some (v, s2)"
      "poll_lcores ops e ids (if v = 0 then c - 1 else c) m1 s2 = Some (c', m', s')"
      using Cons.prems(1) get by (auto simp: run_convs)
    have i: "i < RTE_MAX_LCORE e" using Cons.prems(3) by simp
    have f2: "loop_frame ops s1 s2 \<and> same_flags s1 s2 \<and> sys_wf e s2"
    proof (cases "find (free_cfg s1) [0..<RTE_MAX_LCORE e]")
      case None
      then show ?thesis
        using s2(1) f1(2) i by (simp add: main_set_lcore_cfg_def set_cfg_loop_find sys_wf_def)
    next
      case (Some p)
      then obtain k s3 where s3: "send_cmd ops i (cfg_msg p) True s1 = Some (k, s3)" "s2 = (if k \<noteq> 0 then s3 else assign_cfg i p s3)"
        using s2(1) f1(2) i
        by (auto simp: main_set_lcore_cfg_def set_cfg_loop_find sys_wf_def run_convs split: if_splits)
      have f3: "loop_frame ops s1 s3 \<and> same_flags s1 s3" "sys_wf e s3"
        using loop_frame_ipc [OF send_cmd_frame [OF s3(1)] send_cmd_lookup [OF s3(1)]]
          ipc_frame_private [OF send_cmd_frame [OF s3(1)], of e] f1(2) by simp_all
      then show ?thesis
        using s3(2) loop_frame_assign [of ops s3 i p] sys_wf_assign [OF f3(2) i, of p]
        by (auto simp: same_flags_def intro: loop_frame_trans)
    qed
    from Cons.IH [OF s2(2)] f2 Cons.prems(3) f1(1) show ?thesis
      by (auto simp: same_flags_def intro: loop_frame_trans)
  qed
qed

lemma poll_ok:
  assumes "loop_ok ops pool que e n s"
  shows "\<exists>c' m' s'. poll_lcores ops e [0..<RTE_MAX_LCORE e] c m s = Some (c', m', s') \<and>
    loop_ok ops pool que e n s' \<and> loop_frame ops s s' \<and> same_flags s s'"
proof -
  have wf: "sys_wf e s" "ipc_ok pool que s" using assms by (simp_all add: loop_ok_def)
  obtain given m' s' where run: "poll_lcores ops e [0..<RTE_MAX_LCORE e] c m s = Some (c - int (length (given :: (nat \<times> nat) list)), m', s')"
    "ipc_ok pool que s'" "ipc_buffers pool que s' = ipc_buffers pool que s" "sys_wf e s'"
    using poll_lcores_spec [OF wf(2,1), of "[0..<RTE_MAX_LCORE e]" c m] by auto
  have f: "loop_frame ops s s' \<and> same_flags s s'" by (rule poll_frame [OF run(1) wf(1)]) simp
  then show ?thesis using run loop_ok_frame [OF assms _ run(4,2,3)] by blast
qed

end

section \<open>Restarting\<close>

text \<open>\<open>reset_lcore\<close> up to the wait for the thread, and from there on.\<close>

definition reset_prepare ::
  "'d dpdk_ops \<Rightarrow> eal \<Rightarrow> nat \<Rightarrow> nat \<Rightarrow> 'd sys \<Rightarrow> (int proc_outcome \<times> 'd sys) option" where
  "reset_prepare ops e n lcore_id s = do {
     s \<leftarrow> return_mapping e lcore_id s;
     lcore_res \<leftarrow> arr_get (lcore_resource s) lcore_id;
     if lr_enabled lcore_res = 1 then init_slave_res ops n lcore_id s else Some (Return 0, s)
   }"

definition reset_finish :: "'d dpdk_ops \<Rightarrow> eal \<Rightarrow> nat \<Rightarrow> 'd sys \<Rightarrow> (int \<times> 'd sys) option" where
  "reset_finish ops e lcore_id s = do {
     lcore_res \<leftarrow> arr_get (lcore_resource s) lcore_id;
     (v, s) \<leftarrow> (if lr_enabled lcore_res = 1
                then flib_remote_launch ops e (Some fn_bridge_launch_one_lcore) 0 lcore_id s else Some (0, s));
     if v \<noteq> 0 then Some (- 1, s)
     else do {
       lcore_res \<leftarrow> arr_get (lcore_resource s) lcore_id;
       s \<leftarrow> set_lcore_res lcore_id (lcore_res\<lparr>lr_flags := 0\<rparr>) s;
       Some (0, s)
     }
   }"

lemma reset_lcore_split:
  assumes "reset_prepare ops e n i s = Some (Return 0, s1)" "reset_finish ops e i s1 = Some (0, s')"
    "lr_enabled (lcore_resource s ! i) = 1" "lr_enabled (lcore_resource s1 ! i) = 1"
  shows "reset_lcore ops e n i s = Some (Return 0, s')"
proof -
  obtain s0 where s0: "return_mapping e i s = Some s0" using assms(1) by (auto simp: reset_prepare_def run_convs)
  have "lcore_resource s0 = lcore_resource s"
    using s0 by (auto simp: return_mapping_def flib_free_lcore_id_def set_used_def run_convs split: if_splits)
  then show ?thesis
    using assms s0
    by (auto simp: reset_lcore_def recreate_one_slave_def reset_prepare_def reset_finish_def arr_get_def run_convs
        split: if_splits)
qed

context ring_registry
begin

lemma prepare_ok:
  assumes ok: "loop_ok ops pool que e n s" and i: "i < RTE_MAX_LCORE e" "lr_enabled (lcore_resource s ! i) = 1"
  shows "\<exists>s'. reset_prepare ops e n i s = Some (Return 0, s') \<and> loop_ok ops pool que e n s' \<and>
    loop_frame ops s s' \<and> same_flags s s' \<and> quiet e s s'"
proof -
  have wf: "sys_wf e s" "ipc_ok pool que s" "finite (ipc_buffers pool que s)" "card (ipc_buffers pool que s) < n"
    using ok by (simp_all add: loop_ok_def)
  obtain g0 g1 where g: "g0 \<noteq> g1" "rings_exist ops s i g0 g1"
    using ok i by (auto simp: loop_ok_def slave_set_up_def)
  have n: "length (msgs que s g) < n" for g using msgs_bound [OF wf(2,3), of g] wf(4) by simp
  have li: "i < length (mapping_id s)" "i < length (lcore_resource s)" using wf(1) i(1) by (simp_all add: sys_wf_def)
  then have "mapping_id s ! i \<in> set (mapping_id s)" by simp
  then have map: "mapping_id s ! i = INVALID_MAPPING_ID \<or> mapping_id s ! i < RTE_MAX_LCORE e"
    using ok unfolding loop_ok_def by auto
  obtain c m p where ret: "return_mapping e i s = Some (s\<lparr>lcore_cfg := c, mapping_id := m, proc_config := p\<rparr>)"
    "length c = RTE_MAX_LCORE e" "length m = RTE_MAX_LCORE e" "length p = RTE_MAX_LCORE e"
    "set m \<subseteq> insert INVALID_MAPPING_ID (set (mapping_id s))"
    by (rule return_mapping_spec [OF wf(1) i(1) map])
  let ?r = "attached i g0 g1 (lcore_resource s ! i)"
  define s1 where "s1 = s\<lparr>lcore_cfg := c, mapping_id := m, proc_config := p\<rparr>"
  have s1: "ipc_ok pool que s1" "complete_res s1 i" "rings_exist ops s1 i g0 g1"
    "lr_enabled (lcore_resource s1 ! i) \<noteq> 0" "msgs que s1 = msgs que s" "ipc_buffers pool que s1 = ipc_buffers pool que s"
    using wf i g(2) by (simp_all add: s1_def complete_res_def sys_wf_def rings_exist_def
        ipc_ok_def ipc_buffers_def msgs_def fun_eq_iff)
  obtain s2 where s2: "init_slave_res ops n i s1 = Some (Return 0, s2)"
    "ipc_frame (s1\<lparr>lcore_resource := (lcore_resource s1)[i := attached i g0 g1 (lcore_resource s1 ! i)]\<rparr>) s2"
    "ipc_ok pool que s2" "ipc_buffers pool que s2 = ipc_buffers pool que s1"
    using init_slave_res_spec [OF s1(1-3) g(1) s1(4), of n] s1(5) n by auto
  obtain d mm where f: "s2 = s1\<lparr>lcore_resource := (lcore_resource s)[i := ?r], dpdk := d, msg_mem := mm\<rparr>"
    using s2(2) unfolding ipc_frame_def by (auto simp: s1_def)
  have run: "reset_prepare ops e n i s = Some (Return 0, s2)"
    using ret(1) s2(1) i li by (simp add: reset_prepare_def arr_get_def s1_def)
  have lk: "rte_ring_lookup ops (dpdk s2) = rte_ring_lookup ops (dpdk s)"
    using init_slave_res_lookup [OF s1(2,3) s2(1)] by (simp add: s1_def)
  have res: "lcore_resource s2 ! j = (if j = i then ?r else lcore_resource s ! j)" for j
    using li(2) by (simp add: f)
  have "sys_wf e s2"
    using sys_wf_update [OF wf(1) refl, where r = ?r and d = d and i = i] ret(2-4) wf(1)
    by (simp add: f s1_def attached_def sys_wf_def)
  moreover have fr: "loop_frame ops s s2" "same_flags s s2"
    unfolding loop_frame_def same_flags_def lk res using ret(5) by (simp_all add: f s1_def attached_def)
  moreover have "quiet e s s2" unfolding quiet_def cfg_ids_def res by (simp add: f s1_def attached_def)
  ultimately show ?thesis using run s2(3,4) s1(6) loop_ok_frame [OF ok fr(1)] by auto
qed

lemma finish_ok:
  assumes ok: "loop_ok ops pool que e n s" and i: "i < RTE_MAX_LCORE e" "lr_enabled (lcore_resource s ! i) = 1"
    and l: "launch_ok ops pool que i"
  shows "\<exists>s'. reset_finish ops e i s = Some (0, s') \<and> loop_ok ops pool que e n s' \<and> loop_frame ops s s' \<and> quiet e s s' \<and>
    lr_flags (lcore_resource s' ! i) = 0 \<and> (\<forall>j. j \<noteq> i \<longrightarrow> lr_flags (lcore_resource s' ! j) = lr_flags (lcore_resource s ! j))"
proof -
  have wf: "sys_wf e s" "ipc_ok pool que s" "rte_lcore_is_enabled e i"
    using ok i by (simp_all add: loop_ok_def slave_set_up_def)
  have li: "i < length (core_cfg s)" "i < length (lcore_resource s)" using wf(1) i(1) by (simp_all add: sys_wf_def)
  let ?c = "(core_cfg s)[i := (core_cfg s ! i)\<lparr>ls_f := Some fn_bridge_launch_one_lcore, ls_arg := 0\<rparr>]"
  let ?r = "(lcore_resource s ! i)\<lparr>lr_flags := 0\<rparr>"
  obtain d where d: "flib_remote_launch ops e (Some fn_bridge_launch_one_lcore) 0 i s = Some (0, s\<lparr>dpdk := d, core_cfg := ?c\<rparr>)"
    "pool d = pool (dpdk s)" "que d = que (dpdk s)"
    by (rule launch_spec [OF l wf(3) li(1)])
  have lk: "rte_ring_lookup ops d = rte_ring_lookup ops (dpdk s)"
    using remote_launch_Return [OF d(1)] by (auto dest!: arg_cong [where f = dpdk])
  define s' where "s' = s\<lparr>dpdk := d, core_cfg := ?c, lcore_resource := (lcore_resource s)[i := ?r]\<rparr>"
  have run: "reset_finish ops e i s = Some (0, s')"
    using d(1) li i(2) by (simp add: reset_finish_def arr_get_def set_lcore_res_eq s'_def)
  have res: "lcore_resource s' ! j = (if j = i then ?r else lcore_resource s ! j)" for j
    using li(2) by (simp add: s'_def)
  have "length (lr_ring ?r) = 2" "length (lr_ring_name ?r) = 2"
    using wf(1) li(2) by (simp_all add: sys_wf_def)
  then have "sys_wf e s'"
    using sys_wf_update [OF wf(1) refl, where r = ?r and d = d and i = i] wf(1) by (simp add: s'_def sys_wf_def)
  moreover have "loop_frame ops s s'" unfolding loop_frame_def res using lk by (auto simp: s'_def)
  moreover have "quiet e s s'" unfolding quiet_def cfg_ids_def res by (simp add: s'_def)
  moreover have "ipc_ok pool que s'" "ipc_buffers pool que s' = ipc_buffers pool que s"
    using wf(2) d(2,3) by (simp_all add: s'_def ipc_ok_def ipc_buffers_def)
  ultimately show ?thesis using run loop_ok_frame [OF ok] by (intro exI [of _ s']) (simp add: res)
qed

lemma reset_ok:
  assumes ok: "loop_ok ops pool que e n s" and i: "i < RTE_MAX_LCORE e" "lr_enabled (lcore_resource s ! i) = 1"
    and l: "launch_ok ops pool que i"
  shows "\<exists>s'. reset_lcore ops e n i s = Some (Return 0, s') \<and> loop_ok ops pool que e n s' \<and> loop_frame ops s s' \<and>
    lr_flags (lcore_resource s' ! i) = 0 \<and> (\<forall>j. j \<noteq> i \<longrightarrow> lr_flags (lcore_resource s' ! j) = lr_flags (lcore_resource s ! j))"
proof -
  obtain s1 where s1: "reset_prepare ops e n i s = Some (Return 0, s1)" "loop_ok ops pool que e n s1"
    "loop_frame ops s s1" "same_flags s s1" using prepare_ok [OF ok i] by blast
  have en: "lr_enabled (lcore_resource s1 ! i) = 1" using s1(3) i(2) by (simp add: loop_frame_def)
  obtain s' where s': "reset_finish ops e i s1 = Some (0, s')" "loop_ok ops pool que e n s'" "loop_frame ops s1 s'"
    "lr_flags (lcore_resource s' ! i) = 0" "\<forall>j. j \<noteq> i \<longrightarrow> lr_flags (lcore_resource s' ! j) = lr_flags (lcore_resource s1 ! j)"
    using finish_ok [OF s1(2) i(1) en l] by blast
  show ?thesis
    using reset_lcore_split [OF s1(1) s'(1) i(2) en] s'(2,4,5) s1(4) loop_frame_trans [OF s1(3) s'(3)]
    by (intro exI [of _ s']) (simp add: same_flags_def)
qed

lemma recreate_ok:
  assumes "loop_ok ops pool que e n s" "\<forall>i\<in>set ids. i < RTE_MAX_LCORE e \<and> launch_ok ops pool que i"
  shows "\<exists>s'. recreate_lcores ops e n ids s = Some (Return (), s') \<and> loop_ok ops pool que e n s' \<and> loop_frame ops s s' \<and>
    (\<forall>i. lr_flags (lcore_resource s' ! i) = SLAVE_RECREATE_FLAG \<longrightarrow> lr_enabled (lcore_resource s' ! i) = 1 \<longrightarrow>
       i \<notin> set ids \<and> lr_flags (lcore_resource s ! i) = SLAVE_RECREATE_FLAG)"
  using assms
proof (induction ids arbitrary: s)
  case Nil
  then show ?case by simp
next
  case (Cons i ids)
  let ?r = "lcore_resource s ! i"
  have i: "i < RTE_MAX_LCORE e" "i < length (lcore_resource s)"
    using Cons.prems by (simp_all add: loop_ok_def sys_wf_def)
  have rest: "\<forall>i\<in>set ids. i < RTE_MAX_LCORE e \<and> launch_ok ops pool que i" using Cons.prems(2) by simp
  show ?case
  proof (cases "lr_enabled ?r = 1 \<and> lr_flags ?r = SLAVE_RECREATE_FLAG")
    case False
    then have "recreate_lcores ops e n (i # ids) s = recreate_lcores ops e n ids s" using i(2) by (auto simp: arr_get_def)
    then show ?thesis using Cons.IH [OF Cons.prems(1) rest] False by (auto simp: loop_frame_def)
  next
    case True
    obtain s1 where s1: "reset_lcore ops e n i s = Some (Return 0, s1)" "loop_ok ops pool que e n s1" "loop_frame ops s s1"
      "lr_flags (lcore_resource s1 ! i) = 0" "\<forall>j. j \<noteq> i \<longrightarrow> lr_flags (lcore_resource s1 ! j) = lr_flags (lcore_resource s ! j)"
      using reset_ok [OF Cons.prems(1) i(1)] True Cons.prems(2) by auto
    have li: "i < length (lcore_resource s1)" using s1(2) i(1) by (simp add: loop_ok_def sys_wf_def)
    have id: "lr_lcore_id ?r = i" using Cons.prems(1) i(1) True by (simp add: loop_ok_def slave_set_up_def)
    have "(lcore_resource s1 ! i)\<lparr>lr_flags := lr_flags (lcore_resource s1 ! i) AND NOT SLAVE_RECREATE_FLAG\<rparr> = lcore_resource s1 ! i"
      using s1(4) by simp
    then have "recreate_lcores ops e n (i # ids) s = recreate_lcores ops e n ids s1"
      using True s1(1) i(2) li id by (simp add: arr_get_def set_lcore_res_eq)
    moreover obtain s' where s': "recreate_lcores ops e n ids s1 = Some (Return (), s')" "loop_ok ops pool que e n s'"
      "loop_frame ops s1 s'"
      "\<forall>j. lr_flags (lcore_resource s' ! j) = SLAVE_RECREATE_FLAG \<longrightarrow> lr_enabled (lcore_resource s' ! j) = 1 \<longrightarrow>
         j \<notin> set ids \<and> lr_flags (lcore_resource s1 ! j) = SLAVE_RECREATE_FLAG"
      using Cons.IH [OF s1(2) rest] by blast
    moreover have "j \<notin> set (i # ids) \<and> lr_flags (lcore_resource s ! j) = SLAVE_RECREATE_FLAG"
      if "lr_flags (lcore_resource s' ! j) = SLAVE_RECREATE_FLAG" "lr_enabled (lcore_resource s' ! j) = 1" for j
    proof -
      have j: "j \<notin> set ids" "lr_flags (lcore_resource s1 ! j) = SLAVE_RECREATE_FLAG" using s'(4) that by auto
      then have "j \<noteq> i" using s1(4) by (auto simp: SLAVE_RECREATE_FLAG_def)
      then show ?thesis using j s1(5) by simp
    qed
    ultimately show ?thesis using loop_frame_trans [OF s1(3) s'(3)] by (intro exI [of _ s'] conjI allI impI) simp_all
  qed
qed

end

section \<open>The timers\<close>

definition known_counters :: "'d round_input \<Rightarrow> bool" where
  "known_counters inp \<longleftrightarrow> (\<forall>p. ri_eth_stats inp p \<noteq> None)"

lemma print_timer_ok:
  assumes "loop_ok ops pool que e n (common (ml_master l))" "\<forall>p. get p \<noteq> None"
  shows "\<exists>l'. print_timer get d l = Some l' \<and> ml_master l' = ml_master l"
proof -
  let ?s = "common (ml_master l)"
  have "nat (proc_config_nb (main_information ?s)) \<le> length (sys_statistics ?s)" "unat (mi_port_nb (main_information ?s)) \<le> 31"
    using assms(1) by (simp_all add: loop_ok_def nat_le_iff)
  then obtain out where "print_stats ?s = Some out" by (simp add: print_stats_def print_rows_eq)
  moreover have "\<exists>ports. print_port_stats get ?s = Some ports"
    using print_port_stats_eq [of ?s get "\<lambda>p. the (get p)"] assms(2) \<open>unat _ \<le> 31\<close> by (auto intro!: exI)
  ultimately show ?thesis by (auto simp: print_timer_def Let_def)
qed

lemma write_rows_ok:
  assumes "\<forall>c\<in>set confs. c < length (sys_statistics s) \<and> c < length (proc_config s)"
  shows "\<exists>r fp'. write_rows io t s confs fp = Some (r, fp') \<and> (r = Return () \<or> r = Exit 1)"
  using assms by (induction confs arbitrary: fp) (auto simp: arr_get_def Let_def)

lemma log_timer_ok:
  assumes "loop_ok ops pool que e n (common (ml_master l))"
  shows "\<exists>r l'. log_timer io d l = Some (r, l') \<and> ml_master l' = ml_master l \<and> (r = Return () \<or> r = Exit 1)"
proof -
  let ?s = "common (ml_master l)"
  have "\<forall>c\<in>set [0..<nat (proc_config_nb (main_information ?s))]. c < length (sys_statistics ?s) \<and> c < length (proc_config ?s)"
    using assms by (auto simp: loop_ok_def sys_wf_def)
  from write_rows_ok [OF this] have "\<exists>r fp'. write_stats io t ?s fp = Some (r, fp') \<and> (r = Return () \<or> r = Exit 1)" for t fp
    by (auto simp: write_stats_def)
  then obtain r fp' where "write_stats io (cumulative_tsc l) ?s (stats_fp l) = Some (r, fp')" "r = Return () \<or> r = Exit 1"
    by blast
  then show ?thesis by (auto simp: log_timer_def Let_def)
qed

section \<open>The rounds\<close>

definition restarted :: "eal \<Rightarrow> 'd sys \<Rightarrow> bool" where
  "restarted e s \<longleftrightarrow> (\<forall>i<RTE_MAX_LCORE e. lr_enabled (lcore_resource s ! i) = 1 \<longrightarrow>
     lr_flags (lcore_resource s ! i) \<noteq> SLAVE_RECREATE_FLAG)"

lemma main_round_ok:
  assumes "ring_registry ops pool que" "\<forall>i<RTE_MAX_LCORE e. launch_ok ops pool que i"
    "loop_ok ops pool que e n (ri_others inp (common (ml_master l)))" "known_counters inp"
  shows "\<exists>r l'. main_round ops e n inp l = Some (r, l') \<and> loop_ok ops pool que e n (common (ml_master l')) \<and>
    (r = Exit 1 \<or> r = Return () \<and> restarted e (common (ml_master l')))"
proof -
  let ?l0 = "(set_common (ri_others inp (common (ml_master l))) l)"
  let ?d = "ri_now inp - prev_tsc ?l0"
  let ?l = "?l0\<lparr>cumulative_tsc := cumulative_tsc ?l0 + ?d\<rparr>"
  have ok: "loop_ok ops pool que e n (common (ml_master ?l))" using assms(3) by (simp add: set_common_def)
  obtain l1 where l1: "print_timer (ri_eth_stats inp) ?d ?l = Some l1" "ml_master l1 = ml_master ?l"
    using print_timer_ok [OF ok, of "ri_eth_stats inp" ?d] assms(4) by (auto simp: known_counters_def)
  obtain r l2 where l2: "log_timer (ri_io inp) ?d l1 = Some (r, l2)" "ml_master l2 = ml_master l1" "r = Return () \<or> r = Exit 1"
    using log_timer_ok [of ops pool que e n l1 "ri_io inp" ?d] ok l1(2) by auto
  show ?thesis
  proof (cases r)
    case (Exit c)
    then show ?thesis using l1 l2 ok by (simp add: main_round_def Let_def)
  next
    case (Return u)
    obtain c m s where p: "poll_lcores ops e [0..<RTE_MAX_LCORE e] (init_config l2) (ml_msg l2) (common (ml_master l2)) = Some (c, m, s)"
      "loop_ok ops pool que e n s"
      using ring_registry.poll_ok [OF assms(1), of e n "common (ml_master l2)" "init_config l2" "ml_msg l2"] ok l1(2) l2(2) by auto
    obtain s' where s': "recreate_lcores ops e n [0..<RTE_MAX_LCORE e] s = Some (Return (), s')" "loop_ok ops pool que e n s'"
      "\<forall>i. lr_flags (lcore_resource s' ! i) = SLAVE_RECREATE_FLAG \<longrightarrow> lr_enabled (lcore_resource s' ! i) = 1 \<longrightarrow>
         i \<notin> set [0..<RTE_MAX_LCORE e] \<and> lr_flags (lcore_resource s ! i) = SLAVE_RECREATE_FLAG"
      using ring_registry.recreate_ok [OF assms(1) p(2), of "[0..<RTE_MAX_LCORE e]"] assms(2) by auto
    have "restarted e s'" unfolding restarted_def using s'(3) by auto
    then show ?thesis
      using l1(1) l2(1) Return p(1) s'(1,2) by (simp add: main_round_def Let_def set_common_def)
  qed
qed

lemma main_rounds_ok:
  assumes "ring_registry ops pool que" "\<And>i. i < RTE_MAX_LCORE e \<Longrightarrow> launch_ok ops pool que i"
    "loop_ok ops pool que e n (common (ml_master l))"
    "\<And>inp s. inp \<in> set inps \<Longrightarrow> loop_ok ops pool que e n s \<Longrightarrow> loop_ok ops pool que e n (ri_others inp s)"
    "\<And>inp. inp \<in> set inps \<Longrightarrow> known_counters inp"
  shows "\<exists>r l'. main_rounds ops e n inps l = Some (r, l') \<and> loop_ok ops pool que e n (common (ml_master l')) \<and>
    (r = Exit 1 \<or> r = Return () \<and> (inps \<noteq> [] \<longrightarrow> restarted e (common (ml_master l'))))"
  using assms(3-5)
proof (induction inps arbitrary: l)
  case Nil
  then show ?case by simp
next
  case (Cons inp inps)
  obtain r l1 where l1: "main_round ops e n inp l = Some (r, l1)" "loop_ok ops pool que e n (common (ml_master l1))"
    "r = Exit 1 \<or> r = Return () \<and> restarted e (common (ml_master l1))"
    using main_round_ok [OF assms(1), of e n inp l] assms(2) Cons.prems by auto
  show ?case
  proof (cases "r = Exit 1")
    case True
    then show ?thesis using l1(1,2) by simp
  next
    case False
    then have r: "r = Return ()" "restarted e (common (ml_master l1))" using l1(3) by auto
    have "main_rounds ops e n (inp # inps) l = main_rounds ops e n inps l1" using l1(1) r(1) by simp
    moreover have "main_rounds ops e n inps l1 = Some (Return (), l1)" if "inps = []" using that by simp
    moreover have "\<exists>r l'. main_rounds ops e n inps l1 = Some (r, l') \<and> loop_ok ops pool que e n (common (ml_master l')) \<and>
        (r = Exit 1 \<or> r = Return () \<and> (inps \<noteq> [] \<longrightarrow> restarted e (common (ml_master l'))))"
      by (rule Cons.IH) (use l1(2) Cons.prems in auto)
    ultimately show ?thesis using r(2) by (cases "inps = []") auto
  qed
qed

end
