(* ===== verification/Threads.thy ===== *)
theory Threads
  imports Master_Loop
begin

text \<open>
  The threads of the master process and their lock. The master starts and watches every slave with a
  thread of its own (\<open>lcore_func\<close>, \<^verbatim>\<open>src/flib.c\<close>): it forks the slave, waits for its end and then calls
  \<open>slave_exit_cb\<close> (\<^verbatim>\<open>src/dpdk_mp.c\<close>), which records the end under the spinlock \<^verbatim>\<open>mutex_lock\<close>. The main
  loop (\<^verbatim>\<open>src/main.c\<close>) takes the same lock for its pass over the slaves, in which it restarts those whose
  end is recorded; to restart one it waits, with the lock, until that slave's thread has returned. The
  steps are single writes and tests, so that the threads interleave inside these functions.
\<close>

unbundle bit_operations_syntax

section \<open>The points in the code\<close>

text \<open>
  A thread: it has returned a value and waits for work, or has returned because \<open>fork\<close> failed; it is about
  to fork; its slave runs; the slave has ended; it tries to take the lock with the configuration number
  already read; it holds the lock before, between and after the two writes; it is about to return.
\<close>

datatype lthread = Ready int | Unborn | Started | Watches | Reaped int | Spins int nat | Marks int nat
  | Records int | Unlocks int | Leaves int

text \<open>The master: outside the lock; trying to take it; at slave \<open>k\<close> of the pass; waiting for the thread of slave \<open>k\<close>.\<close>

datatype mthread = Polls | Wants | Pass nat | Waits_for nat | Stopped

record 'd threads =
  t_sys :: "'d sys"
  t_lock :: bool
  t_main :: mthread
  t_thr :: "nat \<Rightarrow> lthread"

datatype actor = Main | Thread nat | Slaves

section \<open>The functions, cut where threads can meet\<close>

text \<open>What the loop does after a restart that succeeded.\<close>

definition clear_recreate :: "nat \<Rightarrow> 'd sys \<Rightarrow> 'd sys option" where
  "clear_recreate k s = do {
     lcore_res \<leftarrow> arr_get (lcore_resource s) k;
     set_lcore_res k (lcore_res\<lparr>lr_flags := lr_flags lcore_res AND NOT SLAVE_RECREATE_FLAG\<rparr>) s
   }"

text \<open>The second write of \<open>slave_exit_cb\<close>; the first is \<open>set_used\<close>.\<close>

definition record_end :: "nat \<Rightarrow> 'd sys \<Rightarrow> 'd sys option" where
  "record_end i s = do {
     lcore_res \<leftarrow> arr_get (lcore_resource s) i;
     if lr_flags lcore_res AND SLAVE_DONT_RECREATE_FLAG = 0
     then set_lcore_res i (lcore_res\<lparr>lr_flags := SLAVE_RECREATE_FLAG\<rparr>) s
     else Some s
   }"

text \<open>What the thread does when its slave has ended: the callback, if there is one and the slave is enabled.\<close>

definition after_end :: "nat \<Rightarrow> int \<Rightarrow> 'd sys \<Rightarrow> lthread option" where
  "after_end i stat s = do {
     cfg \<leftarrow> arr_get (core_cfg s) i;
     lcore_res \<leftarrow> arr_get (lcore_resource s) i;
     Some (if ls_cb_fn cfg = None \<or> lr_enabled lcore_res = 0 then Leaves stat
           else Spins stat (lr_config_id lcore_res))
   }"

definition at :: "nat \<Rightarrow> lthread \<Rightarrow> 'd threads \<Rightarrow> 'd threads" where
  "at i pc t = t\<lparr>t_thr := (t_thr t)(i := pc)\<rparr>"

section \<open>Steps\<close>

text \<open>
  \<open>Q\<close> says which changes of the shared memory by the slave processes are considered; they never write
  \<open>core_cfg\<close>, and not the private variables of the master.
\<close>

inductive thread_step ::
  "'d dpdk_ops \<Rightarrow> eal \<Rightarrow> nat \<Rightarrow> ('d sys \<Rightarrow> bool) \<Rightarrow> actor \<Rightarrow> 'd threads \<Rightarrow> 'd threads \<Rightarrow> bool" for ops e n Q where
  poll: "t_main t = Polls \<Longrightarrow> i < RTE_MAX_LCORE e \<Longrightarrow> poll_lcores ops e [i] c m (t_sys t) = Some (c', m', s) \<Longrightarrow>
    thread_step ops e n Q Main t (t\<lparr>t_sys := s\<rparr>)"
| want: "t_main t = Polls \<Longrightarrow> thread_step ops e n Q Main t (t\<lparr>t_main := Wants\<rparr>)"
| lock: "t_main t = Wants \<Longrightarrow> \<not> t_lock t \<Longrightarrow> thread_step ops e n Q Main t (t\<lparr>t_main := Pass 0, t_lock := True\<rparr>)"
| skip: "t_main t = Pass k \<Longrightarrow> k < RTE_MAX_LCORE e \<Longrightarrow> arr_get (lcore_resource (t_sys t)) k = Some r \<Longrightarrow>
    \<not> (lr_enabled r = 1 \<and> lr_flags r = SLAVE_RECREATE_FLAG) \<Longrightarrow>
    thread_step ops e n Q Main t (t\<lparr>t_main := Pass (Suc k)\<rparr>)"
| prepare: "t_main t = Pass k \<Longrightarrow> k < RTE_MAX_LCORE e \<Longrightarrow> arr_get (lcore_resource (t_sys t)) k = Some r \<Longrightarrow>
    lr_enabled r = 1 \<Longrightarrow> lr_flags r = SLAVE_RECREATE_FLAG \<Longrightarrow>
    reset_prepare ops e n (lr_lcore_id r) (t_sys t) = Some (v, s) \<Longrightarrow>
    thread_step ops e n Q Main t (t\<lparr>t_sys := s, t_main :=
      (case v of Exit _ \<Rightarrow> Stopped | Return v \<Rightarrow> if v = 0 then Waits_for k else Pass (Suc k))\<rparr>)"
| launch: "t_main t = Waits_for k \<Longrightarrow> arr_get (lcore_resource (t_sys t)) k = Some r \<Longrightarrow> i = lr_lcore_id r \<Longrightarrow>
    t_thr t i = Ready x \<or> t_thr t i = Unborn \<Longrightarrow>
    reset_finish ops e i (t_sys t) = Some (0, s) \<Longrightarrow> clear_recreate k s = Some s' \<Longrightarrow>
    thread_step ops e n Q Main t (at i Started (t\<lparr>t_sys := s', t_main := Pass (Suc k)\<rparr>))"
| refused: "t_main t = Waits_for k \<Longrightarrow> arr_get (lcore_resource (t_sys t)) k = Some r \<Longrightarrow> i = lr_lcore_id r \<Longrightarrow>
    t_thr t i = Ready x \<or> t_thr t i = Unborn \<Longrightarrow>
    reset_finish ops e i (t_sys t) = Some (v, s) \<Longrightarrow> v \<noteq> 0 \<Longrightarrow>
    thread_step ops e n Q Main t (t\<lparr>t_sys := s, t_main := Pass (Suc k)\<rparr>)"
| unlock: "t_main t = Pass k \<Longrightarrow> RTE_MAX_LCORE e \<le> k \<Longrightarrow>
    thread_step ops e n Q Main t (t\<lparr>t_main := Polls, t_lock := False\<rparr>)"
| no_fork: "i \<in> set (slave_lcores e) \<Longrightarrow> t_thr t i = Started \<Longrightarrow> thread_step ops e n Q (Thread i) t (at i Unborn t)"
| forked: "i \<in> set (slave_lcores e) \<Longrightarrow> t_thr t i = Started \<Longrightarrow> 0 < child \<Longrightarrow>
    upd_core i (\<lambda>c. c\<lparr>ls_pid := child\<rparr>) (t_sys t) = Some s \<Longrightarrow>
    thread_step ops e n Q (Thread i) t (at i Watches (t\<lparr>t_sys := s\<rparr>))"
| ended: "i \<in> set (slave_lcores e) \<Longrightarrow> t_thr t i = Watches \<Longrightarrow>
    upd_core i (\<lambda>c. c\<lparr>ls_pid := 0, ls_f := None, ls_arg := 0\<rparr>) (t_sys t) = Some s \<Longrightarrow>
    thread_step ops e n Q (Thread i) t (at i (Reaped stat) (t\<lparr>t_sys := s\<rparr>))"
| notify: "i \<in> set (slave_lcores e) \<Longrightarrow> t_thr t i = Reaped stat \<Longrightarrow> after_end i stat (t_sys t) = Some pc \<Longrightarrow>
    thread_step ops e n Q (Thread i) t (at i pc t)"
| cb_lock: "i \<in> set (slave_lcores e) \<Longrightarrow> t_thr t i = Spins stat p \<Longrightarrow> \<not> t_lock t \<Longrightarrow>
    thread_step ops e n Q (Thread i) t (at i (Marks stat p) (t\<lparr>t_lock := True\<rparr>))"
| cb_used: "i \<in> set (slave_lcores e) \<Longrightarrow> t_thr t i = Marks stat p \<Longrightarrow> set_used p 0 (t_sys t) = Some s \<Longrightarrow>
    thread_step ops e n Q (Thread i) t (at i (Records stat) (t\<lparr>t_sys := s\<rparr>))"
| cb_flag: "i \<in> set (slave_lcores e) \<Longrightarrow> t_thr t i = Records stat \<Longrightarrow> record_end i (t_sys t) = Some s \<Longrightarrow>
    thread_step ops e n Q (Thread i) t (at i (Unlocks stat) (t\<lparr>t_sys := s\<rparr>))"
| cb_unlock: "i \<in> set (slave_lcores e) \<Longrightarrow> t_thr t i = Unlocks stat \<Longrightarrow>
    thread_step ops e n Q (Thread i) t (at i (Leaves stat) (t\<lparr>t_lock := False\<rparr>))"
| returns: "i \<in> set (slave_lcores e) \<Longrightarrow> t_thr t i = Leaves stat \<Longrightarrow>
    thread_step ops e n Q (Thread i) t (at i (Ready stat) t)"
| others: "core_cfg s = core_cfg (t_sys t) \<Longrightarrow> Q (switch_process (t_sys t) s) \<Longrightarrow>
    thread_step ops e n Q Slaves t (t\<lparr>t_sys := switch_process (t_sys t) s\<rparr>)"

inductive_cases thread_stepE: "thread_step ops e n Q a t t'"

text \<open>Any of the threads, and the start: the master has launched a thread for every slave.\<close>

definition some_step ::
  "'d dpdk_ops \<Rightarrow> eal \<Rightarrow> nat \<Rightarrow> ('d sys \<Rightarrow> bool) \<Rightarrow> 'd threads \<Rightarrow> 'd threads \<Rightarrow> bool" where
  "some_step ops e n Q t t' \<longleftrightarrow> (\<exists>a. thread_step ops e n Q a t t')"

definition all_launched :: "eal \<Rightarrow> 'd sys \<Rightarrow> 'd threads" where
  "all_launched e s = \<lparr>t_sys = s, t_lock = False, t_main = Polls,
     t_thr = (\<lambda>i. if i \<in> set (slave_lcores e) then Started else Ready 0)\<rparr>"

section \<open>What the pieces do\<close>

context ring_registry
begin

lemma poll_one:
  assumes ok: "loop_ok ops pool que e n s" and i: "i < RTE_MAX_LCORE e"
    and run: "poll_lcores ops e [i] c m s = Some (c', m', s')"
  shows "loop_ok ops pool que e n s' \<and> loop_frame ops s s' \<and> same_flags s s' \<and> quiet e s s'"
proof -
  have wf: "sys_wf e s" "ipc_ok pool que s" using ok by (simp_all add: loop_ok_def)
  have f: "loop_frame ops s s' \<and> same_flags s s'" by (rule poll_frame [OF run wf(1)]) (use i in simp)
  have "loop_ok ops pool que e n s'"
    using poll_lcores_spec [OF wf(2,1), of "[i]" c m] i run loop_ok_frame [OF ok, of s'] f by auto
  moreover obtain r m1 s1 where get: "get_cmd ops i m True s = Some (r, m1, s1)" using run by (auto simp: run_convs)
  then have q: "quiet e s s1" "ipc_ok pool que s1" "sys_wf e s1"
    using quiet_ipc [OF get_cmd_frame] get_cmd_spec [OF wf(2) valid_slave_wf [OF wf(1) i], of m True]
      ipc_frame_private [OF get_cmd_frame [OF get], of e] wf(1) by auto
  have "quiet e s s'"
  proof (cases "r = 0 \<and> cmd m1 = CFG")
    case False
    then have "s' = s1" using run get by auto
    then show ?thesis using q(1) by simp
  next
    case True
    obtain v s2 where s2: "main_set_lcore_cfg ops e i s1 = Some (v, s2)"
      "ipc_frame s1 s2 \<or> (\<exists>p s3. p < RTE_MAX_LCORE e \<and> ipc_frame s1 s3 \<and> s2 = assign_cfg i p s3)"
      by (rule main_set_lcore_cfg_spec [OF q(2,3) i]) blast+
    then have "s' = s2" using run get True by (auto simp: run_convs)
    moreover have "quiet e s1 s2" using s2(2) quiet_ipc quiet_assign by (metis quiet_trans)
    ultimately show ?thesis using quiet_trans [OF q(1)] by simp
  qed
  ultimately show ?thesis using f by simp
qed

lemma poll_one_runs:
  assumes "loop_ok ops pool que e n s" "i < RTE_MAX_LCORE e"
  shows "\<exists>c' m' s'. poll_lcores ops e [i] c m s = Some (c', m', s')"
  using poll_lcores_spec [of s e "[i]" c m] assms by (auto simp: loop_ok_def)

end

section \<open>The invariant\<close>

text \<open>Where the lock is held, and where the end of the slave has been recorded and not yet answered.\<close>

fun in_lock :: "lthread \<Rightarrow> bool" where
  "in_lock (Marks stat p) = True"
| "in_lock (Records stat) = True"
| "in_lock (Unlocks stat) = True"
| "in_lock _ = False"

fun recorded :: "lthread \<Rightarrow> bool" where
  "recorded (Unlocks stat) = True"
| "recorded (Leaves stat) = True"
| "recorded (Ready stat) = True"
| "recorded _ = False"

fun main_in_lock :: "mthread \<Rightarrow> bool" where
  "main_in_lock (Pass k) = True"
| "main_in_lock (Waits_for k) = True"
| "main_in_lock _ = False"

text \<open>The configuration a thread is about to mark as unused.\<close>

fun releases :: "lthread \<Rightarrow> nat option" where
  "releases (Spins stat p) = Some p"
| "releases (Marks stat p) = Some p"
| "releases _ = None"

definition slaves_ready ::
  "'d dpdk_ops \<Rightarrow> ('d \<Rightarrow> msg_ptr multiset) \<Rightarrow> ('d \<Rightarrow> ring_ptr \<Rightarrow> msg_ptr list) \<Rightarrow> eal \<Rightarrow> nat \<Rightarrow> 'd sys \<Rightarrow> bool" where
  "slaves_ready ops pool que e n s \<longleftrightarrow> loop_ok ops pool que e n s \<and> cfg_ids e s \<and>
     (\<forall>i<RTE_MAX_LCORE e. lr_enabled (lcore_resource s ! i) = (if i \<in> set (slave_lcores e) then 1 else 0)) \<and>
     (\<forall>i\<in>set (slave_lcores e). ls_cb_fn (core_cfg s ! i) \<noteq> None)"

definition flags_ok :: "eal \<Rightarrow> 'd sys \<Rightarrow> (nat \<Rightarrow> lthread) \<Rightarrow> bool" where
  "flags_ok e s thr \<longleftrightarrow> (\<forall>i\<in>set (slave_lcores e).
     lr_flags (lcore_resource s ! i) = (if recorded (thr i) then SLAVE_RECREATE_FLAG else 0) \<and>
     (\<forall>p. releases (thr i) = Some p \<longrightarrow> p < RTE_MAX_LCORE e))"

text \<open>
  The lock is taken exactly while one of them is inside; the master waits only for a thread that has
  recorded the end, and has left no such thread behind in its pass.
\<close>

definition lock_ok :: "eal \<Rightarrow> bool \<Rightarrow> mthread \<Rightarrow> (nat \<Rightarrow> lthread) \<Rightarrow> bool" where
  "lock_ok e lock m thr \<longleftrightarrow> m \<noteq> Stopped \<and>
     lock = (main_in_lock m \<or> (\<exists>i\<in>set (slave_lcores e). in_lock (thr i))) \<and>
     (main_in_lock m \<longrightarrow> (\<forall>i\<in>set (slave_lcores e). \<not> in_lock (thr i))) \<and>
     (\<forall>i\<in>set (slave_lcores e). \<forall>j\<in>set (slave_lcores e). in_lock (thr i) \<longrightarrow> in_lock (thr j) \<longrightarrow> i = j) \<and>
     (\<forall>k. m = Waits_for k \<longrightarrow> k \<in> set (slave_lcores e) \<and> recorded (thr k)) \<and>
     (\<forall>k. m = Pass k \<or> m = Waits_for k \<longrightarrow> (\<forall>i\<in>set (slave_lcores e). i < k \<longrightarrow> \<not> recorded (thr i)))"

definition threads_ok ::
  "'d dpdk_ops \<Rightarrow> ('d \<Rightarrow> msg_ptr multiset) \<Rightarrow> ('d \<Rightarrow> ring_ptr \<Rightarrow> msg_ptr list) \<Rightarrow> eal \<Rightarrow> nat \<Rightarrow> 'd threads \<Rightarrow> bool" where
  "threads_ok ops pool que e n t \<longleftrightarrow> slaves_ready ops pool que e n (t_sys t) \<and>
     flags_ok e (t_sys t) (t_thr t) \<and> lock_ok e (t_lock t) (t_main t) (t_thr t)"

lemma slave_lt: "i \<in> set (slave_lcores e) \<Longrightarrow> i < RTE_MAX_LCORE e"
  by (simp add: slave_lcores_def)

lemma slaves_ready_frame:
  assumes "slaves_ready ops pool que e n s" "loop_ok ops pool que e n s'" "loop_frame ops s s'" "quiet e s s'"
  shows "slaves_ready ops pool que e n s'"
proof -
  have len: "length (core_cfg s') = RTE_MAX_LCORE e" "length (core_cfg s) = RTE_MAX_LCORE e"
    using assms(1,2) by (simp_all add: slaves_ready_def loop_ok_def sys_wf_def)
  have "ls_cb_fn (core_cfg s' ! i) = ls_cb_fn (core_cfg s ! i)" if "i \<in> set (slave_lcores e)" for i
    using assms(4) slave_lt [OF that] len unfolding quiet_def by (metis nth_map)
  then show ?thesis using assms by (simp add: slaves_ready_def loop_frame_def quiet_def)
qed

lemma flags_ok_same: "flags_ok e s thr \<Longrightarrow> same_flags s s' \<Longrightarrow> flags_ok e s' thr"
  by (simp add: flags_ok_def same_flags_def)

text \<open>A thread that moves without passing a point where flag or lock change.\<close>

lemma flags_ok_move:
  assumes "flags_ok e s thr" "recorded pc = recorded (thr i)" "\<forall>p. releases pc = Some p \<longrightarrow> p < RTE_MAX_LCORE e"
  shows "flags_ok e s (thr(i := pc))"
  using assms by (simp add: flags_ok_def)

lemma lock_ok_move:
  assumes "lock_ok e l m thr" "in_lock pc = in_lock (thr i)" "recorded pc = recorded (thr i)"
  shows "lock_ok e l m (thr(i := pc))"
proof -
  have "in_lock ((thr(i := pc)) j) = in_lock (thr j)" "recorded ((thr(i := pc)) j) = recorded (thr j)" for j
    using assms(2,3) by simp_all
  note eq = this
  show ?thesis using assms(1) unfolding lock_ok_def eq .
qed

text \<open>The writes of the threads.\<close>

lemma loop_ok_write:
  assumes "loop_ok ops pool que e n s" "length c = length (core_cfg s)" "length p = length (proc_config s)"
  shows "loop_ok ops pool que e n (s\<lparr>core_cfg := c, proc_config := p\<rparr>)"
    "loop_frame ops s (s\<lparr>core_cfg := c, proc_config := p\<rparr>)" "same_flags s (s\<lparr>core_cfg := c, proc_config := p\<rparr>)"
proof -
  let ?s = "s\<lparr>core_cfg := c, proc_config := p\<rparr>"
  show f: "loop_frame ops s ?s" "same_flags s ?s" by (auto simp: loop_frame_def same_flags_def)
  show "loop_ok ops pool que e n ?s"
    by (rule loop_ok_frame [OF assms(1) f(1)])
      (use assms in \<open>simp_all add: loop_ok_def sys_wf_def ipc_ok_def ipc_buffers_def\<close>)
qed

lemma upd_core_ok:
  assumes "loop_ok ops pool que e n s" "upd_core i f s = Some s'" "\<And>c. ls_cb_fn (f c) = ls_cb_fn c"
  shows "loop_ok ops pool que e n s' \<and> loop_frame ops s s' \<and> same_flags s s' \<and> quiet e s s'"
proof -
  have "i < length (core_cfg s)" and s': "s' = s\<lparr>core_cfg := (core_cfg s)[i := f (core_cfg s ! i)]\<rparr>"
    using assms(2) by (auto simp: upd_core_def arr_get_def arr_set_def split: if_splits)
  then have "map ls_cb_fn (core_cfg s') = map ls_cb_fn (core_cfg s)"
    using assms(3) by (simp add: map_update list_update_same_conv)
  moreover have "s' = s\<lparr>core_cfg := core_cfg s', proc_config := proc_config s\<rparr>" "length (core_cfg s') = length (core_cfg s)"
    by (simp_all add: s')
  ultimately show ?thesis
    using loop_ok_write [OF assms(1), of "core_cfg s'" "proc_config s"] by (auto simp: quiet_def cfg_ids_def s')
qed

lemma set_used_ok:
  assumes "loop_ok ops pool que e n s" "set_used p v s = Some s'"
  shows "loop_ok ops pool que e n s' \<and> loop_frame ops s s' \<and> same_flags s s' \<and> quiet e s s'"
proof -
  have "s' = s\<lparr>core_cfg := core_cfg s, proc_config := proc_config s'\<rparr>" "length (proc_config s') = length (proc_config s)"
    using assms(2) by (auto simp: set_used_def arr_get_def arr_set_def split: if_splits)
  then show ?thesis
    using loop_ok_write [OF assms(1), of "core_cfg s" "proc_config s'"] by (auto simp: quiet_def cfg_ids_def)
      (metis sys.ext_inject sys.surjective sys.update_convs)+
qed

lemma record_end_ok:
  assumes "loop_ok ops pool que e n s" "record_end i s = Some s'"
  shows "loop_ok ops pool que e n s' \<and> loop_frame ops s s' \<and> quiet e s s' \<and>
    (\<forall>j. lr_flags (lcore_resource s' ! j) =
       (if j = i \<and> lr_flags (lcore_resource s ! i) AND SLAVE_DONT_RECREATE_FLAG = 0 then SLAVE_RECREATE_FLAG
        else lr_flags (lcore_resource s ! j)))"
proof (cases "lr_flags (lcore_resource s ! i) AND SLAVE_DONT_RECREATE_FLAG = 0")
  case True
  let ?r = "(lcore_resource s ! i)\<lparr>lr_flags := SLAVE_RECREATE_FLAG\<rparr>"
  have li: "i < length (lcore_resource s)" and s': "s' = s\<lparr>lcore_resource := (lcore_resource s)[i := ?r]\<rparr>"
    using assms(2) True by (auto simp: record_end_def arr_get_def set_lcore_res_def arr_set_def split: if_splits)
  have res: "lcore_resource s' ! j = (if j = i then ?r else lcore_resource s ! j)" for j using li by (simp add: s')
  have wf: "sys_wf e s" "ipc_ok pool que s" using assms(1) by (simp_all add: loop_ok_def)
  have "length (lr_ring ?r) = 2" "length (lr_ring_name ?r) = 2" using wf(1) li by (simp_all add: sys_wf_def)
  then have "sys_wf e s'" using wf(1) unfolding sys_wf_def s'
    by (auto dest!: set_update_subset_insert [THEN subsetD])
  moreover have f: "loop_frame ops s s'" unfolding loop_frame_def res by (auto simp: s')
  moreover have "quiet e s s'" unfolding quiet_def cfg_ids_def res by (simp add: s')
  ultimately show ?thesis
    using loop_ok_frame [OF assms(1) f] wf(2) True by (simp add: res) (simp add: s' ipc_ok_def ipc_buffers_def)
next
  case False
  then have "s' = s" using assms(2) by (auto simp: record_end_def arr_get_def split: if_splits)
  then show ?thesis using assms(1) False by (simp add: quiet_def)
qed

text \<open>Threads at the lock.\<close>

lemma lock_ok_take:
  assumes "lock_ok e False m thr" "in_lock pc" "recorded pc = recorded (thr i)" "i \<in> set (slave_lcores e)"
  shows "lock_ok e True m (thr(i := pc))"
proof -
  have "\<not> main_in_lock m" "\<forall>j\<in>set (slave_lcores e). \<not> in_lock (thr j)" "m \<noteq> Stopped"
    using assms(1) by (auto simp: lock_ok_def)
  then show ?thesis using assms(2,4) by (cases m) (auto simp: lock_ok_def)
qed

lemma lock_ok_inside:
  assumes "lock_ok e l m thr" "in_lock (thr i)" "i \<in> set (slave_lcores e)"
  shows "\<not> main_in_lock m" "l" "j \<in> set (slave_lcores e) \<Longrightarrow> in_lock (thr j) \<Longrightarrow> j = i" "m \<noteq> Stopped"
  using assms by (auto simp: lock_ok_def)

lemma lock_ok_outside:
  "\<not> main_in_lock m \<Longrightarrow> lock_ok e l m thr \<longleftrightarrow> m \<noteq> Stopped \<and> l = (\<exists>i\<in>set (slave_lcores e). in_lock (thr i)) \<and>
     (\<forall>i\<in>set (slave_lcores e). \<forall>j\<in>set (slave_lcores e). in_lock (thr i) \<longrightarrow> in_lock (thr j) \<longrightarrow> i = j)"
  by (cases m) (simp_all add: lock_ok_def)

lemma lock_ok_stay:
  assumes "lock_ok e l m thr" "in_lock (thr i)" "in_lock pc" "i \<in> set (slave_lcores e)"
  shows "lock_ok e l m (thr(i := pc))"
proof -
  have eq: "in_lock ((thr(i := pc)) j) = in_lock (thr j)" for j using assms(2,3) by simp
  note out = lock_ok_outside [OF lock_ok_inside(1) [OF assms(1,2,4)], of e]
  show ?thesis using assms(1) unfolding out eq .
qed

lemma lock_ok_drop:
  assumes "lock_ok e l m thr" "in_lock (thr i)" "\<not> in_lock pc" "i \<in> set (slave_lcores e)"
  shows "lock_ok e False m (thr(i := pc))"
proof -
  have eq: "in_lock ((thr(i := pc)) j) \<longleftrightarrow> in_lock (thr j) \<and> j \<noteq> i" for j using assms(3) by simp
  note out = lock_ok_outside [OF lock_ok_inside(1) [OF assms(1,2,4)], of e]
  show ?thesis using lock_ok_inside(3,4) [OF assms(1,2,4)] unfolding out eq by blast
qed

text \<open>The master at the lock.\<close>

lemma lock_ok_main:
  "lock_ok e l Polls thr \<Longrightarrow> lock_ok e l Wants thr"
  "lock_ok e False Wants thr \<Longrightarrow> lock_ok e True (Pass 0) thr"
  "lock_ok e l (Pass k) thr \<Longrightarrow> (k \<in> set (slave_lcores e) \<longrightarrow> \<not> recorded (thr k)) \<Longrightarrow> lock_ok e l (Pass (Suc k)) thr"
  "lock_ok e l (Pass k) thr \<Longrightarrow> k \<in> set (slave_lcores e) \<Longrightarrow> recorded (thr k) \<Longrightarrow> lock_ok e l (Waits_for k) thr"
  "lock_ok e l (Waits_for k) thr \<Longrightarrow> lock_ok e l (Pass (Suc k)) (thr(k := Started))"
  "lock_ok e l (Pass k) thr \<Longrightarrow> lock_ok e False Polls thr"
  by (auto simp: lock_ok_def less_Suc_eq)

section \<open>Every step keeps it\<close>

context ring_registry
begin

abbreviation t_inv :: "eal \<Rightarrow> nat \<Rightarrow> 'a threads \<Rightarrow> bool" where
  "t_inv e n \<equiv> threads_ok ops pool que e n"

lemma t_invI:
  assumes "t_inv e n t" "loop_ok ops pool que e n (t_sys t') \<and> loop_frame ops (t_sys t) (t_sys t') \<and> quiet e (t_sys t) (t_sys t')"
    "flags_ok e (t_sys t') (t_thr t')" "lock_ok e (t_lock t') (t_main t') (t_thr t')"
  shows "t_inv e n t'"
  using assms slaves_ready_frame [of ops pool que e n "t_sys t" "t_sys t'"] by (simp add: threads_ok_def)

text \<open>The same where the state itself does not change, or not in what the flags say.\<close>

lemma t_invI_pc:
  assumes "t_inv e n t" "t_sys t' = t_sys t" "flags_ok e (t_sys t) (t_thr t')" "lock_ok e (t_lock t') (t_main t') (t_thr t')"
  shows "t_inv e n t'"
  using assms by (simp add: threads_ok_def)

lemma t_invD:
  assumes "t_inv e n t"
  shows "loop_ok ops pool que e n (t_sys t)" "cfg_ids e (t_sys t)" "flags_ok e (t_sys t) (t_thr t)"
    "lock_ok e (t_lock t) (t_main t) (t_thr t)" "slaves_ready ops pool que e n (t_sys t)"
  using assms by (simp_all add: threads_ok_def slaves_ready_def)

text \<open>A resource that the master sees as that of an ended slave is one whose thread has recorded the end.\<close>

lemma seen_ended:
  assumes "t_inv e n t" "k < RTE_MAX_LCORE e" "lr_enabled (lcore_resource (t_sys t) ! k) = 1"
  shows "k \<in> set (slave_lcores e)" "lr_lcore_id (lcore_resource (t_sys t) ! k) = k"
    "lr_flags (lcore_resource (t_sys t) ! k) = SLAVE_RECREATE_FLAG \<longleftrightarrow> recorded (t_thr t k)"
proof -
  have "slaves_ready ops pool que e n (t_sys t)" "flags_ok e (t_sys t) (t_thr t)" using assms(1) by (simp_all add: threads_ok_def)
  moreover from this show k: "k \<in> set (slave_lcores e)" using assms(2,3) by (auto simp: slaves_ready_def split: if_splits)
  ultimately show "lr_lcore_id (lcore_resource (t_sys t) ! k) = k"
    "lr_flags (lcore_resource (t_sys t) ! k) = SLAVE_RECREATE_FLAG \<longleftrightarrow> recorded (t_thr t k)"
    using assms(2,3) by (auto simp: slaves_ready_def loop_ok_def slave_set_up_def flags_ok_def SLAVE_RECREATE_FLAG_def)
qed

lemma restart_inv:
  assumes inv: "t_inv e n t" and m: "t_main t = Waits_for k" and l: "launch_ok ops pool que k"
    and fin: "reset_finish ops e k (t_sys t) = Some (v, s)"
  shows "v = 0 \<and> (\<forall>s'. clear_recreate k s = Some s' \<longrightarrow>
    t_inv e n (at k Started (t\<lparr>t_sys := s', t_main := Pass (Suc k)\<rparr>)))"
proof -
  note d = t_invD [OF inv]
  have k: "k \<in> set (slave_lcores e)" "k < RTE_MAX_LCORE e" using d(4) m by (auto simp: lock_ok_def dest: slave_lt)
  then have "lr_enabled (lcore_resource (t_sys t) ! k) = 1" using d(5) by (simp add: slaves_ready_def)
  then have s: "v = 0" "loop_ok ops pool que e n s" "loop_frame ops (t_sys t) s" "quiet e (t_sys t) s"
    "lr_flags (lcore_resource s ! k) = 0" "\<forall>j. j \<noteq> k \<longrightarrow> lr_flags (lcore_resource s ! j) = lr_flags (lcore_resource (t_sys t) ! j)"
    using finish_ok [OF d(1) k(2) _ l] fin by auto
  have "t_inv e n (at k Started (t\<lparr>t_sys := s', t_main := Pass (Suc k)\<rparr>))" if s': "clear_recreate k s = Some s'" for s'
  proof -
    have "(lcore_resource s ! k)\<lparr>lr_flags := lr_flags (lcore_resource s ! k) AND NOT SLAVE_RECREATE_FLAG\<rparr> = lcore_resource s ! k"
      using s(5) by simp
    then have "s' = s"
      using s' by (auto simp: clear_recreate_def arr_get_def set_lcore_res_def arr_set_def split: if_splits)
    moreover have "flags_ok e s ((t_thr t)(k := Started))" using d(3) s(5,6) by (simp add: flags_ok_def)
    ultimately show ?thesis
      using s lock_ok_main(5) d(4) m by (intro t_invI [OF inv]) (simp_all add: at_def)
  qed
  then show ?thesis using s(1) by blast
qed

lemma slave_enabled:
  assumes "t_inv e n t" "k \<in> set (slave_lcores e)"
  shows "lr_enabled (lcore_resource (t_sys t) ! k) = 1" "lr_lcore_id (lcore_resource (t_sys t) ! k) = k"
    "k < length (lcore_resource (t_sys t))"
proof -
  show en: "lr_enabled (lcore_resource (t_sys t) ! k) = 1"
    using t_invD(5) [OF assms(1)] assms(2) slave_lt [OF assms(2)] by (simp add: slaves_ready_def)
  show "lr_lcore_id (lcore_resource (t_sys t) ! k) = k" by (rule seen_ended(2) [OF assms(1) slave_lt [OF assms(2)] en])
  show "k < length (lcore_resource (t_sys t))"
    using t_invD(1) [OF assms(1)] slave_lt [OF assms(2)] by (simp add: loop_ok_def sys_wf_def)
qed

lemma waits_for_slave:
  assumes "t_inv e n t" "t_main t = Waits_for k"
  shows "k \<in> set (slave_lcores e)" "arr_get (lcore_resource (t_sys t)) k = Some r \<Longrightarrow> lr_lcore_id r = k"
proof -
  show k: "k \<in> set (slave_lcores e)" using t_invD(4) [OF assms(1)] assms(2) by (simp add: lock_ok_def)
  show "arr_get (lcore_resource (t_sys t)) k = Some r \<Longrightarrow> lr_lcore_id r = k"
    using slave_enabled(2) [OF assms(1) k] by (auto simp: arr_get_def split: if_splits)
qed

lemma main_inv:
  assumes inv: "t_inv e n t" and step: "thread_step ops e n Q Main t t'"
    and l: "\<And>i. i < RTE_MAX_LCORE e \<Longrightarrow> launch_ok ops pool que i"
  shows "t_inv e n t'"
  using step
proof cases
  case (poll i c m c' m' s)
  then show ?thesis
    using poll_one [OF t_invD(1) [OF inv] poll(3,4)] flags_ok_same t_invD(3,4) [OF inv]
    by (intro t_invI [OF inv]) auto
next
  case want
  then show ?thesis using t_invD [OF inv] lock_ok_main(1) by (intro t_invI_pc [OF inv]) simp_all
next
  case lock
  then show ?thesis using t_invD [OF inv] lock_ok_main(2) by (intro t_invI_pc [OF inv]) simp_all
next
  case (skip k r)
  have "\<not> recorded (t_thr t k)" if "k \<in> set (slave_lcores e)"
    using seen_ended(3) [OF inv skip(3)] skip(4,5) slave_enabled [OF inv that] by (simp add: arr_get_def)
  then show ?thesis using skip t_invD [OF inv] lock_ok_main(3) by (intro t_invI_pc [OF inv]) simp_all
next
  case (prepare k r v s)
  have r: "r = lcore_resource (t_sys t) ! k" using prepare(4) by (auto simp: arr_get_def split: if_splits)
  note k = seen_ended [OF inv prepare(3)]
  obtain s' where s': "reset_prepare ops e n k (t_sys t) = Some (Return 0, s')" "loop_ok ops pool que e n s' \<and>
    loop_frame ops (t_sys t) s' \<and> quiet e (t_sys t) s'" "same_flags (t_sys t) s'"
    using prepare_ok [OF t_invD(1) [OF inv] prepare(3)] prepare(5) r by blast
  then have "v = Return 0" "s = s'" using prepare(5,7) k(2) r by simp_all
  then show ?thesis
    using s' prepare k r flags_ok_same [OF t_invD(3) [OF inv]] t_invD(4) [OF inv] lock_ok_main(4)
    by (intro t_invI [OF inv]) simp_all
next
  case (launch k r i x s s')
  note k = waits_for_slave [OF inv launch(2)]
  have "i = k" using k(2) [OF launch(3)] launch(4) by simp
  then show ?thesis using restart_inv [OF inv launch(2) l [OF slave_lt [OF k(1)]]] launch by simp
next
  case (refused k r i x v s)
  note k = waits_for_slave [OF inv refused(2)]
  have "i = k" using k(2) [OF refused(3)] refused(4) by simp
  then show ?thesis using restart_inv [OF inv refused(2) l [OF slave_lt [OF k(1)]]] refused by simp
next
  case (unlock k)
  then show ?thesis using t_invD [OF inv] lock_ok_main(6) by (intro t_invI_pc [OF inv]) simp_all
qed

text \<open>The steps of a thread: what it writes, and where it goes.\<close>

lemma thread_write:
  assumes "t_inv e n t" "loop_ok ops pool que e n s \<and> loop_frame ops (t_sys t) s \<and> same_flags (t_sys t) s \<and> quiet e (t_sys t) s"
    "recorded pc = recorded (t_thr t i)" "\<forall>p. releases pc = Some p \<longrightarrow> p < RTE_MAX_LCORE e"
    "lock_ok e l (t_main t) ((t_thr t)(i := pc))"
  shows "t_inv e n (at i pc (t\<lparr>t_sys := s, t_lock := l\<rparr>))"
  using assms flags_ok_move [OF flags_ok_same [OF t_invD(3) [OF assms(1)]], of s pc i]
  by (intro t_invI [OF assms(1)]) (simp_all add: at_def)

lemma thread_move:
  assumes "t_inv e n t" "recorded pc = recorded (t_thr t i)" "\<forall>p. releases pc = Some p \<longrightarrow> p < RTE_MAX_LCORE e"
    "lock_ok e l (t_main t) ((t_thr t)(i := pc))"
  shows "t_inv e n (at i pc (t\<lparr>t_lock := l\<rparr>))"
  using assms flags_ok_move [OF t_invD(3) [OF assms(1)], of pc i]
  by (intro t_invI_pc [OF assms(1)]) (simp_all add: at_def)

lemma record_inv:
  assumes inv: "t_inv e n t" and i: "i \<in> set (slave_lcores e)" "t_thr t i = Records stat"
    and run: "record_end i (t_sys t) = Some s"
  shows "t_inv e n (at i (Unlocks stat) (t\<lparr>t_sys := s\<rparr>))"
proof -
  note w = record_end_ok [OF t_invD(1) [OF inv] run]
  have "lr_flags (lcore_resource (t_sys t) ! i) = 0" using t_invD(3) [OF inv] i by (simp add: flags_ok_def)
  then have "flags_ok e s ((t_thr t)(i := Unlocks stat))" using w t_invD(3) [OF inv] by (simp add: flags_ok_def)
  moreover have "lock_ok e (t_lock t) (t_main t) ((t_thr t)(i := Unlocks stat))"
    by (rule lock_ok_stay [OF t_invD(4) [OF inv]]) (use i in simp_all)
  ultimately show ?thesis using w by (intro t_invI [OF inv]) (simp_all add: at_def)
qed

lemma after_end_eq:
  assumes "t_inv e n t" "i \<in> set (slave_lcores e)"
  shows "after_end i stat (t_sys t) = Some (Spins stat (lr_config_id (lcore_resource (t_sys t) ! i)))"
    "lr_config_id (lcore_resource (t_sys t) ! i) < RTE_MAX_LCORE e"
  using t_invD [OF assms(1)] slave_enabled [OF assms] assms(2) slave_lt [OF assms(2)]
  by (auto simp: after_end_def arr_get_def slaves_ready_def loop_ok_def sys_wf_def cfg_ids_def)

lemma thread_inv:
  assumes inv: "t_inv e n t" and step: "thread_step ops e n Q (Thread i) t t'"
  shows "t_inv e n t'"
  using step
proof cases
  case no_fork
  then show ?thesis using thread_move [OF inv _ _ lock_ok_move [OF t_invD(4) [OF inv]]] by simp
next
  case (forked child s)
  note w = upd_core_ok [OF t_invD(1) [OF inv] forked(5)]
  show ?thesis using forked thread_write [OF inv w _ _ lock_ok_move [OF t_invD(4) [OF inv]]] by simp
next
  case (ended s stat)
  note w = upd_core_ok [OF t_invD(1) [OF inv] ended(4)]
  show ?thesis using ended thread_write [OF inv w _ _ lock_ok_move [OF t_invD(4) [OF inv]]] by simp
next
  case (notify stat pc)
  note pc = after_end_eq [OF inv notify(2)]
  then have "pc = Spins stat (lr_config_id (lcore_resource (t_sys t) ! i))" using notify(4) by simp
  then show ?thesis using notify pc(2) thread_move [OF inv _ _ lock_ok_move [OF t_invD(4) [OF inv]]] by simp
next
  case (cb_lock stat p)
  have "lock_ok e True (t_main t) ((t_thr t)(i := Marks stat p))"
    by (rule lock_ok_take) (use cb_lock t_invD(4) [OF inv] in simp_all)
  moreover have "p < RTE_MAX_LCORE e" using t_invD(3) [OF inv] cb_lock by (simp add: flags_ok_def)
  ultimately show ?thesis using cb_lock thread_move [OF inv, of "Marks stat p" i True] by simp
next
  case (cb_used stat p s)
  note w = set_used_ok [OF t_invD(1) [OF inv] cb_used(4)]
  show ?thesis using cb_used thread_write [OF inv w _ _ lock_ok_stay [OF t_invD(4) [OF inv]]] by simp
next
  case (cb_flag stat s)
  then show ?thesis using record_inv [OF inv] by simp
next
  case (cb_unlock stat)
  then show ?thesis using thread_move [OF inv _ _ lock_ok_drop [OF t_invD(4) [OF inv]]] by simp
next
  case (returns stat)
  then show ?thesis using thread_move [OF inv _ _ lock_ok_move [OF t_invD(4) [OF inv]]] by simp
qed

lemma others_inv:
  assumes inv: "t_inv e n t" and step: "thread_step ops e n (loop_ok ops pool que e n) Slaves t t'"
  shows "t_inv e n t'"
  using step
proof cases
  case (others s)
  then show ?thesis
    using inv by (simp add: threads_ok_def slaves_ready_def flags_ok_def cfg_ids_def) (simp add: switch_process_def)
qed

lemma step_inv:
  assumes "t_inv e n t" "some_step ops e n (loop_ok ops pool que e n) t t'"
    "\<And>i. i < RTE_MAX_LCORE e \<Longrightarrow> launch_ok ops pool que i"
  shows "t_inv e n t'"
proof -
  obtain a where a: "thread_step ops e n (loop_ok ops pool que e n) a t t'" using assms(2) by (auto simp: some_step_def)
  show ?thesis
    using a main_inv [OF assms(1) _ assms(3)] thread_inv [OF assms(1)] others_inv [OF assms(1)] by (cases a) auto
qed

lemma reached_inv:
  assumes "(some_step ops e n (loop_ok ops pool que e n))\<^sup>*\<^sup>* t t'" "t_inv e n t"
    "\<And>i. i < RTE_MAX_LCORE e \<Longrightarrow> launch_ok ops pool que i"
  shows "t_inv e n t'"
  using assms(1,2) by (induction rule: rtranclp_induct) (blast intro: step_inv [OF _ _ assms(3)])+

lemma launched_inv:
  assumes "slaves_ready ops pool que e n s" "\<forall>i\<in>set (slave_lcores e). lr_flags (lcore_resource s ! i) = 0"
  shows "t_inv e n (all_launched e s)"
  using assms by (simp add: threads_ok_def all_launched_def flags_ok_def lock_ok_def)

section \<open>Waiting\<close>

text \<open>A thread that holds the lock gives it back after at most three steps of its own.\<close>

lemma holder_unlocks:
  assumes inv: "t_inv e n t" and j: "j \<in> set (slave_lcores e)" "in_lock (t_thr t j)"
  shows "\<exists>m\<le>3. \<exists>t'. (thread_step ops e n Q (Thread j) ^^ m) t t' \<and> t_main t' = t_main t \<and> \<not> t_lock t'"
proof -
  let ?R = "thread_step ops e n Q (Thread j)"
  have u: "?R t (at j (Leaves stat) (t\<lparr>t_lock := False\<rparr>))" if "t_thr t j = Unlocks stat" for t stat
    by (rule thread_step.cb_unlock [OF j(1) that])
  have r: "\<exists>s. record_end j (t_sys t) = Some s" if "t_inv e n t" for t
    using slave_enabled(3) [OF that j(1)] by (auto simp: record_end_def arr_get_def set_lcore_res_eq)
  have rec: "\<exists>s. ?R t (at j (Unlocks stat) (t\<lparr>t_sys := s\<rparr>))" if "t_inv e n t" "t_thr t j = Records stat" for t stat
    using r [OF that(1)] thread_step.cb_flag [OF j(1) that(2)] by blast
  have two: "\<exists>t'. (?R ^^ 2) t t' \<and> t_main t' = t_main t \<and> \<not> t_lock t'" if at: "t_inv e n t" "t_thr t j = Records stat" for t stat
  proof -
    obtain s where s: "?R t (at j (Unlocks stat) (t\<lparr>t_sys := s\<rparr>))" using rec [OF at] by blast
    then show ?thesis
      using u [of "at j (Unlocks stat) (t\<lparr>t_sys := s\<rparr>)" stat]
      by (intro exI [of _ "at j (Leaves stat) (at j (Unlocks stat) (t\<lparr>t_sys := s\<rparr>)\<lparr>t_lock := False\<rparr>)"])
        (auto simp: numeral_2_eq_2 relcompp_apply at_def)
  qed
  show ?thesis
  proof (cases "t_thr t j")
    case (Marks stat p)
    have "p < RTE_MAX_LCORE e" using t_invD(3) [OF inv] j(1) Marks by (simp add: flags_ok_def)
    then obtain s where "set_used p 0 (t_sys t) = Some s"
      using t_invD(1) [OF inv] set_used_eq [of p "t_sys t" 0] by (auto simp: loop_ok_def sys_wf_def)
    then have step: "?R t (at j (Records stat) (t\<lparr>t_sys := s\<rparr>))" by (rule thread_step.cb_used [OF j(1) Marks])
    obtain t' where "(?R ^^ 2) (at j (Records stat) (t\<lparr>t_sys := s\<rparr>)) t'" "t_main t' = t_main t" "\<not> t_lock t'"
      using two [OF thread_inv [OF inv step]] by (auto simp: at_def)
    then show ?thesis using step relpowp_Suc_I2 [of ?R t _ 2 t'] by (intro exI [of _ 3]) (auto simp: numeral_3_eq_3 numeral_2_eq_2)
  next
    case (Records stat)
    then show ?thesis using two [OF inv Records] by (intro exI [of _ 2]) simp
  next
    case (Unlocks stat)
    then show ?thesis using u [OF Unlocks] by (intro exI [of _ 1]) (auto simp: at_def)
  qed (use j(2) in simp_all)
qed

lemma launch_step:
  assumes inv: "t_inv e n t" and m: "t_main t = Waits_for k" and k: "t_thr t k = Ready x" "launch_ok ops pool que k"
  shows "\<exists>t'. thread_step ops e n Q Main t t'"
proof -
  note w = waits_for_slave [OF inv m]
  note en = slave_enabled [OF inv w(1)]
  obtain s where s: "reset_finish ops e k (t_sys t) = Some (0, s)" "loop_ok ops pool que e n s"
    using finish_ok [OF t_invD(1) [OF inv] slave_lt [OF w(1)] en(1) k(2)] by blast
  then have "k < length (lcore_resource s)" using slave_lt [OF w(1)] by (simp add: loop_ok_def sys_wf_def)
  then obtain s' where "clear_recreate k s = Some s'" by (auto simp: clear_recreate_def arr_get_def set_lcore_res_eq)
  moreover have "arr_get (lcore_resource (t_sys t)) k = Some (lcore_resource (t_sys t) ! k)" using en(3) by (simp add: arr_get_def)
  ultimately show ?thesis
    using thread_step.launch [OF m _ _ _ s(1)] en(2) k(1) by (metis (no_types, lifting))
qed

lemma pass_step:
  assumes inv: "t_inv e n t" and m: "t_main t = Pass k"
  shows "\<exists>t'. thread_step ops e n Q Main t t'"
proof (cases "k < RTE_MAX_LCORE e")
  case False
  then show ?thesis using thread_step.unlock [OF m, of e ops n Q] by auto
next
  case True
  let ?r = "lcore_resource (t_sys t) ! k"
  have r: "arr_get (lcore_resource (t_sys t)) k = Some ?r"
    using t_invD(1) [OF inv] True by (simp add: loop_ok_def sys_wf_def arr_get_def)
  show ?thesis
  proof (cases "lr_enabled ?r = 1 \<and> lr_flags ?r = SLAVE_RECREATE_FLAG")
    case False
    show ?thesis using thread_step.skip [OF m True r False] by blast
  next
    case en: True
    then obtain s where "reset_prepare ops e n (lr_lcore_id ?r) (t_sys t) = Some (Return 0, s)"
      using prepare_ok [OF t_invD(1) [OF inv] True] seen_ended(2) [OF inv True] by auto
    then show ?thesis using thread_step.prepare [OF m True r conjunct1 [OF en] conjunct2 [OF en]] by blast
  qed
qed

lemma main_can_step:
  assumes inv: "t_inv e n t" and l: "\<And>i. i < RTE_MAX_LCORE e \<Longrightarrow> launch_ok ops pool que i"
  shows "\<exists>j. \<exists>m\<le>3. \<exists>t1 t2. (thread_step ops e n Q (Thread j) ^^ m) t t1 \<and> thread_step ops e n Q Main t1 t2"
proof -
  have zero: ?thesis if "thread_step ops e n Q Main t t2" for t2
    using that by (intro exI [of _ 0] exI [of _ 0]) auto
  show ?thesis
  proof (cases "t_main t")
    case Polls
    then show ?thesis by (intro zero [OF thread_step.want])
  next
    case Wants
    show ?thesis
    proof (cases "t_lock t")
      case False
      then show ?thesis using Wants by (intro zero [OF thread_step.lock])
    next
      case True
      then obtain j where "j \<in> set (slave_lcores e)" "in_lock (t_thr t j)"
        using t_invD(4) [OF inv] Wants by (auto simp: lock_ok_def)
      from holder_unlocks [OF inv this, of Q] obtain m t' where
        "m \<le> 3" "(thread_step ops e n Q (Thread j) ^^ m) t t'" "t_main t' = Wants" "\<not> t_lock t'" using Wants by auto
      then show ?thesis using thread_step.lock by blast
    qed
  next
    case (Pass k)
    then show ?thesis using pass_step [OF inv Pass] zero by blast
  next
    case (Waits_for k)
    note w = waits_for_slave [OF inv Waits_for]
    have "recorded (t_thr t k)" "\<not> in_lock (t_thr t k)"
      using t_invD(4) [OF inv] Waits_for w(1) by (simp_all add: lock_ok_def)
    then consider (ready) x where "t_thr t k = Ready x" | (leaves) x where "t_thr t k = Leaves x"
      by (cases "t_thr t k") auto
    then show ?thesis
    proof cases
      case ready
      show ?thesis using launch_step [OF inv Waits_for ready l [OF slave_lt [OF w(1)]]] zero by blast
    next
      case leaves
      let ?t = "at k (Ready x) t"
      have step: "thread_step ops e n Q (Thread k) t ?t" by (rule thread_step.returns [OF w(1) leaves])
      have "\<exists>t'. thread_step ops e n Q Main ?t t'"
        by (rule launch_step [OF thread_inv [OF inv step] _ _ l [OF slave_lt [OF w(1)]], where x = x])
          (use Waits_for in \<open>simp_all add: at_def\<close>)
      then show ?thesis using step by (intro exI [of _ k] exI [of _ 1]) auto
    qed
  next
    case Stopped
    then show ?thesis using t_invD(4) [OF inv] by (simp add: lock_ok_def)
  qed
qed

text \<open>A thread that could not fork stays where it is.\<close>

lemma unborn_stays:
  assumes inv: "t_inv e n t" and i: "i \<in> set (slave_lcores e)" "t_thr t i = Unborn"
    and step: "thread_step ops e n Q a t t'"
  shows "t_thr t' i = Unborn"
proof -
  have "k \<noteq> i" if "t_main t = Waits_for k" for k
    using t_invD(4) [OF inv] that i by (auto simp: lock_ok_def)
  with step show ?thesis by cases (use i waits_for_slave(2) [OF inv] in \<open>auto simp: at_def\<close>)
qed

lemma unborn_for_ever:
  assumes "(some_step ops e n (loop_ok ops pool que e n))\<^sup>*\<^sup>* t t'" "t_inv e n t"
    "\<And>i. i < RTE_MAX_LCORE e \<Longrightarrow> launch_ok ops pool que i" "i \<in> set (slave_lcores e)" "t_thr t i = Unborn"
  shows "t_thr t' i = Unborn"
  using assms(1)
proof (induction rule: rtranclp_induct)
  case (step t1 t2)
  then show ?case
    using unborn_stays [OF reached_inv [OF step(1) assms(2,3)] assms(4)] by (auto simp: some_step_def)
qed (rule assms(5))

end

end
