(* ===== verification/Process_Invariant.thy ===== *)
theory Process_Invariant
  imports Processes
begin

text \<open>
  The invariant of the system of processes. A slave has at most one request or one answer in its rings;
  the configuration it holds, or that is on its way to it, is marked as used and recorded for it, and no
  other slave holds it. Every step concerns one slave, and keeps the invariant.
\<close>

section \<open>The invariant\<close>

text \<open>The configuration a message names, and the one a slave holds, given the messages on their way to it.\<close>

definition config_of :: "bridge_msg_s \<Rightarrow> nat" where
  "config_of m = unat (of_int (atoi (msg m)) :: u8)"

fun held :: "phase \<Rightarrow> bridge_msg_s list \<Rightarrow> nat option" where
  "held (Running p) q = Some p"
| "held (Left p) q = Some p"
| "held Waiting (x # q) = Some (config_of x)"
| "held ph q = None"

text \<open>What the two rings of a slave can hold: at most one request or one answer, while it waits.\<close>

fun channels :: "phase \<Rightarrow> bridge_msg_s list \<Rightarrow> bridge_msg_s list \<Rightarrow> bool" where
  "channels Waiting q0 q1 \<longleftrightarrow> q0 = [] \<and> (q1 = [] \<or> q1 = [cfg_request]) \<or> q1 = [] \<and> (\<exists>p<256. q0 = [cfg_msg p])"
| "channels _ q0 q1 \<longleftrightarrow> q0 = [] \<and> q1 = []"

fun unmapped :: "phase \<Rightarrow> bool" where
  "unmapped Forked = True"
| "unmapped (Left p) = True"
| "unmapped Ended = True"
| "unmapped _ = False"

definition place :: "phase \<Rightarrow> nat \<Rightarrow> nat \<Rightarrow> nat" where
  "place ph i k = (if ph = Forked then i else k)"

lemma config_of_cfg_msg [simp]: "p < 256 \<Longrightarrow> config_of (cfg_msg p) = p"
  by (simp add: config_of_def cfg_msg_def atoi_snprintf_d unat_of_nat)

lemma pc_enabled_used [simp]: "pc_enabled (xs[p := (xs ! p)\<lparr>pc_used := v\<rparr>] ! q) = pc_enabled (xs ! q)"
  by (cases "p < length xs") (auto simp: nth_list_update list_update_beyond)

lemma slave_exit_cb_eq:
  assumes "i < length (lcore_resource s)" "lr_enabled (lcore_resource s ! i) \<noteq> 0"
    "lr_config_id (lcore_resource s ! i) = p" "p < length (proc_config s)"
  shows "\<exists>fl. slave_exit_cb i stat s = Some (s\<lparr>proc_config := (proc_config s)[p := (proc_config s ! p)\<lparr>pc_used := 0\<rparr>],
    lcore_resource := (lcore_resource s)[i := (lcore_resource s ! i)\<lparr>lr_flags := fl\<rparr>]\<rparr>)"
proof (cases "lr_flags (lcore_resource s ! i) AND SLAVE_DONT_RECREATE_FLAG = 0")
  case True
  then show ?thesis
    using assms by (intro exI [of _ SLAVE_RECREATE_FLAG]) (simp add: slave_exit_cb_def arr_get_def set_used_eq set_lcore_res_eq)
next
  case False
  then show ?thesis
    using assms by (intro exI [of _ "lr_flags (lcore_resource s ! i)"]) (simp add: slave_exit_cb_def arr_get_def set_used_eq)
qed

locale slave_system = ring_registry +
  fixes e :: eal and G0 G1 :: "nat \<Rightarrow> ring_ptr"
  assumes size: "RTE_MAX_LCORE e \<le> 256"
    and inj: "inj_on G0 (set (slave_lcores e))" "inj_on G1 (set (slave_lcores e))"
    and apart: "i \<in> set (slave_lcores e) \<Longrightarrow> j \<in> set (slave_lcores e) \<Longrightarrow> G0 i \<noteq> G1 j"
begin

text \<open>What the master knows of a slave, and what the slave has of its own.\<close>

definition known :: "'a sys \<Rightarrow> phase \<Rightarrow> nat \<Rightarrow> bool" where
  "known m ph i \<longleftrightarrow> lr_enabled (lcore_resource m ! i) = 1 \<and> lr_lcore_id (lcore_resource m ! i) = i \<and>
     ring_of m i 0 = Some (G0 i) \<and> ring_of m i 1 = Some (G1 i) \<and> rings_exist ops m i (G0 i) (G1 i) \<and>
     channels ph (msgs que m (G0 i)) (msgs que m (G1 i)) \<and> (unmapped ph \<longrightarrow> mapping_id m ! i = INVALID_MAPPING_ID)"

definition own_ok :: "'a sys \<Rightarrow> nat \<Rightarrow> nat \<Rightarrow> bool" where
  "own_ok s i j \<longleftrightarrow> sys_wf e s \<and> float_proc (main_information s) \<noteq> 0 \<and> j < RTE_MAX_LCORE e \<and>
     ring_of s j 0 = Some (G0 i) \<and> ring_of s j 1 = Some (G1 i)"

definition holds :: "'a sys \<Rightarrow> nat \<Rightarrow> nat option \<Rightarrow> bool" where
  "holds m i h \<longleftrightarrow> (\<forall>p. h = Some p \<longrightarrow> p < RTE_MAX_LCORE e \<and> pc_used (proc_config m ! p) = 1 \<and>
     pc_enabled (proc_config m ! p) \<noteq> 0 \<and> lr_config_id (lcore_resource m ! i) = p)"

definition held_by :: "'a world \<Rightarrow> nat \<Rightarrow> nat option" where
  "held_by w i = held (w_phase w i) (msgs que (w_master w) (G0 i))"

definition slave_inv :: "'a world \<Rightarrow> nat \<Rightarrow> bool" where
  "slave_inv w i \<longleftrightarrow> known (w_master w) (w_phase w i) i \<and>
     own_ok (w_own w i) i (place (w_phase w i) i (w_num w i)) \<and> holds (w_master w) i (held_by w i)"

definition world_inv :: "msg_ptr set \<Rightarrow> 'a world \<Rightarrow> bool" where
  "world_inv B w \<longleftrightarrow> sys_wf e (w_master w) \<and> ipc_ok pool que (w_master w) \<and>
     ipc_buffers pool que (w_master w) = B \<and> float_proc (main_information (w_master w)) \<noteq> 0 \<and>
     (\<forall>i\<in>set (slave_lcores e). slave_inv w i) \<and>
     (\<forall>i\<in>set (slave_lcores e). \<forall>j\<in>set (slave_lcores e). \<forall>p.
        held_by w i = Some p \<longrightarrow> held_by w j = Some p \<longrightarrow> i = j)"

text \<open>A change of the master's view that concerns only slave \<open>i\<close>.\<close>

definition only :: "nat \<Rightarrow> 'a sys \<Rightarrow> 'a sys \<Rightarrow> bool" where
  "only i m m' \<longleftrightarrow> sys_wf e m' \<and> ipc_ok pool que m' \<and> ipc_buffers pool que m' = ipc_buffers pool que m \<and>
     float_proc (main_information m') = float_proc (main_information m) \<and>
     rte_ring_lookup ops (dpdk m') = rte_ring_lookup ops (dpdk m) \<and>
     (\<forall>p<RTE_MAX_LCORE e. pc_enabled (proc_config m' ! p) = pc_enabled (proc_config m ! p)) \<and>
     (\<forall>j\<in>set (slave_lcores e). j \<noteq> i \<longrightarrow> lcore_resource m' ! j = lcore_resource m ! j \<and>
        mapping_id m' ! j = mapping_id m ! j \<and> msgs que m' (G0 j) = msgs que m (G0 j) \<and>
        msgs que m' (G1 j) = msgs que m (G1 j))"

definition local_step :: "msg_ptr set \<Rightarrow> nat \<Rightarrow> 'a world \<Rightarrow> 'a world \<Rightarrow> bool" where
  "local_step B i w w' \<longleftrightarrow> world_inv B w' \<and> only i (w_master w) (w_master w') \<and>
     (\<forall>j. j \<noteq> i \<longrightarrow> w_phase w' j = w_phase w j)"

text \<open>
  A step of or for slave \<open>i\<close> keeps the invariant, if it keeps it for that slave, frees no
  configuration but the one the slave held, and gives it only one that was unused.
\<close>

lemma world_inv_step:
  assumes inv: "world_inv B w" and i: "i \<in> set (slave_lcores e)" and only: "only i (w_master w) (w_master w')"
    and rest: "\<And>j. j \<noteq> i \<Longrightarrow> w_own w' j = w_own w j \<and> w_num w' j = w_num w j \<and> w_phase w' j = w_phase w j"
    and used: "\<And>p. p < RTE_MAX_LCORE e \<Longrightarrow> held_by w i \<noteq> Some p \<Longrightarrow> pc_used (proc_config (w_master w) ! p) = 1 \<Longrightarrow>
      pc_used (proc_config (w_master w') ! p) = 1"
    and new: "\<And>p. held_by w' i = Some p \<Longrightarrow> held_by w i = Some p \<or> pc_used (proc_config (w_master w) ! p) \<noteq> 1"
    and self: "slave_inv w' i"
  shows "local_step B i w w'"
proof -
  let ?S = "set (slave_lcores e)"
  have same: "held_by w' j = held_by w j" if "j \<in> ?S" "j \<noteq> i" for j
    using only rest [OF that(2)] that by (simp add: only_def held_by_def)
  have excl: "held_by w i \<noteq> Some p" if "j \<in> ?S" "j \<noteq> i" "held_by w j = Some p" for j p
    using inv i that unfolding world_inv_def by blast
  have hold: "p < RTE_MAX_LCORE e \<and> pc_used (proc_config (w_master w) ! p) = 1"
    if "j \<in> ?S" "held_by w j = Some p" for j p
    using inv that unfolding world_inv_def slave_inv_def holds_def by blast
  have "slave_inv w' j" if j: "j \<in> ?S" "j \<noteq> i" for j
  proof -
    have "slave_inv w j" using inv j(1) unfolding world_inv_def by blast
    moreover have "holds (w_master w') j (held_by w j)" if "holds (w_master w) j (held_by w j)"
      using that only j excl [OF j] used unfolding holds_def only_def by simp
    ultimately show ?thesis
      using only j rest [OF j(2)] same [OF j]
      by (simp add: slave_inv_def known_def only_def ring_of_def rings_exist_def)
  qed
  moreover have "j = k" if jk: "j \<in> ?S" "k \<in> ?S" "held_by w' j = Some p" "held_by w' k = Some p" for j k p
  proof -
    have no: False if "j \<in> ?S" "j \<noteq> i" "held_by w' j = Some p" "held_by w' i = Some p" for j
    proof -
      have "held_by w j = Some p" using same [OF that(1,2)] that(3) by simp
      then show ?thesis using new [OF that(4)] excl [OF that(1,2)] hold [OF that(1)] by simp
    qed
    show ?thesis
    proof (cases "j = i \<or> k = i")
      case True
      then show ?thesis using no [of j] no [of k] jk by auto
    next
      case False
      then show ?thesis using jk same [of j] same [of k] inv unfolding world_inv_def by auto
    qed
  qed
  ultimately show ?thesis
    using inv only self rest unfolding local_step_def world_inv_def
    by (auto split: if_splits simp: only_def)
qed

section \<open>Every step keeps it\<close>

lemma slave_range: "i \<in> set (slave_lcores e) \<Longrightarrow> i < RTE_MAX_LCORE e"
  by (simp add: slave_lcores_def)

lemma switch_frame:
  assumes "ipc_frame (switch_process o' m) s"
  shows "ipc_frame m (switch_process m s)" "lcore_resource s = lcore_resource o'"
    "main_information s = main_information o'" "proc_config s = proc_config o'" "sys_wf e o' \<Longrightarrow> sys_wf e m \<Longrightarrow> sys_wf e s"
proof -
  obtain d mm where s: "s = (switch_process o' m)\<lparr>dpdk := d, msg_mem := mm\<rparr>"
    using assms unfolding ipc_frame_def by blast
  then have "switch_process m s = m\<lparr>dpdk := d, msg_mem := mm\<rparr>" by (simp add: switch_process_def)
  then show "ipc_frame m (switch_process m s)" unfolding ipc_frame_def by blast
  show "lcore_resource s = lcore_resource o'" "main_information s = main_information o'"
    "proc_config s = proc_config o'" "sys_wf e o' \<Longrightarrow> sys_wf e m \<Longrightarrow> sys_wf e s"
    using s by (simp_all add: switch_process_def sys_wf_def)
qed

lemma ipc_buffers_switch [simp]: "ipc_buffers pool que (switch_process o' s) = ipc_buffers pool que s"
  "dpdk (switch_process o' s) = dpdk s"
  by (simp_all add: ipc_buffers_def switch_process_def)

text \<open>An exchange on the rings of slave \<open>i\<close>.\<close>

lemma only_exchange:
  assumes i: "i \<in> set (slave_lcores e)" and f: "ipc_frame m m'" and wf: "sys_wf e m" and ok: "ipc_ok pool que m'"
    "ipc_buffers pool que m' = ipc_buffers pool que m" "rte_ring_lookup ops (dpdk m') = rte_ring_lookup ops (dpdk m)"
    and q: "\<And>g. g \<noteq> G0 i \<Longrightarrow> g \<noteq> G1 i \<Longrightarrow> msgs que m' g = msgs que m g"
  shows "only i m m'"
proof -
  have "G0 j \<noteq> G0 i \<and> G0 j \<noteq> G1 i \<and> G1 j \<noteq> G0 i \<and> G1 j \<noteq> G1 i" if "j \<in> set (slave_lcores e)" "j \<noteq> i" for j
    using inj i that apart [of i j] apart [of j i] by (auto dest: inj_onD)
  then show ?thesis
    using ipc_frame_private [OF f, of e] ipc_frame_tables [OF f] wf ok q by (auto simp: only_def)
qed

lemma slave_exchange:
  assumes inv: "world_inv B w" and i: "i \<in> set (slave_lcores e)" "w_phase w i \<noteq> Forked"
    and s: "ipc_frame (view w i) s" "ipc_ok pool que s" "ipc_buffers pool que s = ipc_buffers pool que (w_master w)"
      "rte_ring_lookup ops (dpdk s) = rte_ring_lookup ops (dpdk (w_master w))"
    and q: "\<And>g. g \<noteq> G0 i \<Longrightarrow> g \<noteq> G1 i \<Longrightarrow> msgs que s g = msgs que (w_master w) g"
    and ph: "ph \<noteq> Forked" "\<not> unmapped ph" "channels ph (msgs que s (G0 i)) (msgs que s (G1 i))"
      "held ph (msgs que s (G0 i)) = held_by w i"
  shows "local_step B i w (put_view i s ph w)"
proof -
  let ?m = "switch_process (w_master w) s"
  have si: "slave_inv w i" and wf: "sys_wf e (w_master w)" using inv i(1) by (simp_all add: world_inv_def)
  note f = switch_frame [OF s(1) [unfolded view_def]]
  have o: "only i (w_master w) ?m" by (rule only_exchange [OF i(1) f(1) wf]) (use s q in simp_all)
  note p = ipc_frame_private [OF f(1), of e] ipc_frame_sel [OF f(1)]
  have k: "known ?m ph i" using si ph(2,3) p s(4) by (simp add: slave_inv_def known_def rings_exist_def)
  have own: "own_ok s i (place ph i (w_num w i))"
    using si i(2) ph(1) f wf by (simp add: slave_inv_def own_ok_def place_def ring_of_def)
  have h: "holds ?m i (held_by w i)" using si p by (simp add: slave_inv_def holds_def)
  have "held_by (put_view i s ph w) i = held_by w i" using ph(4) by (simp add: held_by_def put_view_def)
  then have self: "slave_inv (put_view i s ph w) i" using k own h by (simp add: slave_inv_def put_view_def)
  show ?thesis
    by (rule world_inv_step [OF inv i(1) _ _ _ _ self])
      (use o p ph(4) in \<open>auto simp: put_view_def held_by_def\<close>)
qed

lemma slave_ring:
  assumes "slave_inv w i" "w_phase w i \<noteq> Forked"
  shows "valid_slave (view w i) (w_num w i)" "ring_of (view w i) (w_num w i) 0 = Some (G0 i)"
    "ring_of (view w i) (w_num w i) 1 = Some (G1 i)"
  using assms by (simp_all add: slave_inv_def own_ok_def place_def view_def valid_slave_wf [of e])

lemma view_ipc [simp]:
  "ipc_ok pool que (view w i) = ipc_ok pool que (w_master w)"
  "ipc_buffers pool que (view w i) = ipc_buffers pool que (w_master w)"
  "msgs que (view w i) = msgs que (w_master w)" "dpdk (view w i) = dpdk (w_master w)"
  by (simp_all add: view_def)

lemma request_inv:
  assumes inv: "world_inv B w" and i: "i \<in> set (slave_lcores e)" and ph: "w_phase w i = Entered"
    and run: "send_cmd ops (w_num w i) cfg_request False (view w i) = Some (r, s)"
  shows "local_step B i w (put_view i s Waiting w)"
proof -
  have si: "slave_inv w i" and ok: "ipc_ok pool que (view w i)" using inv i by (simp_all add: world_inv_def)
  note v = slave_ring [OF si, unfolded ph, simplified]
  have empty: "msgs que (w_master w) (G0 i) = []" "msgs que (w_master w) (G1 i) = []"
    using si ph by (simp_all add: slave_inv_def known_def)
  have s: "ipc_frame (view w i) s" "ipc_ok pool que s" "ipc_buffers pool que s = ipc_buffers pool que (view w i)"
    "msgs que s = (msgs que (view w i))(G1 i := [cfg_request]) \<or> msgs que s = msgs que (view w i)"
    using send_cmd_spec [OF ok v(1), of cfg_request False] run v(3) empty by (auto simp: channel_sent_def)
  have q: "msgs que s g = msgs que (w_master w) g" if "g \<noteq> G1 i" for g using s(4) that by auto
  show ?thesis
    by (rule slave_exchange [OF inv i _ s(1,2)])
      (use s q empty ph apart [OF i i] send_cmd_lookup [OF run] in \<open>auto simp: held_by_def\<close>)
qed

lemma answer_inv:
  assumes inv: "world_inv B w" and i: "i \<in> set (slave_lcores e)" and ph: "w_phase w i = Waiting"
    and run: "get_cmd ops (w_num w i) m False (view w i) = Some (r, m', s)"
  shows "r \<noteq> 0 \<or> cmd m' \<noteq> cmd cfg_request \<Longrightarrow> local_step B i w (put_view i s Waiting w) \<and> msgs que s = msgs que (w_master w)"
    "r = 0 \<Longrightarrow> local_step B i w (put_view i s (Running (config_of m')) w) \<and> msgs que (w_master w) (G0 i) \<noteq> []"
proof -
  have si: "slave_inv w i" and ok: "ipc_ok pool que (view w i)" using inv i by (simp_all add: world_inv_def)
  note v = slave_ring [OF si, unfolded ph, simplified]
  have ch: "channels Waiting (msgs que (w_master w) (G0 i)) (msgs que (w_master w) (G1 i))"
    using si ph by (simp add: slave_inv_def known_def)
  have s: "ipc_frame (view w i) s" "ipc_ok pool que s" "ipc_buffers pool que s = ipc_buffers pool que (view w i)"
    "r = 0 \<and> channel_received que (view w i) (Some (G0 i)) m' s \<or> r < 0 \<and> m' = m \<and> msgs que s = msgs que (view w i)"
    using get_cmd_spec [OF ok v(1), of m False] run v(2) by auto
  note keep = slave_exchange [OF inv i _ s(1,2)]
  have got: "\<exists>p. msgs que (w_master w) (G0 i) = [m'] \<and> m' = cfg_msg p \<and> msgs que (w_master w) (G1 i) = [] \<and>
      msgs que s = (msgs que (w_master w))(G0 i := [])" if "r = 0"
    using s(4) ch that by (auto simp: channel_received_def)
  show "local_step B i w (put_view i s Waiting w) \<and> msgs que s = msgs que (w_master w)"
    if "r \<noteq> 0 \<or> cmd m' \<noteq> cmd cfg_request"
  proof -
    have "r \<noteq> 0" using that got by (auto simp: cfg_msg_def cfg_request_def)
    then have same: "msgs que s = msgs que (w_master w)" using s(4) by auto
    then show ?thesis
      using keep [of Waiting] s(3) ph ch get_cmd_lookup [OF run] by (simp add: held_by_def)
  qed
  show "local_step B i w (put_view i s (Running (config_of m')) w) \<and> msgs que (w_master w) (G0 i) \<noteq> []" if "r = 0"
    using keep [of "Running (config_of m')"] got [OF that] s(3) ph get_cmd_lookup [OF run] apart [OF i i]
    by (auto simp: held_by_def)
qed

text \<open>The steps that do not touch the rings.\<close>

lemma ipc_same:
  assumes "dpdk m' = dpdk m" "msg_mem m' = msg_mem m"
  shows "ipc_ok pool que m' = ipc_ok pool que m" "ipc_buffers pool que m' = ipc_buffers pool que m"
    "msgs que m' = msgs que m" "rings_exist ops m' = rings_exist ops m"
  using assms by (simp_all add: ipc_ok_def ipc_buffers_def msgs_def rings_exist_def fun_eq_iff)

lemma sys_wf_resource:
  assumes "sys_wf e s" "length (lr_ring r) = 2" "length (lr_ring_name r) = 2"
  shows "sys_wf e (s\<lparr>lcore_resource := (lcore_resource s)[k := r]\<rparr>)"
  using sys_wf_update [OF assms(1) refl assms(2,3), where d = "dpdk s" and i = k] by simp

lemma view_wf:
  assumes "world_inv B w" "i \<in> set (slave_lcores e)"
  shows "sys_wf e (view w i)" "float_proc (main_information (view w i)) \<noteq> 0"
  using assms unfolding world_inv_def slave_inv_def own_ok_def
  by (auto simp: view_def switch_process_def sys_wf_def)

lemma tables_step:
  assumes inv: "world_inv B w" and i: "i \<in> set (slave_lcores e)"
    and m: "switch_process (w_master w) s =
      (w_master w)\<lparr>lcore_cfg := c, mapping_id := (mapping_id (w_master w))[i := x]\<rparr>" "length c = RTE_MAX_LCORE e"
    and own: "own_ok s i (place ph i k)" and ph: "channels ph = channels (w_phase w i)" "held ph = held (w_phase w i)"
      "unmapped ph \<longrightarrow> x = INVALID_MAPPING_ID"
  shows "local_step B i w ((put_view i s ph w)\<lparr>w_num := (w_num w)(i := k)\<rparr>)" (is "local_step B i w ?w")
proof -
  have si: "slave_inv w i" and wf: "sys_wf e (w_master w)" and ok: "ipc_ok pool que (w_master w)"
    using inv i by (simp_all add: world_inv_def)
  have wm: "w_master ?w = (w_master w)\<lparr>lcore_cfg := c, mapping_id := (mapping_id (w_master w))[i := x]\<rparr>"
    by (simp add: put_view_def m)
  have same: "ipc_ok pool que (w_master ?w) = ipc_ok pool que (w_master w)"
    "ipc_buffers pool que (w_master ?w) = ipc_buffers pool que (w_master w)"
    "msgs que (w_master ?w) = msgs que (w_master w)" "rings_exist ops (w_master ?w) = rings_exist ops (w_master w)"
    by (rule ipc_same; simp add: wm)+
  have o: "only i (w_master w) (w_master ?w)"
    unfolding only_def same using wf ok m(2) by (simp add: wm sys_wf_def)
  have h: "held_by ?w i = held_by w i" unfolding held_by_def same using ph(2) by (simp add: put_view_def)
  have "known (w_master ?w) ph i"
    unfolding known_def same using si ph wf slave_range [OF i]
    by (simp add: slave_inv_def known_def wm ring_of_def sys_wf_def)
  moreover have "holds (w_master ?w) i (held_by w i)" using si by (simp add: slave_inv_def holds_def wm)
  ultimately have self: "slave_inv ?w i" unfolding slave_inv_def h using own by (simp add: put_view_def)
  show ?thesis
    by (rule world_inv_step [OF inv i o _ _ _ self]) (use h wm in \<open>auto simp: put_view_def\<close>)
qed

lemma enter_inv:
  assumes inv: "world_inv B w" and i: "i \<in> set (slave_lcores e)" and ph: "w_phase w i = Forked"
    and run: "slave_enter i (view w i) = Some (Some k, s)"
  shows "local_step B i w ((put_view i s Entered w)\<lparr>w_num := (w_num w)(i := k)\<rparr>)"
proof (rule tables_step [OF inv i])
  have si: "slave_inv w i" using inv i by (simp add: world_inv_def)
  note vw = view_wf [OF inv i] and ri = slave_range [OF i]
  have k: "k < RTE_MAX_LCORE e" and s: "s = occupied i k (view w i)"
    using slave_enter_spec [OF run vw(1) ri] by auto
  show "switch_process (w_master w) s = (w_master w)\<lparr>lcore_cfg := (lcore_cfg (w_master w))[k := 1],
      mapping_id := (mapping_id (w_master w))[i := k]\<rparr>"
    by (simp add: s occupied_def view_def switch_process_def)
  have "sys_wf e s"
    unfolding s occupied_def using sys_wf_resource [OF vw(1), of "lcore_resource (view w i) ! i" k] vw(1) ri
    by (simp add: sys_wf_def)
  moreover have "lcore_resource s ! k = lcore_resource (w_own w i) ! i" "main_information s = main_information (w_own w i)"
    using vw(1) k by (simp_all add: s occupied_def view_def switch_process_def sys_wf_def)
  ultimately show "own_ok s i (place Entered i k)"
    using si ph k by (simp add: slave_inv_def own_ok_def place_def ring_of_def)
qed (use inv ph in \<open>auto simp: world_inv_def sys_wf_def fun_eq_iff\<close>)

lemma leave_inv:
  assumes inv: "world_inv B w" and i: "i \<in> set (slave_lcores e)" and ph: "w_phase w i = Running p"
    and run: "slave_leave e i (w_num w i) retval (view w i) = Some s"
  shows "local_step B i w (put_view i s (Left p) w)"
proof -
  have si: "slave_inv w i" using inv i by (simp add: world_inv_def)
  note vw = view_wf [OF inv i] and ri = slave_range [OF i]
  let ?k = "w_num w i"
  have s: "s = vacated e i ?k retval (view w i)" using slave_leave_spec [OF vw(1) ri vw(2)] run by simp
  have m: "switch_process (w_master w) s = (w_master w)\<lparr>lcore_cfg := free_entry e ?k (lcore_cfg (w_master w)),
      mapping_id := (mapping_id (w_master w))[i := INVALID_MAPPING_ID]\<rparr>"
    by (simp add: s vacated_def view_def switch_process_def)
  let ?r = "(lcore_resource (view w i) ! i)\<lparr>lr_flags := lr_flags (lcore_resource (view w i) ! i) AND SLAVE_DONT_RECREATE_FLAG\<rparr>"
  have "sys_wf e s"
    unfolding s vacated_def using sys_wf_resource [OF vw(1), of ?r i] vw(1) ri
    by (simp add: sys_wf_def free_entry_def)
  moreover have "ring_of s j fd = ring_of (w_own w i) j fd" for j fd
    using vw(1) ri by (cases "j = i") (simp_all add: s vacated_def view_def switch_process_def sys_wf_def ring_of_def)
  moreover have "main_information s = main_information (w_own w i)"
    by (simp add: s vacated_def view_def switch_process_def)
  ultimately have own: "own_ok s i (place (Left p) i ?k)" using si ph by (simp add: slave_inv_def own_ok_def place_def)
  have "local_step B i w ((put_view i s (Left p) w)\<lparr>w_num := (w_num w)(i := ?k)\<rparr>)"
    by (rule tables_step [OF inv i m _ own])
      (use inv ph in \<open>auto simp: world_inv_def sys_wf_def free_entry_def fun_eq_iff\<close>)
  then show ?thesis by (simp add: put_view_def)
qed

text \<open>The steps of the master.\<close>

lemma master_step:
  assumes inv: "world_inv B w" and i: "i \<in> set (slave_lcores e)" and o: "only i (w_master w) s"
    and ph: "ph = Forked \<longleftrightarrow> w_phase w i = Forked"
    and used: "\<And>p. p < RTE_MAX_LCORE e \<Longrightarrow> held_by w i \<noteq> Some p \<Longrightarrow> pc_used (proc_config (w_master w) ! p) = 1 \<Longrightarrow>
      pc_used (proc_config s ! p) = 1"
    and new: "\<And>p. held ph (msgs que s (G0 i)) = Some p \<Longrightarrow>
      held_by w i = Some p \<or> pc_used (proc_config (w_master w) ! p) \<noteq> 1"
    and k: "known s ph i" and h: "holds s i (held ph (msgs que s (G0 i)))"
  shows "local_step B i w ((put_master s w)\<lparr>w_phase := (w_phase w)(i := ph)\<rparr>)" (is "local_step B i w ?w")
proof -
  have "slave_inv w i" using inv i by (simp add: world_inv_def)
  then have self: "slave_inv ?w i"
    using k h ph by (simp add: slave_inv_def held_by_def put_master_def place_def)
  show ?thesis
    by (rule world_inv_step [OF inv i _ _ _ _ self]) (use o used new in \<open>auto simp: put_master_def held_by_def\<close>)
qed

lemma set_lcore_cfg_lookup:
  assumes "sys_wf e s" "i < RTE_MAX_LCORE e" "main_set_lcore_cfg ops e i s = Some (r, s')"
  shows "rte_ring_lookup ops (dpdk s') = rte_ring_lookup ops (dpdk s)"
  using assms by (auto simp: main_set_lcore_cfg_def set_cfg_loop_find sys_wf_def run_convs
      split: option.splits if_splits dest!: send_cmd_lookup)

lemma master_exchange:
  assumes inv: "world_inv B w" and i: "i \<in> set (slave_lcores e)" and s: "ipc_frame (w_master w) s" "ipc_ok pool que s"
    "ipc_buffers pool que s = ipc_buffers pool que (w_master w)"
    "rte_ring_lookup ops (dpdk s) = rte_ring_lookup ops (dpdk (w_master w))"
    "msgs que s (G0 i) = msgs que (w_master w) (G0 i)" "channels (w_phase w i) (msgs que s (G0 i)) (msgs que s (G1 i))"
    "\<And>g. g \<noteq> G0 i \<Longrightarrow> g \<noteq> G1 i \<Longrightarrow> msgs que s g = msgs que (w_master w) g"
  shows "local_step B i w (put_master s w)"
proof -
  have si: "slave_inv w i" and wf: "sys_wf e (w_master w)" using inv i by (simp_all add: world_inv_def)
  note p = ipc_frame_private [OF s(1), of e] ipc_frame_tables [OF s(1)] ipc_frame_sel [OF s(1)]
  have o: "only i (w_master w) s" by (rule only_exchange [OF i s(1) wf s(2-4,7)])
  have "known s (w_phase w i) i" "holds s i (held_by w i)"
    using si p s(4,6) by (simp_all add: slave_inv_def known_def holds_def rings_exist_def)
  then have "local_step B i w ((put_master s w)\<lparr>w_phase := (w_phase w)(i := w_phase w i)\<rparr>)"
    by (intro master_step [OF inv i o]) (use p s(5) in \<open>auto simp: held_by_def\<close>)
  then show ?thesis by (simp add: put_master_def)
qed

lemma assign_inv:
  assumes inv: "world_inv B w" and i: "i \<in> set (slave_lcores e)" and ph: "w_phase w i = Waiting"
    and p: "p < RTE_MAX_LCORE e" "free_cfg (w_master w) p"
    and s: "ipc_frame (w_master w) s" "ipc_ok pool que s" "ipc_buffers pool que s = ipc_buffers pool que (w_master w)"
      "rte_ring_lookup ops (dpdk s) = rte_ring_lookup ops (dpdk (w_master w))"
    and q: "msgs que s = (msgs que (w_master w))(G0 i := [cfg_msg p], G1 i := [])"
  shows "local_step B i w (put_master (assign_cfg i p s) w)"
proof -
  let ?m = "w_master w" and ?s = "assign_cfg i p s"
  have si: "slave_inv w i" and wf: "sys_wf e ?m" using inv i by (simp_all add: world_inv_def)
  have ri: "i < RTE_MAX_LCORE e" by (rule slave_range [OF i])
  note f = ipc_frame_private [OF s(1), of e] ipc_frame_tables [OF s(1)] ipc_frame_sel [OF s(1)]
  have qi: "msgs que s (G0 i) = [cfg_msg p]" "msgs que s (G1 i) = []" using q apart [OF i i] by simp_all
  have "only i ?m s" by (rule only_exchange [OF i s(1) wf s(2-4)]) (simp add: q)
  then have o: "only i ?m ?s"
    using f ri sys_wf_assign [of e s i p] wf unfolding only_def ipc_assign
    by (simp add: assign_cfg_def nth_list_update)
  have len: "i < length (lcore_resource s)" "p < length (proc_config s)" using wf f ri p(1) by (simp_all add: sys_wf_def)
  have "channels Waiting [cfg_msg p] []" using size p(1) by (auto intro!: exI [of _ p])
  then have "known ?s Waiting i"
    unfolding known_def ipc_assign qi rings_exist_def s(4)
    using si ph f len by (simp add: slave_inv_def known_def rings_exist_def ring_of_def assign_cfg_def del: channels.simps)
  moreover have h: "held Waiting (msgs que ?s (G0 i)) = Some p" using qi size p(1) by simp
  moreover have "holds ?s i (Some p)"
    using len p f by (simp add: holds_def assign_cfg_def free_cfg_def)
  moreover have "pc_used (proc_config ?s ! q) = 1" if "pc_used (proc_config ?m ! q) = 1" for q
    using that f len(2) by (cases "q = p") (simp_all add: assign_cfg_def)
  ultimately have "local_step B i w ((put_master ?s w)\<lparr>w_phase := (w_phase w)(i := Waiting)\<rparr>)"
    by (intro master_step [OF inv i o]) (use ph p(2) in \<open>auto simp: free_cfg_def\<close>)
  then show ?thesis using ph by (simp add: put_master_def fun_upd_idem)
qed

lemma poll_inv:
  assumes inv: "world_inv B w" and i: "i \<in> set (slave_lcores e)"
    and run: "poll_lcores ops e [i] c m (w_master w) = Some (c', m', s)"
  shows "local_step B i w (put_master s w) \<and> (msgs que (w_master w) (G1 i) = [] \<longrightarrow> msgs que s = msgs que (w_master w))"
proof -
  let ?m = "w_master w"
  have si: "slave_inv w i" and wf: "sys_wf e ?m" and ok: "ipc_ok pool que ?m"
    using inv i by (simp_all add: world_inv_def)
  have ri: "i < RTE_MAX_LCORE e" by (rule slave_range [OF i])
  have kn: "ring_of ?m i 0 = Some (G0 i)" "ring_of ?m i 1 = Some (G1 i)"
    "channels (w_phase w i) (msgs que ?m (G0 i)) (msgs que ?m (G1 i))" using si by (simp_all add: slave_inv_def known_def)
  obtain r m1 s1 where get: "get_cmd ops i m True ?m = Some (r, m1, s1)" "ipc_frame ?m s1" "ipc_ok pool que s1"
    "ipc_buffers pool que s1 = ipc_buffers pool que ?m"
    "r = 0 \<and> channel_received que ?m (ring_of ?m i 1) m1 s1 \<or> r < 0 \<and> m1 = m \<and> msgs que s1 = msgs que ?m"
    using get_cmd_spec [OF ok valid_slave_wf [OF wf ri], of m True] by auto
  note lk = get_cmd_lookup [OF get(1)]
  show ?thesis
  proof (cases "r = 0")
    case False
    then have "s = s1" "msgs que s1 = msgs que ?m" using run get(1,5) by auto
    then show ?thesis using master_exchange [OF inv i get(2-4) lk] kn(3) by simp
  next
    case True
    then obtain rest where r: "msgs que ?m (G1 i) = m1 # rest" "msgs que s1 = (msgs que ?m)(G1 i := rest)"
      using get(5) kn(2) by (auto simp: channel_received_def)
    then have w: "w_phase w i = Waiting" "m1 = cfg_request" "rest = []" "msgs que ?m (G0 i) = []"
      using kn(3) by (cases "w_phase w i"; auto)+
    have wf1: "sys_wf e s1" using ipc_frame_private [OF get(2), of e] wf by simp
    obtain v s2 where s2: "main_set_lcore_cfg ops e i s1 = Some (v, s2)" "ipc_ok pool que s2"
      "ipc_buffers pool que s2 = ipc_buffers pool que s1"
      "v = - 1 \<and> ipc_frame s1 s2 \<and> msgs que s2 = msgs que s1 \<or>
       (\<exists>p s3. v = 0 \<and> p < RTE_MAX_LCORE e \<and> free_cfg s1 p \<and> ipc_frame s1 s3 \<and> s2 = assign_cfg i p s3 \<and>
          channel_sent que s1 (ring_of s1 i 0) (cfg_msg p) s3)"
      by (rule main_set_lcore_cfg_spec [OF get(3) wf1 ri])
    note lk2 = trans [OF set_lcore_cfg_lookup [OF wf1 ri s2(1)] lk]
    have "s = s2" using run get(1) True w(2) s2(1) by (simp add: cfg_request_def)
    moreover have "local_step B i w (put_master s2 w)" if "v = - 1 \<and> ipc_frame s1 s2 \<and> msgs que s2 = msgs que s1"
      using master_exchange [OF inv i ipc_frame_trans [OF get(2)] s2(2) _ lk2] that s2(3) get(4) r w apart [OF i i]
      by simp
    moreover have "local_step B i w (put_master s2 w)" if "p < RTE_MAX_LCORE e" "free_cfg s1 p" "ipc_frame s1 s3"
      "s2 = assign_cfg i p s3" "channel_sent que s1 (ring_of s1 i 0) (cfg_msg p) s3" for p s3
      using assign_inv [OF inv i w(1) that(1) _ ipc_frame_trans [OF get(2) that(3)]] that s2(2,3) get(4) lk2 r(2) w
        kn(1) ipc_frame_private [OF get(2)] ipc_frame_sel [OF get(2)] apart [OF i i]
      by (simp add: channel_sent_def fun_upd_twist)
    ultimately show ?thesis using s2(4) r(1) by auto
  qed
qed

lemma reaped_inv:
  assumes inv: "world_inv B w" and i: "i \<in> set (slave_lcores e)" and ph: "w_phase w i = Left p"
    and run: "slave_exit_cb i stat (w_master w) = Some s"
  shows "local_step B i w ((put_master s w)\<lparr>w_phase := (w_phase w)(i := Ended)\<rparr>)"
proof -
  let ?m = "w_master w"
  have si: "slave_inv w i" and wf: "sys_wf e ?m" and ok: "ipc_ok pool que ?m"
    using inv i by (simp_all add: world_inv_def)
  have ri: "i < RTE_MAX_LCORE e" by (rule slave_range [OF i])
  have h: "held_by w i = Some p" using ph by (simp add: held_by_def)
  then have p: "p < RTE_MAX_LCORE e" "lr_config_id (lcore_resource ?m ! i) = p" "lr_enabled (lcore_resource ?m ! i) = 1"
    using si by (simp_all add: slave_inv_def holds_def known_def)
  obtain fl where s: "s = ?m\<lparr>proc_config := (proc_config ?m)[p := (proc_config ?m ! p)\<lparr>pc_used := 0\<rparr>],
      lcore_resource := (lcore_resource ?m)[i := (lcore_resource ?m ! i)\<lparr>lr_flags := fl\<rparr>]\<rparr>"
    using slave_exit_cb_eq [of i ?m p stat] run p wf ri by (auto simp: sys_wf_def)
  have same: "ipc_ok pool que s = ipc_ok pool que ?m" "ipc_buffers pool que s = ipc_buffers pool que ?m"
    "msgs que s = msgs que ?m" "rings_exist ops s = rings_exist ops ?m"
    by (rule ipc_same; simp add: s)+
  have len: "i < length (lcore_resource ?m)" using wf ri by (simp add: sys_wf_def)
  have "sys_wf e s"
    unfolding s using sys_wf_resource [OF wf, of "(lcore_resource ?m ! i)\<lparr>lr_flags := fl\<rparr>" i] wf ri
    by (simp add: sys_wf_def)
  then have o: "only i ?m s" unfolding only_def same using ok by (simp add: s nth_list_update)
  have "known s Ended i"
    unfolding known_def same using si ph len by (simp add: slave_inv_def known_def s ring_of_def)
  then show ?thesis
    by (intro master_step [OF inv i o]) (use ph h in \<open>auto simp: s holds_def nth_list_update\<close>)
qed

lemma restart_inv:
  assumes inv: "world_inv B w" and i: "i \<in> set (slave_lcores e)" and ph: "w_phase w i = Ended"
    and run: "reset_lcore ops e n (lr_lcore_id (lcore_resource (w_master w) ! i)) (w_master w) = Some (Return 0, s)"
  shows "local_step B i w ((put_master s w)\<lparr>w_own := (w_own w)(i := s), w_phase := (w_phase w)(i := Forked)\<rparr>)"
    (is "local_step B i w ?w")
proof -
  let ?m = "w_master w"
  have si: "slave_inv w i" and wf: "sys_wf e ?m" and ok: "ipc_ok pool que ?m" and fl: "float_proc (main_information ?m) \<noteq> 0"
    using inv i by (simp_all add: world_inv_def)
  have ri: "i < RTE_MAX_LCORE e" by (rule slave_range [OF i])
  have kn: "lr_lcore_id (lcore_resource ?m ! i) = i" "lr_enabled (lcore_resource ?m ! i) = 1"
    "rings_exist ops ?m i (G0 i) (G1 i)" "msgs que ?m (G0 i) = []" "msgs que ?m (G1 i) = []"
    "mapping_id ?m ! i = INVALID_MAPPING_ID"
    using si ph by (simp_all add: slave_inv_def known_def)
  obtain d mm c where s: "s = ?m\<lparr>dpdk := d, msg_mem := mm, core_cfg := c, lcore_resource :=
      (lcore_resource ?m)[i := (attached i (G0 i) (G1 i) (lcore_resource ?m ! i))\<lparr>lr_flags := 0\<rparr>]\<rparr>"
    "length c = length (core_cfg ?m)" "rte_ring_lookup ops d = rte_ring_lookup ops (dpdk ?m)" "ipc_ok pool que s"
    "msgs que s = msgs que ?m" "ipc_buffers pool que s = ipc_buffers pool que ?m"
    using reset_lcore_clean [OF ok wf ri kn(2,3) apart [OF i i] kn(4-6), of n s] run kn(1) by auto
  have len: "i < length (lcore_resource ?m)" using wf ri by (simp add: sys_wf_def)
  have wf': "sys_wf e s"
    unfolding s(1) using sys_wf_update [OF wf s(2), where d = d and i = i
      and r = "(attached i (G0 i) (G1 i) (lcore_resource ?m ! i))\<lparr>lr_flags := 0\<rparr>"]
    by (simp add: attached_def sys_wf_def)
  have o: "only i ?m s" unfolding only_def s(5,6) using wf' s(4) by (simp add: s(1,3))
  have ring: "ring_of s i 0 = Some (G0 i)" "ring_of s i 1 = Some (G1 i)"
    using len by (simp_all add: s(1) ring_of_def attached_def)
  then have "own_ok s i i" using wf' fl ri by (simp add: own_ok_def) (simp add: s(1))
  moreover have "known s Forked i"
    unfolding known_def s(5) using ring kn len by (simp add: rings_exist_def s(1,3) attached_def)
  ultimately have self: "slave_inv ?w i"
    by (simp add: slave_inv_def holds_def held_by_def put_master_def place_def)
  show ?thesis
    by (rule world_inv_step [OF inv i _ _ _ _ self]) (use o ph in \<open>auto simp: put_master_def held_by_def s(1)\<close>)
qed

text \<open>A slave that waits with both of its rings empty waits on.\<close>

definition stuck :: "'a world \<Rightarrow> nat \<Rightarrow> bool" where
  "stuck w i \<longleftrightarrow> w_phase w i = Waiting \<and> msgs que (w_master w) (G0 i) = [] \<and> msgs que (w_master w) (G1 i) = []"

lemma step_local:
  assumes "proc_step ops e n w w'" "world_inv B w"
  obtains i where "i \<in> set (slave_lcores e)" "local_step B i w w'" "stuck w i \<Longrightarrow> stuck w' i"
  using assms(1)
proof (cases rule: proc_step.cases)
  case (enter i k s)
  then show ?thesis using enter_inv [OF assms(2), of i k s] by (intro that [of i]) (simp_all add: stuck_def)
next
  case (request i r s)
  then show ?thesis using request_inv [OF assms(2), of i r s] by (intro that [of i]) (simp_all add: stuck_def)
next
  case (poll i c m c' m' s)
  then show ?thesis using poll_inv [OF assms(2) poll(2,3)] by (intro that [of i]) (simp_all add: stuck_def put_master_def)
next
  case (nothing i m r m' s)
  then show ?thesis using answer_inv(1) [OF assms(2), of i m r m' s]
    by (intro that [of i]) (simp_all add: stuck_def put_view_def)
next
  case (answer i m m' s)
  then show ?thesis using answer_inv(2) [OF assms(2), of i m 0 m' s]
    by (intro that [of i]) (simp_all add: stuck_def config_of_def)
next
  case (leave i p r s)
  then show ?thesis using leave_inv [OF assms(2), of i p r s] by (intro that [of i]) (simp_all add: stuck_def)
next
  case (reaped i p st s)
  then show ?thesis using reaped_inv [OF assms(2), of i p st s] by (intro that [of i]) (simp_all add: stuck_def)
next
  case (restart i s)
  then show ?thesis using restart_inv [OF assms(2), of i n s] by (intro that [of i]) (simp_all add: stuck_def)
qed

lemma reachable_inv: "(proc_step ops e n)\<^sup>*\<^sup>* w w' \<Longrightarrow> world_inv B w \<Longrightarrow> world_inv B w'"
  by (induction rule: rtranclp_induct) (auto elim!: step_local simp: local_step_def)

lemma step_stuck:
  assumes "proc_step ops e n w w'" "world_inv B w" "i \<in> set (slave_lcores e)" "stuck w i"
  shows "stuck w' i"
proof -
  obtain j where "j \<in> set (slave_lcores e)" "local_step B j w w'" "stuck w j \<Longrightarrow> stuck w' j"
    using step_local [OF assms(1,2)] by blast
  then show ?thesis using assms(3,4) by (cases "i = j") (auto simp: local_step_def only_def stuck_def)
qed

lemma reachable_stuck:
  assumes "(proc_step ops e n)\<^sup>*\<^sup>* w w'" "world_inv B w" "i \<in> set (slave_lcores e)" "stuck w i"
  shows "stuck w' i"
  using assms(1)
proof (induction rule: rtranclp_induct)
  case base
  then show ?case by (rule assms(4))
next
  case (step w1 w2)
  then show ?case using step_stuck [of n w1 w2 B i] reachable_inv [OF step.hyps(1) assms(2)] assms(3) by blast
qed

text \<open>A request that the master reads while no configuration is free is lost.\<close>

lemma poll_unserved:
  assumes inv: "world_inv B w" and i: "i \<in> set (slave_lcores e)" and ph: "w_phase w i = Waiting"
    and q: "msgs que (w_master w) (G1 i) = [cfg_request]" and full: "\<forall>p<RTE_MAX_LCORE e. \<not> free_cfg (w_master w) p"
    and run: "poll_lcores ops e [i] c m (w_master w) = Some (c', m', s)"
  shows "world_inv B (put_master s w)" "stuck (put_master s w) i"
proof -
  let ?m = "w_master w"
  show "world_inv B (put_master s w)" using poll_inv [OF inv i run] by (simp add: local_step_def)
  have si: "slave_inv w i" and wf: "sys_wf e ?m" and ok: "ipc_ok pool que ?m"
    using inv i by (simp_all add: world_inv_def)
  have ri: "i < RTE_MAX_LCORE e" by (rule slave_range [OF i])
  have kn: "ring_of ?m i 1 = Some (G1 i)" "lr_enabled (lcore_resource ?m ! i) = 1" "msgs que ?m (G0 i) = []"
    using si ph q by (simp_all add: slave_inv_def known_def)
  have v: "valid_slave ?m i" by (rule valid_slave_wf [OF wf ri])
  obtain r m1 s1 where get: "get_cmd ops i m True ?m = Some (r, m1, s1)" "ipc_frame ?m s1"
    "r = 0 \<and> channel_received que ?m (ring_of ?m i 1) m1 s1 \<or> r < 0 \<and> m1 = m \<and> msgs que s1 = msgs que ?m"
    using get_cmd_spec [OF ok v, of m True] by auto
  have "r = 0" using get_cmd_empty [OF v, of True "G1 i", OF _ _ get(1)] kn q by auto
  then have r: "m1 = cfg_request" "msgs que s1 = (msgs que ?m)(G1 i := [])"
    using get(3) kn(1) q by (auto simp: channel_received_def)
  have f: "free_cfg s1 = free_cfg ?m" "sys_wf e s1" using ipc_frame_private [OF get(2), of e] wf by simp_all
  have "find (free_cfg s1) [0..<RTE_MAX_LCORE e] = None" using full by (simp add: f find_None_iff)
  then have "main_set_lcore_cfg ops e i s1 = Some (- 1, s1)"
    using f(2) ri by (simp add: main_set_lcore_cfg_def set_cfg_loop_find sys_wf_def)
  then have "s = s1" using run get(1) \<open>r = 0\<close> r(1) by (simp add: cfg_request_def)
  then show "stuck (put_master s w) i" using ph r(2) kn(3) by (simp add: stuck_def put_master_def)
qed

end

end
