(* ===== verification/Process_Properties.thy ===== *)
theory Process_Properties
  imports Process_Invariant Master_Loop
begin

text \<open>
  The setup of the master prepares the system of processes, and what holds in all states it reaches.
\<close>

section \<open>The start\<close>

text \<open>
  What the master has prepared when it forks its slaves: their resources, registered and empty rings and no
  core number. Every slave starts with a copy of the master's variables.
\<close>

definition prepared ::
  "'d dpdk_ops \<Rightarrow> ('d \<Rightarrow> ring_ptr \<Rightarrow> msg_ptr list) \<Rightarrow> (nat \<Rightarrow> ring_ptr) \<Rightarrow> (nat \<Rightarrow> ring_ptr) \<Rightarrow> 'd sys \<Rightarrow> nat \<Rightarrow> bool" where
  "prepared ops que G0 G1 s i \<longleftrightarrow>
     lr_enabled (lcore_resource s ! i) = 1 \<and> lr_lcore_id (lcore_resource s ! i) = i \<and>
     ring_of s i 0 = Some (G0 i) \<and> ring_of s i 1 = Some (G1 i) \<and> rings_exist ops s i (G0 i) (G1 i) \<and>
     msgs que s (G0 i) = [] \<and> msgs que s (G1 i) = [] \<and> mapping_id s ! i = INVALID_MAPPING_ID"

definition booted ::
  "'d dpdk_ops \<Rightarrow> ('d \<Rightarrow> msg_ptr multiset) \<Rightarrow> ('d \<Rightarrow> ring_ptr \<Rightarrow> msg_ptr list) \<Rightarrow> eal \<Rightarrow>
   (nat \<Rightarrow> ring_ptr) \<Rightarrow> (nat \<Rightarrow> ring_ptr) \<Rightarrow> 'd sys \<Rightarrow> bool" where
  "booted ops pool que e G0 G1 s \<longleftrightarrow> sys_wf e s \<and> ipc_ok pool que s \<and>
     float_proc (main_information s) \<noteq> 0 \<and> (\<forall>i\<in>set (slave_lcores e). prepared ops que G0 G1 s i)"

definition boot_world :: "'d sys \<Rightarrow> 'd world" where
  "boot_world s = \<lparr>w_master = s, w_own = \<lambda>_. s, w_num = \<lambda>_. 0, w_phase = \<lambda>_. Forked\<rparr>"

context slave_system
begin

lemma boot_inv: "booted ops pool que e G0 G1 s \<Longrightarrow> world_inv (ipc_buffers pool que s) (boot_world s)"
  by (auto simp: booted_def prepared_def boot_world_def world_inv_def slave_inv_def known_def own_ok_def holds_def
      held_by_def place_def slave_range)

lemma booted_inv:
  "booted ops pool que e G0 G1 s \<Longrightarrow> (proc_step ops e n)\<^sup>*\<^sup>* (boot_world s) w \<Longrightarrow>
     world_inv (ipc_buffers pool que s) w"
  by (rule reachable_inv [OF _ boot_inv])

end

section \<open>What the setup prepares\<close>

text \<open>The rings registered for a slave.\<close>

definition m2s_ring :: "'d dpdk_ops \<Rightarrow> 'd sys \<Rightarrow> nat \<Rightarrow> ring_ptr" where
  "m2s_ring ops s i = the (rte_ring_lookup ops (dpdk s) (ring_name_of RING_MASTER_NAME i))"

definition s2m_ring :: "'d dpdk_ops \<Rightarrow> 'd sys \<Rightarrow> nat \<Rightarrow> ring_ptr" where
  "s2m_ring ops s i = the (rte_ring_lookup ops (dpdk s) (ring_name_of RING_SLAVE_NAME i))"

context ring_registry
begin

text \<open>Every registered ring has one name and is empty, and every buffer has one owner.\<close>

definition tidy :: "'a \<Rightarrow> bool" where
  "tidy d \<longleftrightarrow> owned (pool d) (que d) \<and> (\<forall>a r. rte_ring_lookup ops d a = Some r \<longrightarrow>
     que d r = [] \<and> (\<forall>b. rte_ring_lookup ops d b = Some r \<longrightarrow> b = a))"

definition extends :: "'a \<Rightarrow> 'a \<Rightarrow> bool" where
  "extends d d' \<longleftrightarrow> (\<forall>a r. rte_ring_lookup ops d a = Some r \<longrightarrow> rte_ring_lookup ops d' a = Some r) \<and>
     buffers (pool d') (que d') \<subseteq> buffers (pool d) (que d)"

lemma extends_refl [simp]: "extends d d"
  by (simp add: extends_def)

lemma extends_trans: "extends d d' \<Longrightarrow> extends d' d'' \<Longrightarrow> extends d d''"
  unfolding extends_def by blast

lemma create_ring_tidy:
  assumes "tidy d" "create_ring ops (Some nm) c d = (Some r, d')"
  shows "tidy d'" "rte_ring_lookup ops d' nm = Some r" "extends d d'"
proof -
  have "tidy d' \<and> rte_ring_lookup ops d' nm = Some r \<and> extends d d'"
  proof (cases "rte_ring_lookup ops d nm")
    case (Some q)
    then show ?thesis using assms by (simp add: create_ring_def extends_def)
  next
    case None
    then have c: "rte_ring_lookup ops d' = (rte_ring_lookup ops d)(nm \<mapsto> r)" "\<forall>x. rte_ring_lookup ops d x \<noteq> Some r"
      "pool d' = pool d" "que d' = (que d)(r := [])"
      using assms(2) create [of d nm c r d'] by (simp_all add: create_ring_def)
    have "owned (pool d) ((que d)(r := []))" using assms(1) by (simp add: tidy_def owned_def)
    moreover have "buffers (pool d) ((que d)(r := [])) \<subseteq> buffers (pool d) (que d)"
      by (auto simp: buffers_def split: if_splits)
    ultimately show ?thesis using assms(1) c None by (auto simp: tidy_def extends_def)
  qed
  then show "tidy d'" "rte_ring_lookup ops d' nm = Some r" "extends d d'" by blast+
qed

lemma create_one_ring_tidy:
  assumes "create_one_ring ops i fd pre s = Some (True, s')" "complete_res s i" "tidy (dpdk s)"
  obtains r nm d where "length nm = 2" "tidy d" "extends (dpdk s) d" "rte_ring_lookup ops d (ring_name_of pre i) = Some r"
    "s' = s\<lparr>dpdk := d, lcore_resource := (lcore_resource s)[i := (lcore_resource s ! i)
       \<lparr>lr_ring_name := nm, lr_ring := (lr_ring (lcore_resource s ! i))[fd := Some r]\<rparr>]\<rparr>"
proof -
  obtain x d where c: "create_ring ops (Some (ring_name_of pre i)) IPC_NB_MSGBUF (dpdk s) = (x, d)" by fastforce
  then obtain r where r: "x = Some r"
    using assms(1) by (auto simp: create_one_ring_def run_convs)
  show ?thesis
    using assms(1,2) c r create_ring_tidy [OF assms(3) c [unfolded r]]
      that [of "(lr_ring_name (lcore_resource s ! i))[fd := ring_name_of pre i]" d r]
    by (auto simp: create_one_ring_def run_convs complete_res_def arr_get_def arr_set_def
        set_lcore_res_def split: if_split_asm)
qed

lemma create_ms_ring_tidy:
  assumes "create_ms_ring ops i s = Some (0, s')" "complete_res s i" "tidy (dpdk s)"
  obtains g0 g1 nm d where "length nm = 2" "tidy d" "extends (dpdk s) d"
    "rte_ring_lookup ops d (ring_name_of RING_MASTER_NAME i) = Some g0"
    "rte_ring_lookup ops d (ring_name_of RING_SLAVE_NAME i) = Some g1"
    "s' = s\<lparr>dpdk := d, lcore_resource := (lcore_resource s)[i := (lcore_resource s ! i)
       \<lparr>lr_ring_name := nm, lr_ring := [Some g0, Some g1]\<rparr>]\<rparr>"
proof -
  obtain s1 where s1: "create_one_ring ops i 0 RING_MASTER_NAME s = Some (True, s1)"
    "create_one_ring ops i 1 RING_SLAVE_NAME s1 = Some (True, s')"
    using assms(1) by (auto simp: create_ms_ring_def run_convs)
  obtain g0 nm0 d0 where r0: "length nm0 = 2" "tidy d0" "extends (dpdk s) d0"
    "rte_ring_lookup ops d0 (ring_name_of RING_MASTER_NAME i) = Some g0"
    "s1 = s\<lparr>dpdk := d0, lcore_resource := (lcore_resource s)[i := (lcore_resource s ! i)
       \<lparr>lr_ring_name := nm0, lr_ring := (lr_ring (lcore_resource s ! i))[0 := Some g0]\<rparr>]\<rparr>"
    by (rule create_one_ring_tidy [OF s1(1) assms(2,3)])
  have "complete_res s1 i" "tidy (dpdk s1)" using r0 assms(2) by (simp_all add: complete_res_def)
  then obtain g1 nm1 d1 where r1: "length nm1 = 2" "tidy d1" "extends (dpdk s1) d1"
    "rte_ring_lookup ops d1 (ring_name_of RING_SLAVE_NAME i) = Some g1"
    "s' = s1\<lparr>dpdk := d1, lcore_resource := (lcore_resource s1)[i := (lcore_resource s1 ! i)
       \<lparr>lr_ring_name := nm1, lr_ring := (lr_ring (lcore_resource s1 ! i))[1 := Some g1]\<rparr>]\<rparr>"
    by (rule create_one_ring_tidy [OF s1(2)])
  obtain a b where "lr_ring (lcore_resource s ! i) = [a, b]"
    using assms(2) by (auto simp: complete_res_def length_2)
  then show ?thesis
    using r0 r1 assms(2) by (intro that [of nm1 d1 g0 g1]) (auto simp: complete_res_def extends_def)
qed

text \<open>A slave is connected when its resource points to its registered rings.\<close>

definition connected :: "'a sys \<Rightarrow> nat \<Rightarrow> bool" where
  "connected s i \<longleftrightarrow> (\<exists>g0 g1. lr_ring (lcore_resource s ! i) = [Some g0, Some g1] \<and> rings_exist ops s i g0 g1)"

lemma create_rings_tidy:
  assumes "create_rings ops e ids s = Some (Return (), s')" "sys_wf e s" "\<forall>i\<in>set ids. i < RTE_MAX_LCORE e" "tidy (dpdk s)"
  shows "tidy (dpdk s') \<and> extends (dpdk s) (dpdk s') \<and> main_information s' = main_information s \<and>
    sys_statistics s' = sys_statistics s \<and>
    (\<forall>i. lr_lcore_id (lcore_resource s' ! i) = lr_lcore_id (lcore_resource s ! i) \<and>
       lr_flags (lcore_resource s' ! i) = lr_flags (lcore_resource s ! i) \<and>
       lr_config_id (lcore_resource s' ! i) = lr_config_id (lcore_resource s ! i)) \<and>
    (\<forall>i. connected s i \<or> i \<in> set ids \<and> lr_enabled (lcore_resource s ! i) \<noteq> 0 \<longrightarrow> connected s' i)"
  using assms
proof (induction ids arbitrary: s)
  case Nil
  then show ?case by simp
next
  case (Cons i ids)
  have i: "i < length (lcore_resource s)" "i < length (core_cfg s)"
    using Cons.prems(2,3) by (simp_all add: sys_wf_def)
  show ?case
  proof (cases "lr_enabled (lcore_resource s ! i) = 0")
    case True
    then have "create_rings ops e ids s = Some (Return (), s')" using Cons.prems(1) i by (simp add: arr_get_def)
    from Cons.IH [OF this] Cons.prems(2-4) True show ?thesis by auto
  next
    case False
    obtain s1 s2 where s1: "create_ms_ring ops i s = Some (0, s1)"
      "flib_register_slave_exit_notify e i (Some fn_slave_exit_cb) s1 = Some (0, s2)"
      "create_rings ops e ids s2 = Some (Return (), s')"
      using Cons.prems(1) False i by (auto simp: arr_get_def run_convs)
    obtain g0 g1 nm d where r: "length nm = 2" "tidy d" "extends (dpdk s) d"
      "rte_ring_lookup ops d (ring_name_of RING_MASTER_NAME i) = Some g0"
      "rte_ring_lookup ops d (ring_name_of RING_SLAVE_NAME i) = Some g1"
      "s1 = s\<lparr>dpdk := d, lcore_resource := (lcore_resource s)
        [i := (lcore_resource s ! i)\<lparr>lr_ring_name := nm, lr_ring := [Some g0, Some g1]\<rparr>]\<rparr>"
      by (rule create_ms_ring_tidy [OF s1(1) complete_res_wf [OF Cons.prems(2)] Cons.prems(4)])
        (use Cons.prems(3) in simp)
    have s2: "s2 = s\<lparr>dpdk := d, lcore_resource := (lcore_resource s)
        [i := (lcore_resource s ! i)\<lparr>lr_ring_name := nm, lr_ring := [Some g0, Some g1]\<rparr>],
        core_cfg := (core_cfg s)[i := (core_cfg s ! i)\<lparr>ls_cb_fn := Some fn_slave_exit_cb\<rparr>]\<rparr>"
      using s1(2) i r
      by (auto simp: flib_register_slave_exit_notify_def upd_core_def arr_get_def arr_set_def run_convs ENOENT_def)
    have wf: "sys_wf e s2" unfolding s2 by (rule sys_wf_update [OF Cons.prems(2)]) (use r in simp_all)
    have same: "lr_enabled (lcore_resource s2 ! j) = lr_enabled (lcore_resource s ! j)"
      "lr_lcore_id (lcore_resource s2 ! j) = lr_lcore_id (lcore_resource s ! j)"
      "lr_flags (lcore_resource s2 ! j) = lr_flags (lcore_resource s ! j)"
      "lr_config_id (lcore_resource s2 ! j) = lr_config_id (lcore_resource s ! j)" for j
      using i s2 by (cases "j = i"; simp)+
    have con: "connected s j \<or> j = i \<Longrightarrow> connected s2 j" for j
      using i r by (cases "j = i") (auto simp: s2 connected_def rings_exist_def extends_def)
    have "tidy (dpdk s2)" "main_information s2 = main_information s" "sys_statistics s2 = sys_statistics s"
      "extends (dpdk s) (dpdk s2)" using r(2,3) by (simp_all add: s2)
    then show ?thesis using Cons.IH [OF s1(3) wf] Cons.prems(3) same con by (auto intro: extends_trans)
  qed
qed

text \<open>The launch that follows touches neither the rings nor the resources.\<close>

lemma main_launch_tidy:
  assumes "main_launch ops me e s = Some (Return (), s')" "sys_wf e s" "tidy (dpdk s)"
  shows "tidy (dpdk s') \<and> extends (dpdk s) (dpdk s') \<and> sys_statistics s' = sys_statistics s \<and>
    proc_config_nb (main_information s') = proc_config_nb (main_information s) \<and>
    (\<forall>i. lr_lcore_id (lcore_resource s' ! i) = lr_lcore_id (lcore_resource s ! i) \<and>
       lr_flags (lcore_resource s' ! i) = lr_flags (lcore_resource s ! i) \<and>
       lr_config_id (lcore_resource s' ! i) = lr_config_id (lcore_resource s ! i)) \<and>
    (\<forall>i<RTE_MAX_LCORE e. lr_enabled (lcore_resource s ! i) \<noteq> 0 \<longrightarrow> connected s' i)"
proof -
  obtain s1 x where s1: "create_rings ops e [0..<RTE_MAX_LCORE e] s = Some (Return (), s1)"
    "flib_mp_remote_launch ops e (Some fn_bridge_launch_one_lcore) 0 (s1\<lparr>main_information :=
       (main_information s1)\<lparr>main_id := rte_lcore_id me, float_proc := 1\<rparr>\<rparr>) = Some (x, s')"
    using assms(1) by (auto simp: main_launch_def run_convs Let_def)
  have "\<forall>i\<in>set [0..<RTE_MAX_LCORE e]. i < RTE_MAX_LCORE e" by simp
  note t = create_rings_tidy [OF s1(1) assms(2) this assms(3)] and w = create_rings_spec [OF s1(1) assms(2) this]
  define s2 where "s2 = s1\<lparr>main_information := (main_information s1)\<lparr>main_id := rte_lcore_id me, float_proc := 1\<rparr>\<rparr>"
  have "\<forall>i\<in>set (slave_lcores e). i < length (core_cfg s2)" using w by (auto simp: slave_lcores_def s2_def sys_wf_def)
  from set_launch_spec [OF this, of "Some fn_bridge_launch_one_lcore" 0] obtain cc where
    "set_launch (Some fn_bridge_launch_one_lcore) 0 (slave_lcores e) s2 = Some (s2\<lparr>core_cfg := cc\<rparr>)" by blast
  then obtain d where d: "rte_eal_mp_remote_launch ops (dpdk s2) = (x, d)" "s' = s2\<lparr>core_cfg := cc, dpdk := d\<rparr>"
    using s1(2) unfolding s2_def [symmetric] by (auto simp: flib_mp_remote_launch_def split: prod.split_asm)
  have "tidy (dpdk s')" "connected s' i \<longleftrightarrow> connected s1 i" "lcore_resource s' = lcore_resource s1"
    "extends (dpdk s1) (dpdk s')" "sys_statistics s' = sys_statistics s1"
    "proc_config_nb (main_information s') = proc_config_nb (main_information s1)" for i
    using t mp_remote_launch [OF d(1)] by (simp_all add: d(2) s2_def tidy_def connected_def rings_exist_def extends_def)
  then show ?thesis using t extends_trans [of "dpdk s" "dpdk s1"] by simp
qed

lemma connected_rings:
  assumes "connected s i"
  shows "ring_of s i 0 = Some (m2s_ring ops s i)" "ring_of s i 1 = Some (s2m_ring ops s i)"
    "rings_exist ops s i (m2s_ring ops s i) (s2m_ring ops s i)"
  using assms by (auto simp: connected_def ring_of_def rings_exist_def m2s_ring_def s2m_ring_def)

lemma tidy_system:
  assumes "tidy (dpdk s)" "\<forall>i\<in>set (slave_lcores e). connected s i" "RTE_MAX_LCORE e \<le> 256"
  shows "slave_system ops pool que e (m2s_ring ops s) (s2m_ring ops s)"
proof -
  have lt: "i < 10 ^ 9" if "i \<in> set (slave_lcores e)" for i using that assms(3) by (simp add: slave_lcores_def)
  have lk: "rte_ring_lookup ops (dpdk s) (ring_name_of RING_MASTER_NAME i) = Some (m2s_ring ops s i)"
    "rte_ring_lookup ops (dpdk s) (ring_name_of RING_SLAVE_NAME i) = Some (s2m_ring ops s i)"
    if "i \<in> set (slave_lcores e)" for i
    using connected_rings(3) [of s i] assms(2) that by (simp_all add: rings_exist_def)
  have one: "a = b" if "rte_ring_lookup ops (dpdk s) a = Some r" "rte_ring_lookup ops (dpdk s) b = Some r" for a b r
    using assms(1) that unfolding tidy_def by blast
  show ?thesis
  proof
    show "inj_on (m2s_ring ops s) (set (slave_lcores e))" "inj_on (s2m_ring ops s) (set (slave_lcores e))"
      using one lk ring_names_differ(2,3) lt by (auto intro!: inj_onI) metis+
    show "m2s_ring ops s i \<noteq> s2m_ring ops s j" if "i \<in> set (slave_lcores e)" "j \<in> set (slave_lcores e)" for i j
      using one lk that ring_names_differ(1) [OF lt lt] by metis
  qed (use assms(3) in simp)
qed

end

lemma setup_system:
  assumes "ring_registry ops pool que" "main_setup ops me e m = Some (Return (), m')"
    "length (proc_config (common m)) = RTE_MAX_LCORE e" "RTE_MAX_LCORE e \<le> 256"
    "owned (pool (dpdk (common m))) (que (dpdk (common m)))" "\<And>nm. rte_ring_lookup ops (dpdk (common m)) nm = None"
  shows "slave_system ops pool que e (m2s_ring ops (common m')) (s2m_ring ops (common m')) \<and>
    booted ops pool que e (m2s_ring ops (common m')) (s2m_ring ops (common m')) (common m') \<and>
    ipc_buffers pool que (common m') \<subseteq> buffers (pool (dpdk (common m))) (que (dpdk (common m))) \<and>
    length (sys_statistics (common m')) = nat (proc_config_nb (main_information (common m'))) \<and>
    (\<forall>i<RTE_MAX_LCORE e. lr_flags (lcore_resource (common m') ! i) = 0 \<and> lr_config_id (lcore_resource (common m') ! i) = 0)"
proof -
  let ?s = "common m'"
  obtain s where s: "main_launch ops me e s = Some (Return (), ?s)" "sys_wf e s" "dpdk s = dpdk (common m)"
    "lcore_resource s = map (\<lambda>i. if i \<in> set (slave_lcores e) then (zero_resource i)\<lparr>lr_enabled := 1\<rparr>
       else zero_resource i) [0..<RTE_MAX_LCORE e]" "length (sys_statistics s) = nat (proc_config_nb (main_information s))"
    by (rule main_setup_launch [OF assms(2,3)])
  have "ring_registry.tidy ops pool que (dpdk s)" using assms(5,6) s(3) by (simp add: ring_registry.tidy_def [OF assms(1)])
  note t = ring_registry.main_launch_tidy [OF assms(1) s(1,2) this] and r = main_setup_tables [OF assms(2,3)]
  have con: "ring_registry.connected ops ?s i" "i < RTE_MAX_LCORE e" "lr_lcore_id (lcore_resource ?s ! i) = i"
    if "i \<in> set (slave_lcores e)" for i
    using t that s(4) by (simp_all add: slave_lcores_def zero_resource_def)
  have "prepared ops que (m2s_ring ops ?s) (s2m_ring ops ?s) ?s i" if i: "i \<in> set (slave_lcores e)" for i
  proof -
    note c = ring_registry.connected_rings [OF assms(1) con(1) [OF i]]
    have "que (dpdk ?s) (m2s_ring ops ?s i) = []" "que (dpdk ?s) (s2m_ring ops ?s i) = []"
      using t c(3) by (auto simp: ring_registry.tidy_def [OF assms(1)] rings_exist_def)
    then show ?thesis using c con(2,3) [OF i] r i by (simp add: prepared_def msgs_def)
  qed
  moreover have "ipc_ok pool que ?s" using t by (simp add: ipc_ok_def ring_registry.tidy_def [OF assms(1)])
  moreover have "slave_system ops pool que e (m2s_ring ops ?s) (s2m_ring ops ?s)"
    by (rule ring_registry.tidy_system [OF assms(1)]) (use t con assms(4) in auto)
  moreover have "ipc_buffers pool que ?s \<subseteq> buffers (pool (dpdk (common m))) (que (dpdk (common m)))"
    using t s(3) by (simp add: ipc_buffers_def ring_registry.extends_def [OF assms(1)])
  moreover have "lr_flags (lcore_resource ?s ! i) = 0 \<and> lr_config_id (lcore_resource ?s ! i) = 0" if "i < RTE_MAX_LCORE e" for i
    using t that s(4) by (simp add: zero_resource_def)
  ultimately show ?thesis using r t s(5) by (simp add: booted_def)
qed

text \<open>So the loop starts in a state that keeps its invariant.\<close>

lemma setup_loop_ok:
  assumes "ring_registry ops pool que" "main_setup ops me e m = Some (Return (), m')"
    "length (proc_config (common m)) = RTE_MAX_LCORE e" "RTE_MAX_LCORE e \<le> 256"
    "owned (pool (dpdk (common m))) (que (dpdk (common m)))" "\<And>nm. rte_ring_lookup ops (dpdk (common m)) nm = None"
    "finite (buffers (pool (dpdk (common m))) (que (dpdk (common m))))"
    "card (buffers (pool (dpdk (common m))) (que (dpdk (common m)))) < n"
    "proc_config_nb (main_information (common m')) \<le> int (RTE_MAX_LCORE e)"
    "unat (mi_port_nb (main_information (common m'))) \<le> 31"
  shows "loop_ok ops pool que e n (common m')"
proof -
  let ?s = "common m'" and ?B = "buffers (pool (dpdk (common m))) (que (dpdk (common m)))"
  note y = setup_system [OF assms(1-6)] and r = main_setup_tables [OF assms(2,3)]
  have b: "finite (ipc_buffers pool que ?s)" "card (ipc_buffers pool que ?s) < n"
    using y assms(7,8) card_mono [OF assms(7), of "ipc_buffers pool que ?s"] by (auto intro: finite_subset)
  have "slave_set_up ops e ?s i" if i: "i < RTE_MAX_LCORE e" "lr_enabled (lcore_resource ?s ! i) \<noteq> 0" for i
  proof -
    have sl: "i \<in> set (slave_lcores e)" using r i by (metis (full_types))
    then have "prepared ops que (m2s_ring ops ?s) (s2m_ring ops ?s) ?s i" using y by (simp add: booted_def)
    moreover have "m2s_ring ops ?s i \<noteq> s2m_ring ops ?s i" using y slave_system.apart [OF _ sl sl] by blast
    moreover have "rte_lcore_is_enabled e i" using sl by (simp add: slave_lcores_def)
    ultimately show ?thesis by (auto simp: slave_set_up_def prepared_def)
  qed
  then show ?thesis using y r b assms(9,10) by (auto simp: loop_ok_def booted_def)
qed

section \<open>Properties\<close>

text \<open>
  C10: The setup of the master starts the system of processes properly. On pools and rings that keep the
  contract, with no ring registered before and each message buffer owned once: when the setup of
  \<open>main\<close> succeeds, the rings of different slaves and of different directions are different and empty,
  every slave's resource points to its rings and carries its number, and no core number is taken: the
  state from which the exclusive use of configurations is shown.
\<close>

theorem setup_boots:
  assumes "ring_registry ops pool que" "main_setup ops me e m = Some (Return (), m')"
    "length (proc_config (common m)) = RTE_MAX_LCORE e" "RTE_MAX_LCORE e \<le> 256"
    "owned (pool (dpdk (common m))) (que (dpdk (common m)))" "\<And>nm. rte_ring_lookup ops (dpdk (common m)) nm = None"
  shows "slave_system ops pool que e (m2s_ring ops (common m')) (s2m_ring ops (common m')) \<and>
    booted ops pool que e (m2s_ring ops (common m')) (s2m_ring ops (common m')) (common m')"
  using setup_system [OF assms] by blast

theorem setup_boots_witness:
  "\<exists>m'. main_setup list_ops demo_env demo_eal demo_boot = Some (Return (), m') \<and>
     booted list_ops list_pool ring_queues demo_eal (m2s_ring list_ops (common m')) (s2m_ring list_ops (common m')) (common m')"
proof -
  obtain m' where m': "main_setup list_ops demo_env demo_eal demo_boot = Some (Return (), m')"
    using demo_setup by blast
  have d: "length (proc_config (common demo_boot)) = RTE_MAX_LCORE demo_eal" "RTE_MAX_LCORE demo_eal \<le> 256"
    "owned (list_pool (dpdk (common demo_boot))) (ring_queues (dpdk (common demo_boot)))"
    "rte_ring_lookup list_ops (dpdk (common demo_boot)) nm = None" for nm
    by (simp_all add: demo_boot_def demo_sys_def demo_eal_def owned_def list_pool_def list_ops_def)
  from setup_boots [OF list_registry.ring_registry_axioms m' d] m' show ?thesis by blast
qed


text \<open>
  C11: A request that cannot be served is lost for good. If the master reads the request of a slave while
  every configuration is in use, then in all later states that slave still waits, also after a
  configuration has become free: the master has forgotten the request and the slave never repeats it.
\<close>

theorem unserved_request_lost:
  assumes "slave_system ops pool que e G0 G1" "booted ops pool que e G0 G1 s"
    "(proc_step ops e n)\<^sup>*\<^sup>* (boot_world s) w" "i \<in> set (slave_lcores e)" "w_phase w i = Waiting"
    "msgs que (w_master w) (G1 i) = [cfg_request]" "\<forall>p<RTE_MAX_LCORE e. \<not> free_cfg (w_master w) p"
    "poll_lcores ops e [i] c m (w_master w) = Some (c', m', s')"
    "(proc_step ops e n)\<^sup>*\<^sup>* (put_master s' w) w'"
  shows "w_phase w' i = Waiting \<and> msgs que (w_master w') (G0 i) = [] \<and> msgs que (w_master w') (G1 i) = []"
proof -
  note lost = slave_system.poll_unserved [OF assms(1) slave_system.booted_inv [OF assms(1-3)] assms(4-8)]
  show ?thesis
    using slave_system.reachable_stuck [OF assms(1,9) lost(1) assms(4) lost(2)]
    by (simp add: slave_system.stuck_def [OF assms(1)])
qed

text \<open>A slave on core 1, ready to start; configuration 2 is enabled or none is.\<close>

definition demo_fork :: "int \<Rightarrow> list_dpdk sys" where
  "demo_fork b = demo_mp
     \<lparr>dpdk := (dpdk demo_mp)\<lparr>free_bufs := [1, 2, 3], ring_queues := (\<lambda>_. [])\<rparr>,
      mapping_id := replicate 4 INVALID_MAPPING_ID, lcore_cfg := [1, 1, 0, 0],
      lcore_resource := (lcore_resource demo_mp)[1 := (lcore_resource demo_mp ! 1)\<lparr>lr_lcore_id := 1\<rparr>],
      proc_config := (proc_config demo_mp)[2 := (proc_config demo_mp ! 2)\<lparr>pc_enabled := b\<rparr>]\<rparr>"

lemmas demo_fork_defs = demo_fork_def demo_mp_defs

lemma demo_size: "RTE_MAX_LCORE demo_eal = 4"
  by (simp add: demo_eal_def)

interpretation demo_system: slave_system list_ops list_pool ring_queues demo_eal "\<lambda>_. 0" "\<lambda>_. 1"
  by (unfold_locales; simp add: demo_slaves demo_size)

lemma demo_booted: "booted list_ops list_pool ring_queues demo_eal (\<lambda>_. 0) (\<lambda>_. 1) (demo_fork b)"
proof -
  have "rings_exist list_ops (demo_fork b) 1 0 1"
    using demo_mp_facts(3) by (simp add: rings_exist_def demo_fork_def list_ops_def)
  moreover have "sys_wf demo_eal (demo_fork b)"
    by (auto simp: demo_fork_defs sys_wf_def demo_size dest!: set_update_subset_insert [THEN subsetD])
  moreover have "ipc_ok list_pool ring_queues (demo_fork b)"
    by (simp add: demo_fork_defs ipc_ok_def owned_def list_pool_def)
  ultimately show ?thesis
    by (simp add: booted_def demo_slaves prepared_def) (simp add: demo_fork_defs ring_of_def msgs_def)
qed

lemma view_put [simp]: "view (put_view i s ph w) i = s" "w_master (put_view i s ph w) = switch_process (w_master w) s"
  "w_phase (put_view i s ph w) = (w_phase w)(i := ph)" "w_num (put_view i s ph w) = w_num w"
  "w_own (put_view i s ph w) i = s"
  by (simp_all add: view_def put_view_def switch_process_def)

lemma demo_enter: "slave_enter 1 (demo_fork b) = Some (Some 2, occupied 1 2 (demo_fork b))"
  by (simp add: slave_enter_def flib_assign_lcore_id_def scan_free.simps remapping_slave_resource_def
        demo_fork_defs arr_get_def arr_set_def set_lcore_res_def occupied_def numeral_eq_Suc)

text \<open>Its state after the request is sent, and that of the system.\<close>

definition demo_sent :: "int \<Rightarrow> list_dpdk sys" where
  "demo_sent b = (occupied 1 2 (demo_fork b))
     \<lparr>dpdk := (dpdk (demo_fork b))\<lparr>free_bufs := [2, 3], ring_queues := (\<lambda>_. [])(1 := [1])\<rparr>,
      msg_mem := (\<lambda>_. \<lparr>cmd = CFG, msg = ''2''\<rparr>)(1 := cfg_request)\<rparr>"

definition demo_asked :: "int \<Rightarrow> list_dpdk world" where
  "demo_asked b = put_view 1 (demo_sent b) Waiting ((put_view 1 (occupied 1 2 (demo_fork b)) Entered
     (boot_world (demo_fork b)))\<lparr>w_num := (\<lambda>_. 0)(1 := 2)\<rparr>)"

lemma demo_asked_reached: "(proc_step list_ops demo_eal n)\<^sup>*\<^sup>* (boot_world (demo_fork b)) (demo_asked b)"
proof -
  let ?w0 = "boot_world (demo_fork b)"
  let ?w1 = "(put_view 1 (occupied 1 2 (demo_fork b)) Entered ?w0)\<lparr>w_num := (\<lambda>_. 0)(1 := 2)\<rparr>"
  have v0: "view ?w0 1 = demo_fork b" "w_num ?w0 = (\<lambda>_. 0)" "w_phase ?w0 1 = Forked"
    by (simp_all add: view_def boot_world_def switch_process_def)
  have in1: "1 \<in> set (slave_lcores demo_eal)" by (simp add: demo_slaves)
  have s1: "proc_step list_ops demo_eal n ?w0 ?w1"
    using proc_step.enter [where ops = list_ops and n = n, OF in1 v0(3)] demo_enter [of b] v0 by simp
  have v1: "view ?w1 1 = occupied 1 2 (demo_fork b)" by (simp add: view_def put_view_def switch_process_def)
  have "send_cmd list_ops 2 cfg_request False (occupied 1 2 (demo_fork b)) = Some (0, demo_sent b)"
    by (simp add: send_cmd_def demo_sent_def occupied_def demo_fork_defs arr_get_def list_ops_simps
        IPC_NB_MSGBUF_def)
  then have s2: "proc_step list_ops demo_eal n ?w1 (demo_asked b)"
    unfolding demo_asked_def using proc_step.request [where ops = list_ops and n = n and w = ?w1, OF in1] v1 by simp
  show ?thesis using s1 s2 by (meson rtranclp.simps)
qed

lemma demo_asked_facts:
  "w_phase (demo_asked b) 1 = Waiting" "w_num (demo_asked b) 1 = 2" "w_own (demo_asked b) 1 = demo_sent b"
  "w_master (demo_asked b) = switch_process (demo_fork b) (demo_sent b)"
  "msgs ring_queues (w_master (demo_asked b)) 1 = [cfg_request]"
  by (simp_all add: demo_asked_def boot_world_def) (simp_all add: switch_process_def demo_sent_def msgs_def)

lemma demo_poll_asked:
  "\<exists>m' s'. poll_lcores list_ops demo_eal [1] 5 cfg_request (w_master (demo_asked b)) =
     Some (if b = 0 then 5 else 4, m', s')"
  by (simp add: demo_asked_facts switch_process_def demo_sent_def demo_fork_defs demo_eal_def cfg_request_def get_cmd_def
      main_set_lcore_cfg_def send_cmd_def arr_get_def list_ops_simps set_used_def set_lcore_res_def arr_set_def upt_rec
      IPC_NB_MSGBUF_def numeral_2_eq_2 occupied_def)

lemma demo_running: "\<exists>w. (proc_step list_ops demo_eal n)\<^sup>*\<^sup>* (boot_world (demo_fork 1)) w \<and> w_phase w 1 = Running 2"
proof -
  let ?w = "demo_asked 1" and ?m = "w_master (demo_asked 1)"
  have in1: "1 \<in> set (slave_lcores demo_eal)" by (simp add: demo_slaves)
  have inv: "demo_system.world_inv (ipc_buffers list_pool ring_queues (demo_fork 1)) ?w"
    by (rule demo_system.booted_inv [OF demo_booted demo_asked_reached])
  then have m: "ipc_ok list_pool ring_queues ?m" "sys_wf demo_eal ?m" "lr_enabled (lcore_resource ?m ! 1) \<noteq> 0"
    "ring_of ?m 1 0 = Some 0" "ring_of ?m 1 1 = Some 1"
    using in1 by (simp_all add: demo_system.world_inv_def demo_system.slave_inv_def demo_system.known_def del: One_nat_def)
  have m6: "msgs ring_queues ?m 0 = []" by (simp add: demo_asked_facts demo_sent_def msgs_def)
  obtain m' s' where poll: "poll_lcores list_ops demo_eal [1] 5 cfg_request ?m = Some (5 - 1, m', s')"
    using demo_poll_asked [of 1] by auto
  have size: "1 < RTE_MAX_LCORE demo_eal" "(0 :: ring_ptr) \<noteq> 1" by (simp_all add: demo_size)
  obtain p where p: "p < RTE_MAX_LCORE demo_eal" "free_cfg ?m p" "msgs ring_queues s' 0 = [cfg_msg p]"
    "ipc_ok list_pool ring_queues s'"
    by (rule lists.master_answers [OF m(1,2) size(1) m(3-5) size(2) demo_asked_facts(5) m6 poll])
  have "p = 2"
    using p(1,2) by (cases "p = 2") (simp_all add: free_cfg_def demo_asked_facts switch_process_def demo_size demo_fork_defs)
  let ?w3 = "put_master s' ?w"
  have v: "view ?w3 1 = switch_process (demo_sent 1) s'" by (simp add: view_def put_master_def demo_asked_facts(3) del: One_nat_def)
  have "\<exists>s4. get_cmd list_ops 2 cfg_request False (switch_process (demo_sent 1) s') = Some (0, cfg_msg p, s4) \<and>
      ipc_ok list_pool ring_queues s4 \<and> msgs ring_queues s4 0 = []"
    by (rule lists.get_cmd_first)
      (use p(3,4) in \<open>simp_all add: valid_slave_def ring_of_def demo_sent_def occupied_def demo_fork_defs\<close>)
  then obtain s4 where s4: "get_cmd list_ops 2 cfg_request False (view ?w3 1) = Some (0, cfg_msg p, s4)" unfolding v by blast
  have s3: "proc_step list_ops demo_eal n ?w ?w3" by (rule proc_step.poll [OF in1 poll])
  have ph: "w_phase ?w3 1 = Waiting" "w_num ?w3 1 = 2"
    using demo_asked_facts(1,2) [of 1] by (simp_all add: put_master_def)
  have get: "get_cmd list_ops (w_num ?w3 1) cfg_request False (view ?w3 1) = Some (0, cfg_msg p, s4)"
    using s4 ph(2) by simp
  have "cmd (cfg_msg p) = cmd cfg_request" by (simp add: cfg_msg_def cfg_request_def)
  then have "proc_step list_ops demo_eal n ?w3 (put_view 1 s4 (Running (config_of (cfg_msg p))) ?w3)"
    unfolding config_of_def by (rule proc_step.answer [OF in1 ph(1) get])
  with demo_asked_reached [of n 1] s3 have "(proc_step list_ops demo_eal n)\<^sup>*\<^sup>* (boot_world (demo_fork 1))
      (put_view 1 s4 (Running (config_of (cfg_msg p))) ?w3)" by (meson rtranclp.rtrancl_into_rtrancl)
  then show ?thesis
    using \<open>p = 2\<close> by (intro exI [of _ "put_view 1 s4 (Running (config_of (cfg_msg p))) ?w3"]) simp
qed


theorem unserved_request_lost_witness:
  "\<exists>w. (proc_step list_ops demo_eal 2)\<^sup>*\<^sup>* (boot_world (demo_fork 0)) w \<and> w_phase w 1 = Waiting \<and>
     msgs ring_queues (w_master w) 0 = [] \<and> msgs ring_queues (w_master w) 1 = []"
proof -
  have in1: "1 \<in> set (slave_lcores demo_eal)" by (simp add: demo_slaves)
  obtain m' s' where poll: "poll_lcores list_ops demo_eal [1] 5 cfg_request (w_master (demo_asked 0)) = Some (5, m', s')"
    using demo_poll_asked [of 0] by auto
  have "\<forall>p<RTE_MAX_LCORE demo_eal. \<not> free_cfg (w_master (demo_asked 0)) p"
    by (auto simp: free_cfg_def demo_asked_facts switch_process_def demo_size demo_fork_defs nth_list_update)
  from unserved_request_lost [OF demo_system.slave_system_axioms demo_booted demo_asked_reached in1
      demo_asked_facts(1,5) this poll rtranclp.rtrancl_refl]
  have "w_phase (put_master s' (demo_asked 0)) 1 = Waiting \<and>
      msgs ring_queues (w_master (put_master s' (demo_asked 0))) 0 = [] \<and>
      msgs ring_queues (w_master (put_master s' (demo_asked 0))) 1 = []" by simp
  moreover have "(proc_step list_ops demo_eal 2)\<^sup>*\<^sup>* (boot_world (demo_fork 0)) (put_master s' (demo_asked 0))"
    using demo_asked_reached [of 2 0] proc_step.poll [OF in1 poll, of 2] by (rule rtranclp.rtrancl_into_rtrancl)
  ultimately show ?thesis by blast
qed

text \<open>
  C12: A slave that ends before it was given a configuration takes one away from another. Its resource
  still names the configuration of its former life, or number 0. If that one is now used by another
  slave, \<open>slave_exit_cb\<close> marks it as unused all the same, and the master sends it to the next slave that
  asks, unless a smaller one is free: two slaves then work with the same ports and queues.
\<close>

theorem early_exit_releases_config:
  assumes "sys_wf e s" "i < RTE_MAX_LCORE e" "j < RTE_MAX_LCORE e" "k < RTE_MAX_LCORE e" "p < RTE_MAX_LCORE e"
    "lr_enabled (lcore_resource s ! i) \<noteq> 0" "lr_config_id (lcore_resource s ! i) = p"
    "i \<noteq> j" "lr_config_id (lcore_resource s ! j) = p" "pc_enabled (proc_config s ! p) \<noteq> 0"
    "\<forall>q<p. \<not> free_cfg s q"
  shows "\<exists>s'. slave_exit_cb i stat s = Some s' \<and> lr_config_id (lcore_resource s' ! j) = p \<and> free_cfg s' p \<and>
    main_set_lcore_cfg ops e k s' = do {
      (r, s'') \<leftarrow> send_cmd ops k (cfg_msg p) True s';
      Some (if r \<noteq> 0 then (- 1, s'') else (0, assign_cfg k p s''))
    }"
proof -
  let ?p = "proc_config s ! p"
  obtain fl where s': "slave_exit_cb i stat s = Some (s\<lparr>proc_config := (proc_config s)[p := ?p\<lparr>pc_used := 0\<rparr>],
      lcore_resource := (lcore_resource s)[i := (lcore_resource s ! i)\<lparr>lr_flags := fl\<rparr>]\<rparr>)"
    using slave_exit_cb_eq [of i s p stat] assms by (auto simp: sys_wf_def)
  define t where "t = s\<lparr>proc_config := (proc_config s)[p := ?p\<lparr>pc_used := 0\<rparr>],
      lcore_resource := (lcore_resource s)[i := (lcore_resource s ! i)\<lparr>lr_flags := fl\<rparr>]\<rparr>"
  have free: "free_cfg t p" "\<forall>q<p. \<not> free_cfg t q" using assms by (simp_all add: t_def free_cfg_def sys_wf_def)
  have "find (free_cfg t) [0..<RTE_MAX_LCORE e] = Some p" using free assms(5)
    by (auto simp: find_Some_iff intro!: exI [of _ p])
  then have "main_set_lcore_cfg ops e k t = do {
      (r, s'') \<leftarrow> send_cmd ops k (cfg_msg p) True t;
      Some (if r \<noteq> 0 then (- 1, s'') else (0, assign_cfg k p s''))
    }"
    using assms by (simp add: main_set_lcore_cfg_def set_cfg_loop_find sys_wf_def t_def)
  then show ?thesis using s' free(1) assms(8,9) by (intro exI [of _ t]) (simp add: t_def)
qed

text \<open>Slave 1 uses configuration 2; slave 2 had it before.\<close>

definition demo_stale :: "list_dpdk sys" where
  "demo_stale = (demo_fork 1)
     \<lparr>lcore_resource := map (\<lambda>r. r\<lparr>lr_config_id := 2\<rparr>) (lcore_resource (demo_fork 1)),
      proc_config := (proc_config (demo_fork 1))[2 := (proc_config (demo_fork 1) ! 2)\<lparr>pc_used := 1\<rparr>]\<rparr>"

theorem early_exit_releases_config_witness:
  "\<exists>s'. slave_exit_cb 2 0 demo_stale = Some s' \<and> lr_config_id (lcore_resource s' ! 1) = 2 \<and> free_cfg s' 2"
proof -
  have wf: "sys_wf demo_eal demo_stale"
    using demo_booted [of 1] by (auto simp: booted_def demo_stale_def sys_wf_def)
  have "\<forall>q<2. \<not> free_cfg demo_stale q" "lr_enabled (lcore_resource demo_stale ! 2) \<noteq> 0"
    "lr_config_id (lcore_resource demo_stale ! 2) = 2" "lr_config_id (lcore_resource demo_stale ! 1) = 2"
    "pc_enabled (proc_config demo_stale ! 2) \<noteq> 0"
    by (simp_all add: demo_stale_def demo_fork_defs free_cfg_def)
  with early_exit_releases_config [OF wf, of 2 1 3 2 0 list_ops] show ?thesis by (auto simp: demo_size)
qed


text \<open>A round in which nothing else happens.\<close>

definition demo_round :: "'d round_input" where
  "demo_round = \<lparr>ri_now = 5, ri_io = \<lparr>zmalloc_ok = True, fwrite_count = length\<rparr>,
     ri_eth_stats = (\<lambda>_. Some \<lparr>ipackets = 0, imissed = 0, ibytes = 0, opackets = 0, oerrors = 0, obytes = 0,
       ibadcrc = 0, ibadlen = 0, ierrors = 0, rx_nombuf = 0, fdirmatch = 0, fdirmiss = 0\<rparr>), ri_others = (\<lambda>s. s)\<rparr>"


end
