(* ===== verification/Thread_Properties.thy ===== *)
theory Thread_Properties
  imports Threads Process_Properties
begin

text \<open>
  The setup of the master prepares its threads; a thread that is left alone does what \<open>lcore_func\<close> does,
  and a pass of the master that is left alone does what \<open>recreate_lcores\<close> does; what holds in all states
  that the threads can reach.
\<close>

section \<open>The start\<close>

lemma setup_slaves_ready:
  assumes "ring_registry ops pool que" "main_setup ops me e m = Some (Return (), m')"
    "length (proc_config (common m)) = RTE_MAX_LCORE e" "RTE_MAX_LCORE e \<le> 256"
    "owned (pool (dpdk (common m))) (que (dpdk (common m)))" "\<And>nm. rte_ring_lookup ops (dpdk (common m)) nm = None"
    "finite (buffers (pool (dpdk (common m))) (que (dpdk (common m))))"
    "card (buffers (pool (dpdk (common m))) (que (dpdk (common m)))) < n"
    "proc_config_nb (main_information (common m')) \<le> int (RTE_MAX_LCORE e)"
    "unat (mi_port_nb (main_information (common m'))) \<le> 31"
  shows "slaves_ready ops pool que e n (common m') \<and>
    (\<forall>i\<in>set (slave_lcores e). lr_flags (lcore_resource (common m') ! i) = 0)"
proof -
  note y = setup_system [OF assms(1-6)] and r = main_setup_tables [OF assms(2,3)] and k = setup_loop_ok [OF assms]
  have "cfg_ids e (common m')" using y by (auto simp: cfg_ids_def)
  then show ?thesis using y r k by (simp add: slaves_ready_def slave_ready_def slave_lt)
qed

section \<open>Threads that are left alone\<close>

lemma thread_runs:
  assumes i: "i \<in> set (slave_lcores e)" "t_thr t i = Started" "\<not> t_lock t" "0 < child"
    and run: "lcore_func e i child stat (\<lambda>s. s) f (\<lambda>_. slave_exit_cb) (t_sys t) = Some (Done v s')"
    and known: "i < length (lcore_resource (t_sys t))"
  shows "v = stat \<and> (thread_step ops e n Q (Thread i))\<^sup>*\<^sup>* t (at i (Ready stat) (t\<lparr>t_sys := s'\<rparr>))"
proof -
  let ?R = "thread_step ops e n Q (Thread i)"
  have ne: "rte_get_master_lcore e \<noteq> i" using i(1) by (auto simp: slave_lcores_def)
  obtain s1 s2 cfg where r: "upd_core i (\<lambda>c. c\<lparr>ls_pid := child\<rparr>) (t_sys t) = Some s1"
    "upd_core i (\<lambda>c. c\<lparr>ls_pid := 0, ls_f := None, ls_arg := 0\<rparr>) s1 = Some s2" "arr_get (core_cfg s2) i = Some cfg"
    "(case ls_cb_fn cfg of None \<Rightarrow> Some s2 | Some f \<Rightarrow> slave_exit_cb i stat s2) = Some s'" "v = stat"
    using run i(4) ne by (auto simp: lcore_func_def Let_def run_convs)
  let ?r = "lcore_resource s2 ! i"
  have res: "arr_get (lcore_resource s2) i = Some ?r"
    using r(1,2) known by (auto simp: upd_core_def arr_get_def run_convs)
  let ?t1 = "at i Watches (t\<lparr>t_sys := s1\<rparr>)" and ?t2 = "at i (Reaped stat) (t\<lparr>t_sys := s2\<rparr>)"
  have a1: "?R t ?t1" by (rule thread_step.forked [OF i(1,2,4) r(1)])
  have a2: "?R ?t1 ?t2" using thread_step.ended [OF i(1), of ?t1 s2] r(2) by (simp add: at_def)
  have last: "?R (at i (Leaves stat) (t\<lparr>t_sys := s'\<rparr>)) (at i (Ready stat) (t\<lparr>t_sys := s'\<rparr>))"
    using thread_step.returns [OF i(1), of "at i (Leaves stat) (t\<lparr>t_sys := s'\<rparr>)"] by (simp add: at_def)
  have "?R\<^sup>*\<^sup>* ?t2 (at i (Leaves stat) (t\<lparr>t_sys := s'\<rparr>))"
  proof (cases "ls_cb_fn cfg = None \<or> lr_enabled ?r = 0")
    case True
    then have "s' = s2" using r(4) res by (auto simp: slave_exit_cb_def split: option.splits)
    moreover have "after_end i stat s2 = Some (Leaves stat)" using True r(3) res by (simp add: after_end_def)
    ultimately show ?thesis
      using thread_step.notify [OF i(1), of ?t2] by (auto simp: at_def)
  next
    case False
    let ?p = "lr_config_id ?r"
    have "slave_exit_cb i stat s2 = Some s'" using False r(4) by (auto split: option.splits)
    then obtain s3 where s3: "set_used ?p 0 s2 = Some s3" "record_end i s3 = Some s'"
      using False res by (auto simp: slave_exit_cb_def record_end_def set_used_def run_convs split: if_splits)
    let ?u = "\<lambda>pc l s. at i pc (t\<lparr>t_sys := s, t_lock := l\<rparr>)"
    obtain sy mn thr where t: "t = \<lparr>t_sys = sy, t_lock = False, t_main = mn, t_thr = thr\<rparr>"
      using i(3) by (cases t) auto
    have "after_end i stat s2 = Some (Spins stat ?p)" using False r(3) res by (simp add: after_end_def)
    then have "?R ?t2 (?u (Spins stat ?p) False s2)"
      using thread_step.notify [OF i(1), of ?t2] by (simp add: at_def t)
    moreover have "?R (?u (Spins stat ?p) False s2) (?u (Marks stat ?p) True s2)"
      using thread_step.cb_lock [OF i(1), of "?u (Spins stat ?p) False s2"] by (simp add: at_def t)
    moreover have "?R (?u (Marks stat ?p) True s2) (?u (Records stat) True s3)"
      using thread_step.cb_used [OF i(1), of "?u (Marks stat ?p) True s2"] s3(1) by (simp add: at_def t)
    moreover have "?R (?u (Records stat) True s3) (?u (Unlocks stat) True s')"
      using thread_step.cb_flag [OF i(1), of "?u (Records stat) True s3"] s3(2) by (simp add: at_def t)
    moreover have "?R (?u (Unlocks stat) True s') (at i (Leaves stat) (t\<lparr>t_sys := s'\<rparr>))"
      using thread_step.cb_unlock [OF i(1), of "?u (Unlocks stat) True s'"] by (simp add: at_def t)
    ultimately show ?thesis by (meson converse_rtranclp_into_rtranclp r_into_rtranclp)
  qed
  then show ?thesis
    using r(5) a1 a2 last by (meson converse_rtranclp_into_rtranclp rtranclp.rtrancl_into_rtrancl)
qed

text \<open>The threads after a pass: those whose slave had ended are launched again.\<close>

definition restarts :: "eal \<Rightarrow> (nat \<Rightarrow> lthread) \<Rightarrow> nat \<Rightarrow> lthread" where
  "restarts e thr i = (if i \<in> set (slave_lcores e) \<and> recorded (thr i) then Started else thr i)"

context ring_registry
begin

lemma restart_steps:
  assumes inv: "t_inv e n t" and m: "t_main t = Pass k" "k < RTE_MAX_LCORE e"
    and r: "lr_enabled (lcore_resource (t_sys t) ! k) = 1" "lr_flags (lcore_resource (t_sys t) ! k) = SLAVE_RECREATE_FLAG"
    and x: "t_thr t k = Ready x" and l: "launch_ok ops pool que k"
  shows "\<exists>s s'. reset_lcore ops e n k (t_sys t) = Some (Return 0, s) \<and> clear_recreate k s = Some s' \<and>
    (thread_step ops e n Q Main)\<^sup>*\<^sup>* t (at k Started (t\<lparr>t_sys := s', t_main := Pass (Suc k)\<rparr>))"
proof -
  note k = seen_ended [OF inv m(2) r(1)]
  have g: "arr_get (lcore_resource (t_sys t)) k = Some (lcore_resource (t_sys t) ! k)"
    using slave_enabled(3) [OF inv k(1)] by (simp add: arr_get_def)
  obtain s1 where s1: "reset_prepare ops e n k (t_sys t) = Some (Return 0, s1)"
    using prepare_ok [OF t_invD(1) [OF inv] m(2) r(1)] by blast
  let ?t1 = "t\<lparr>t_sys := s1, t_main := Waits_for k\<rparr>"
  have p: "reset_prepare ops e n (lr_lcore_id (lcore_resource (t_sys t) ! k)) (t_sys t) = Some (Return 0, s1)"
    using s1 k(2) by simp
  have a1: "thread_step ops e n Q Main t ?t1" using thread_step.prepare [OF m g r p, of Q] by simp
  have inv1: "t_inv e n ?t1"
  proof -
    obtain s' where "reset_prepare ops e n k (t_sys t) = Some (Return 0, s')" "same_flags (t_sys t) s'"
      "loop_ok ops pool que e n s' \<and> loop_frame ops (t_sys t) s' \<and> quiet e (t_sys t) s'"
      using prepare_ok [OF t_invD(1) [OF inv] m(2) r(1)] by blast
    then show ?thesis
      using s1 flags_ok_same [OF t_invD(3) [OF inv]] t_invD(4) [OF inv] m(1) lock_ok_main(4) k(1,3) r(2)
      by (intro t_invI [OF inv]) simp_all
  qed
  note en = slave_enabled [OF inv1 k(1)]
  obtain s where s: "reset_finish ops e k s1 = Some (0, s)" "loop_ok ops pool que e n s"
    using finish_ok [OF t_invD(1) [OF inv1] m(2) en(1) l] by auto
  then have "k < length (lcore_resource s)" using m(2) by (simp add: loop_ok_def sys_wf_def)
  then obtain s' where s': "clear_recreate k s = Some s'" by (auto simp: clear_recreate_def arr_get_def set_lcore_res_eq)
  have "thread_step ops e n Q Main ?t1 (at k Started (?t1\<lparr>t_sys := s', t_main := Pass (Suc k)\<rparr>))"
    by (rule thread_step.launch [where r = "lcore_resource s1 ! k" and s = s and x = x])
      (use en s s' x in \<open>simp_all add: arr_get_def\<close>)
  then have "(thread_step ops e n Q Main)\<^sup>*\<^sup>* t (at k Started (t\<lparr>t_sys := s', t_main := Pass (Suc k)\<rparr>))"
    using a1 by (simp add: converse_rtranclp_into_rtranclp)
  moreover have "reset_lcore ops e n k (t_sys t) = Some (Return 0, s)"
    by (rule reset_lcore_split [OF s1 s(1) r(1)]) (use en(1) in simp)
  ultimately show ?thesis using s' by blast
qed

lemma pass_runs:
  assumes "t_inv e n t" "t_main t = Pass k" "k \<le> RTE_MAX_LCORE e"
    "\<forall>i\<in>set (slave_lcores e). recorded (t_thr t i) \<longrightarrow> (\<exists>x. t_thr t i = Ready x)"
    and l: "\<And>i. i < RTE_MAX_LCORE e \<Longrightarrow> launch_ok ops pool que i"
  shows "\<exists>s'. recreate_lcores ops e n [k..<RTE_MAX_LCORE e] (t_sys t) = Some (Return (), s') \<and>
    (thread_step ops e n Q Main)\<^sup>*\<^sup>* t (t\<lparr>t_sys := s', t_main := Pass (RTE_MAX_LCORE e),
       t_thr := restarts e (t_thr t)\<rparr>)"
  using assms(1-4)
proof (induction "RTE_MAX_LCORE e - k" arbitrary: k t)
  case 0
  then have k: "k = RTE_MAX_LCORE e" by simp
  have "\<not> recorded (t_thr t i)" if "i \<in> set (slave_lcores e)" for i
    using t_invD(4) [OF "0.prems"(1)] "0.prems"(2) k slave_lt [OF that] that by (simp add: lock_ok_def)
  then have "restarts e (t_thr t) = t_thr t" by (auto simp: restarts_def fun_eq_iff)
  moreover have "t\<lparr>t_main := Pass (RTE_MAX_LCORE e)\<rparr> = t" using "0.prems"(2) k by (cases t) simp
  ultimately show ?case using k by simp
next
  case (Suc d)
  have k: "k < RTE_MAX_LCORE e" using Suc.hyps(2) by simp
  have up: "[k..<RTE_MAX_LCORE e] = k # [Suc k..<RTE_MAX_LCORE e]" by (rule upt_conv_Cons [OF k])
  let ?r = "lcore_resource (t_sys t) ! k"
  have g: "arr_get (lcore_resource (t_sys t)) k = Some ?r"
    using t_invD(1) [OF Suc.prems(1)] k by (simp add: loop_ok_def sys_wf_def arr_get_def)
  have d: "d = RTE_MAX_LCORE e - Suc k" using Suc.hyps(2) by simp
  show ?case
  proof (cases "lr_enabled ?r = 1 \<and> lr_flags ?r = SLAVE_RECREATE_FLAG")
    case False
    let ?t = "t\<lparr>t_main := Pass (Suc k)\<rparr>"
    have step: "thread_step ops e n Q Main t ?t" by (rule thread_step.skip [OF Suc.prems(2) k g False])
    have "t_inv e n ?t" by (rule main_inv [OF Suc.prems(1) step l])
    from Suc.hyps(1) [OF d this] Suc.prems(4) k show ?thesis
      using False g up step by (auto intro: converse_rtranclp_into_rtranclp)
  next
    case True
    note sl = seen_ended [OF Suc.prems(1) k conjunct1 [OF True]]
    then have rec: "recorded (t_thr t k)" using True by simp
    then obtain x where x: "t_thr t k = Ready x" using sl(1) Suc.prems(4) by blast
    obtain s s' where s: "reset_lcore ops e n k (t_sys t) = Some (Return 0, s)" "clear_recreate k s = Some s'"
      "(thread_step ops e n Q Main)\<^sup>*\<^sup>* t (at k Started (t\<lparr>t_sys := s', t_main := Pass (Suc k)\<rparr>))"
      using restart_steps [OF Suc.prems(1,2) k conjunct1 [OF True] conjunct2 [OF True] x l [OF k]] by blast
    let ?t = "at k Started (t\<lparr>t_sys := s', t_main := Pass (Suc k)\<rparr>)"
    have inv: "t_inv e n ?t"
      using s(3) Suc.prems(1) by (induction rule: rtranclp_induct) (auto intro: main_inv [OF _ _ l])
    have "restarts e (t_thr ?t) =
      restarts e (t_thr t)"
      using rec sl(1) by (auto simp: at_def restarts_def fun_eq_iff)
    moreover have "recreate_lcores ops e n [k..<RTE_MAX_LCORE e] (t_sys t) =
        recreate_lcores ops e n [Suc k..<RTE_MAX_LCORE e] s'"
      using True g s(1,2) sl(2) by (auto simp: up clear_recreate_def run_convs)
    moreover have "\<forall>i\<in>set (slave_lcores e). recorded (t_thr ?t i) \<longrightarrow> (\<exists>x. t_thr ?t i = Ready x)"
      using Suc.prems(4) by (simp add: at_def)
    then obtain s2 where s2: "recreate_lcores ops e n [Suc k..<RTE_MAX_LCORE e] (t_sys ?t) = Some (Return (), s2)"
      "(thread_step ops e n Q Main)\<^sup>*\<^sup>* ?t (?t\<lparr>t_sys := s2, t_main := Pass (RTE_MAX_LCORE e), t_thr := restarts e (t_thr ?t)\<rparr>)"
      using Suc.hyps(1) [OF d inv] k by (auto simp: at_def)
    moreover have "?t\<lparr>t_sys := s2, t_main := m, t_thr := x\<rparr> = t\<lparr>t_sys := s2, t_main := m, t_thr := x\<rparr>" for m x
      by (simp add: at_def)
    ultimately show ?thesis using rtranclp_trans [OF s(3) s2(2)] by (intro exI [of _ s2]) (simp add: at_def)
  qed
qed

end

section \<open>Properties\<close>


text \<open>
  C9: The master is never blocked. In every state that the threads can reach, the master itself can
  make a step, or it can after at most three steps of one single thread: it waits for the lock only while
  a thread is about to give it back, and it waits, with the lock, only for threads that do not need
  the lock any more.
\<close>

theorem master_not_blocked:
  assumes "ring_registry ops pool que" "\<And>j. j < RTE_MAX_LCORE e \<Longrightarrow> launch_ok ops pool que j"
    "slaves_ready ops pool que e n s" "\<forall>j\<in>set (slave_lcores e). lr_flags (lcore_resource s ! j) = 0"
    "(some_step ops e n (loop_ok ops pool que e n))\<^sup>*\<^sup>* (all_launched e s) t"
  shows "\<exists>j. \<exists>m\<le>3. \<exists>t1 t2. (thread_step ops e n (loop_ok ops pool que e n) (Thread j) ^^ m) t t1 \<and>
    thread_step ops e n (loop_ok ops pool que e n) Main t1 t2"
  by (rule ring_registry.main_can_step [OF assms(1) ring_registry.reached_inv
        [OF assms(1,5) ring_registry.launched_inv [OF assms(1,3,4)] assms(2)] assms(2)])

text \<open>
  C13: A slave that could not be forked is forgotten. The thread returns without calling the callback,
  so the flag is not set; in all later states the thread is idle, the slave does not run and the master
  does not try to start it again.
\<close>

theorem failed_fork_forgotten:
  assumes "ring_registry ops pool que" "\<And>j. j < RTE_MAX_LCORE e \<Longrightarrow> launch_ok ops pool que j"
    "slaves_ready ops pool que e n s" "\<forall>j\<in>set (slave_lcores e). lr_flags (lcore_resource s ! j) = 0"
    "(some_step ops e n (loop_ok ops pool que e n))\<^sup>*\<^sup>* (all_launched e s) t"
    "i \<in> set (slave_lcores e)" "t_thr t i = Unborn"
    "(some_step ops e n (loop_ok ops pool que e n))\<^sup>*\<^sup>* t t'"
  shows "t_thr t' i = Unborn \<and> lr_flags (lcore_resource (t_sys t') ! i) = 0 \<and> t_main t' \<noteq> Waits_for i"
proof -
  have inv: "threads_ok ops pool que e n t"
    by (rule ring_registry.reached_inv [OF assms(1,5) ring_registry.launched_inv [OF assms(1,3,4)] assms(2)])
  have u: "t_thr t' i = Unborn" by (rule ring_registry.unborn_for_ever [OF assms(1,8) inv assms(2,6,7)])
  have "threads_ok ops pool que e n t'" by (rule ring_registry.reached_inv [OF assms(1,8) inv assms(2)])
  then show ?thesis using u assms(6) by (auto simp: threads_ok_def flags_ok_def lock_ok_def)
qed

section \<open>A machine with one slave\<close>

lemma demo_ready:
  obtains s where "slaves_ready list_ops list_pool ring_queues demo_eal 5 s"
    "\<forall>j\<in>set (slave_lcores demo_eal). lr_flags (lcore_resource s ! j) = 0"
proof -
  obtain m' where m': "main_setup list_ops demo_env demo_eal demo_boot = Some (Return (), m')"
    "proc_config_nb (main_information (common m')) = 0" "mi_port_nb (main_information (common m')) = 1"
    using demo_setup by blast
  have b: "buffers (list_pool (dpdk (common demo_boot))) (ring_queues (dpdk (common demo_boot))) = {1, 2, 3}"
    by (simp add: buffers_def demo_boot_def demo_sys_def list_pool_def)
  have d: "length (proc_config (common demo_boot)) = RTE_MAX_LCORE demo_eal" "RTE_MAX_LCORE demo_eal \<le> 256"
    "owned (list_pool (dpdk (common demo_boot))) (ring_queues (dpdk (common demo_boot)))"
    "rte_ring_lookup list_ops (dpdk (common demo_boot)) nm = None" for nm
    by (simp_all add: demo_boot_def demo_sys_def demo_eal_def owned_def list_pool_def list_ops_def)
  show ?thesis
    using that setup_slaves_ready [OF list_registry.ring_registry_axioms m'(1) d, where n = 5] b m'(2,3) by auto
qed

lemma demo_launch_ok: "launch_ok list_ops list_pool ring_queues i"
  by (simp add: launch_ok_def list_ops_def list_pool_def)

lemma lcore_func_runs:
  assumes "slaves_ready ops pool que e n s" "i \<in> set (slave_lcores e)" "0 < child"
  shows "\<exists>s'. lcore_func e i child stat (\<lambda>s. s) f (\<lambda>_. slave_exit_cb) s = Some (Done stat s')"
proof -
  have ok: "sys_wf e s" "i < RTE_MAX_LCORE e" "rte_get_master_lcore e \<noteq> i" "lr_config_id (lcore_resource s ! i) < RTE_MAX_LCORE e"
    using assms by (auto simp: slaves_ready_def loop_ok_def cfg_ids_def slave_lcores_def)
  let ?s = "s\<lparr>core_cfg := (core_cfg s)[i := (core_cfg s ! i)\<lparr>ls_pid := 0, ls_f := None, ls_arg := 0\<rparr>]\<rparr>"
  have "\<exists>s'. slave_exit_cb i stat ?s = Some s'"
    using slave_exit_recorded [of i ?s stat] ok by (simp add: sys_wf_def)
  then show ?thesis
    using ok assms(3) by (auto simp: lcore_func_def upd_core_def arr_get_def arr_set_def sys_wf_def Let_def split: option.splits)
qed

lemma demo_ended:
  assumes "slaves_ready list_ops list_pool ring_queues demo_eal 5 s"
  shows "\<exists>t. (some_step list_ops demo_eal 5 Q)\<^sup>*\<^sup>* (all_launched demo_eal s) t \<and> t_thr t 1 = Ready 7"
proof -
  let ?t = "all_launched demo_eal s"
  have in1: "1 \<in> set (slave_lcores demo_eal)" by (simp add: demo_slaves)
  have len: "1 < length (lcore_resource (t_sys ?t))"
    using assms by (simp add: slaves_ready_def loop_ok_def sys_wf_def all_launched_def demo_size)
  obtain s' where run: "lcore_func demo_eal 1 99 7 (\<lambda>s. s) (\<lambda>_ _ _. None) (\<lambda>_. slave_exit_cb) (t_sys ?t) = Some (Done 7 s')"
    using lcore_func_runs [OF assms in1, of 99 7 "\<lambda>_ _ _. None"] by (auto simp: all_launched_def)
  have start: "t_thr ?t 1 = Started" "\<not> t_lock ?t" "(0 :: int) < 99" using in1 by (simp_all add: all_launched_def)
  have "(thread_step list_ops demo_eal 5 Q (Thread 1))\<^sup>*\<^sup>* ?t (at 1 (Ready 7) (?t\<lparr>t_sys := s'\<rparr>))"
    using thread_runs [OF in1 start run len] by blast
  moreover have "thread_step list_ops demo_eal 5 Q (Thread 1) \<le> some_step list_ops demo_eal 5 Q"
    by (auto simp: some_step_def)
  ultimately have "(some_step list_ops demo_eal 5 Q)\<^sup>*\<^sup>* ?t (at 1 (Ready 7) (?t\<lparr>t_sys := s'\<rparr>))"
    using rtranclp_mono by blast
  then show ?thesis by (intro exI [of _ "at 1 (Ready 7) (?t\<lparr>t_sys := s'\<rparr>)"]) (simp add: at_def)
qed


theorem master_not_blocked_witness:
  "\<exists>s t. (some_step list_ops demo_eal 5 (loop_ok list_ops list_pool ring_queues demo_eal 5))\<^sup>*\<^sup>* (all_launched demo_eal s) t \<and>
     t_thr t 1 = Ready 7 \<and>
     (\<exists>j m t1 t2. (thread_step list_ops demo_eal 5 (loop_ok list_ops list_pool ring_queues demo_eal 5) (Thread j) ^^ m) t t1 \<and>
        thread_step list_ops demo_eal 5 (loop_ok list_ops list_pool ring_queues demo_eal 5) Main t1 t2)"
proof -
  obtain s where s: "slaves_ready list_ops list_pool ring_queues demo_eal 5 s"
    "\<forall>j\<in>set (slave_lcores demo_eal). lr_flags (lcore_resource s ! j) = 0" by (rule demo_ready)
  obtain t where t: "(some_step list_ops demo_eal 5 (loop_ok list_ops list_pool ring_queues demo_eal 5))\<^sup>*\<^sup>* (all_launched demo_eal s) t"
    "t_thr t 1 = Ready 7" using demo_ended [OF s(1)] by blast
  from master_not_blocked [OF list_registry.ring_registry_axioms demo_launch_ok s t(1)] t show ?thesis by blast
qed

theorem failed_fork_forgotten_witness:
  "\<exists>s t. (some_step list_ops demo_eal 5 (loop_ok list_ops list_pool ring_queues demo_eal 5))\<^sup>*\<^sup>* (all_launched demo_eal s) t \<and>
     t_thr t 1 = Unborn \<and> lr_flags (lcore_resource (t_sys t) ! 1) = 0"
proof -
  obtain s where s: "slaves_ready list_ops list_pool ring_queues demo_eal 5 s"
    "\<forall>j\<in>set (slave_lcores demo_eal). lr_flags (lcore_resource s ! j) = 0" by (rule demo_ready)
  let ?Q = "loop_ok list_ops list_pool ring_queues demo_eal 5" and ?t = "all_launched demo_eal s"
  have in1: "1 \<in> set (slave_lcores demo_eal)" by (simp add: demo_slaves)
  then have "thread_step list_ops demo_eal 5 ?Q (Thread 1) ?t (at 1 Unborn ?t)"
    by (intro thread_step.no_fork) (simp_all add: all_launched_def)
  then have r: "(some_step list_ops demo_eal 5 ?Q)\<^sup>*\<^sup>* ?t (at 1 Unborn ?t)"
    unfolding some_step_def by (intro r_into_rtranclp exI [of _ "Thread 1"])
  have u: "t_thr (at 1 Unborn ?t) 1 = Unborn" by (simp add: at_def)
  from failed_fork_forgotten [OF list_registry.ring_registry_axioms demo_launch_ok s r in1 u rtranclp.rtrancl_refl] r
  show ?thesis by blast
qed

end
