(* ===== verification/Fdir.thy ===== *)
theory Fdir
  imports Port_Setup
begin

text \<open>
  The flow director rules (\<^verbatim>\<open>src/fdir.c\<close>). The driver and the parser of the rule file are not part
  of the program: the driver calls are arguments, and the parser is a function that is given the
  callback and runs it on the state.
\<close>

section \<open>Operations\<close>

text \<open>
  What the driver answers for a port: whether the filter type is supported, the result of the empty
  operation, the mode that the information call stores, if it stores one, and the error number.
\<close>

record fdir_driver =
  filter_supported :: "u8 \<Rightarrow> int"
  filter_nop :: "u8 \<Rightarrow> int"
  fdir_info_mode :: "u8 \<Rightarrow> fdir_mode option"
  rte_errno :: int

definition fdir_init :: "fdir_driver \<Rightarrow> u8 \<Rightarrow> int option" where
  "fdir_init drv port_id =
     (if filter_supported drv port_id < 0 then Some (- 1)
      else do {
        let return_value = filter_nop drv port_id;
        fmode \<leftarrow> fdir_info_mode drv port_id;
        if fmode = RTE_FDIR_MODE_NONE then Some (- 1)
        else if return_value < 0 then Some (rte_errno drv)
        else Some 0
      })"

text \<open>A rule for a port, with the filter as the parser made it; the rules added are recorded.\<close>

record 'f fdir_parsing =
  fp_port :: int
  fp_filter :: 'f

definition fdir_callback_add_rules ::
  "(int \<Rightarrow> 'f \<Rightarrow> int) \<Rightarrow> int \<Rightarrow> u32 \<Rightarrow> 'f fdir_parsing \<Rightarrow> (int \<times> 'f) list \<Rightarrow> (int \<times> (int \<times> 'f) list) option" where
  "fdir_callback_add_rules add errno port_mask rule added = do {
     (if fp_port rule < 0 then None else Some ());
     en \<leftarrow> port_enabled port_mask (nat (fp_port rule));
     if en then
       if add (fp_port rule) (fp_filter rule) \<noteq> 0 then Some (errno, added)
       else Some (0, added @ [(fp_port rule, fp_filter rule)])
     else Some (0, added)
   }"

definition fdir_main ::
  "(string \<Rightarrow> ('f fdir_parsing \<Rightarrow> (int \<times> 'f) list \<Rightarrow> (int \<times> (int \<times> 'f) list) option) \<Rightarrow>
     (int \<times> 'f) list \<Rightarrow> (int \<times> 'f) list option) \<Rightarrow>
   (int \<Rightarrow> 'f \<Rightarrow> int) \<Rightarrow> int \<Rightarrow> u32 \<Rightarrow> string \<Rightarrow> (int \<times> 'f) list \<Rightarrow> (int \<times> (int \<times> 'f) list) option" where
  "fdir_main yaml_parser add errno port_mask file_name added = do {
     added \<leftarrow> yaml_parser file_name (fdir_callback_add_rules add errno port_mask) added;
     Some (0, added)
   }"

section \<open>Facts\<close>

text \<open>A port is accepted exactly when the flow director is supported, usable and switched on.\<close>

lemma fdir_init_0_iff:
  assumes "fdir_info_mode drv p = Some md" "rte_errno drv \<noteq> 0"
  shows "fdir_init drv p = Some 0 \<longleftrightarrow>
    0 \<le> filter_supported drv p \<and> 0 \<le> filter_nop drv p \<and> md \<noteq> RTE_FDIR_MODE_NONE"
  using assms by (auto simp: fdir_init_def)

text \<open>Only rules of enabled ports reach the driver.\<close>

lemma fdir_callback_enabled:
  assumes "fdir_callback_add_rules add errno port_mask rule added = Some (r, added')" "fp_port rule \<le> INT_MAX"
  shows "added' = added \<or> added' = added @ [(fp_port rule, fp_filter rule)] \<and> bit port_mask (nat (fp_port rule))"
proof -
  have "nat (fp_port rule) < 2 ^ 32" using assms(2) by (simp add: INT_MAX_def)
  then have "nat (fp_port rule) < 31 \<or> port_enabled port_mask (nat (fp_port rule)) = None"
    by (auto simp: port_enabled_def shift1_def unsigned_of_nat take_bit_nat_eq_self)
  then show ?thesis
    using assms(1) port_enabled_eq [of "nat (fp_port rule)" port_mask]
    by (auto simp: fdir_callback_add_rules_def bind_eq_Some_conv split: if_splits)
qed

text \<open>Errors of the rules are not reported to the caller.\<close>

lemma fdir_main_returns_0:
  "fdir_main yaml_parser add errno port_mask file_name added = Some (r, added') \<Longrightarrow> r = 0"
  by (auto simp: fdir_main_def bind_eq_Some_conv)

end
