(* ===== verification/Rfc1812.thy ===== *)
theory Rfc1812
  imports Hash_Key
begin

text \<open>
  The check of an IPv4 header of \<^verbatim>\<open>src/bridge_optimized.c\<close>, after section 5.2.2 of RFC 1812. It is
  compiled only with \<^verbatim>\<open>DO_RFC_1812_CHECKS\<close>, with which its caller does not compile: that uses a variable whose
  declaration is commented out and a function that does not exist. The header is the list of its bytes; a
  read outside is undefined.
\<close>

unbundle bit_operations_syntax

definition sizeof_ipv4_hdr :: nat where "sizeof_ipv4_hdr = 20"

definition is_valid_ipv4_pkt :: "u8 list \<Rightarrow> u32 \<Rightarrow> int option" where
  "is_valid_ipv4_pkt pkt link_len =
     (if unat link_len < sizeof_ipv4_hdr then Some (- 1)
      else do {
        version_ihl \<leftarrow> arr_get pkt 0;
        if drop_bit 4 version_ihl \<noteq> 4 then Some (- 3)
        else if version_ihl AND 0xf < 5 then Some (- 4)
        else do {
          hi \<leftarrow> arr_get pkt 2;
          lo \<leftarrow> arr_get pkt 3;
          if unat (push_bit 8 (ucast hi) OR ucast lo :: u16) < sizeof_ipv4_hdr then Some (- 5) else Some 0
        }
      })"

section \<open>What is accepted\<close>

text \<open>The header length that the header itself gives, in bytes.\<close>

definition header_len :: "u8 list \<Rightarrow> nat" where
  "header_len pkt = 4 * unat (pkt ! 0 AND 0xf)"

definition total_length :: "u8 list \<Rightarrow> nat" where
  "total_length pkt = unat (be16 pkt 2)"

lemma ihl_bound: "\<not> (b :: u8) AND 0xf < 5 \<longleftrightarrow> 20 \<le> 4 * unat (b AND 0xf)"
  by (simp add: word_less_nat_alt not_less)

text \<open>
  A packet is accepted exactly if the link holds a minimal header, the version is 4, and both the header
  length and the total length are at least those of a minimal header. Every refusal says why, and
  no byte after the fourth is read.
\<close>

lemma is_valid_ipv4_pkt_exact:
  assumes "4 \<le> length pkt"
  shows "is_valid_ipv4_pkt pkt link_len = Some
    (if unat link_len < 20 then - 1 else if drop_bit 4 (pkt ! 0) \<noteq> 4 then - 3
     else if header_len pkt < 20 then - 4 else if total_length pkt < 20 then - 5 else 0)"
proof -
  have "(pkt ! 0 AND 0xf < 5) = (header_len pkt < 20)" using ihl_bound [of "pkt ! 0"] by (auto simp: header_len_def)
  moreover have "pkt \<noteq> []" "2 < length pkt" "3 < length pkt" using assms by auto
  ultimately show ?thesis
    by (simp add: is_valid_ipv4_pkt_def sizeof_ipv4_hdr_def arr_get_def be16_def total_length_def)
qed

lemma is_valid_ipv4_pkt_exact_witness: "is_valid_ipv4_pkt [0x45, 0, 0, 40] 60 = Some 0"
  using is_valid_ipv4_pkt_exact [of "[0x45, 0, 0, 40]" 60]
  by (simp add: header_len_def total_length_def be16_def drop_bit_eq_div)

text \<open>
  The comment over the last test asks that the total length hold the header, whose length the header gives; the
  code compares it with the length of a minimal header. A header that claims 60 bytes in a datagram of
  20 bytes is accepted.
\<close>

lemma is_valid_ipv4_pkt_short_total:
  "\<exists>pkt. length pkt = 60 \<and> is_valid_ipv4_pkt pkt 60 = Some 0 \<and> total_length pkt < header_len pkt"
proof -
  let ?p = "[0x4f, 0, 0, 20] @ replicate 56 (0 :: u8)"
  have "drop_bit 4 (?p ! 0) = 4" "header_len ?p = 60" "total_length ?p = 20"
    by (simp_all add: drop_bit_eq_div header_len_def total_length_def be16_def)
  then show ?thesis using is_valid_ipv4_pkt_exact [of ?p 60] by (intro exI [of _ ?p]) simp
qed

end
